(* ===== verification/Prelude.thy ===== *)
theory Prelude
  imports Main "HOL-Library.Word"
begin

text \<open>
  Shared vocabulary of the development: the fixed-width integer types of
  \<^verbatim>\<open>src/hfsplus/hfs_macos_defs.h\<close>, the Mac OS result codes the common code
  returns, the two list surgeries that model linking and unlinking a queue
  entry, and the generic list lemmas the component theories rely on.

  Result codes are kept as the integers of the source (\<^verbatim>\<open>OSErr\<close> is a
  signed integer and \<^verbatim>\<open>noErr\<close> is 0), because the code compares them with each
  other and passes positive BSD error numbers through the same variables.
\<close>

unbundle bit_operations_syntax

section \<open>Machine types and result codes\<close>

type_synonym u8 = "8 word"
type_synonym u16 = "16 word"
type_synonym u32 = "32 word"
type_synonym OSErr = int

definition noErr :: OSErr where "noErr = 0"
definition dskFulErr :: OSErr where "dskFulErr = - 34"
definition fileBoundsErr :: OSErr where "fileBoundsErr = - 1309"
definition fxRangeErr :: OSErr where "fxRangeErr = - 32767 + 16"
definition fxOvFlErr :: OSErr where "fxOvFlErr = - 32767 + 17"
definition btNotFound :: OSErr where "btNotFound = - 32767 + 32"
definition btExists :: OSErr where "btExists = - 32767 + 33"
definition btNoSpaceAvail :: OSErr where "btNoSpaceAvail = - 32767 + 34"
definition btBadNode :: OSErr where "btBadNode = - 32767 + 36"

named_theorems oserr_defs

lemmas oserr_values [oserr_defs] =
  noErr_def dskFulErr_def fileBoundsErr_def fxRangeErr_def fxOvFlErr_def
  btNotFound_def btExists_def btNoSpaceAvail_def btBadNode_def

text \<open>
  Block numbers and counts (\<^verbatim>\<open>UInt32\<close>) are natural numbers; where a sum or a
  difference can leave the type, the wrap-around of the machine is written out.
\<close>

definition u32_add :: "nat \<Rightarrow> nat \<Rightarrow> nat" where
  "u32_add a b = (a + b) mod 2 ^ 32"

definition u32_sub :: "nat \<Rightarrow> nat \<Rightarrow> nat" where
  "u32_sub a b = (a + 2 ^ 32 - b mod 2 ^ 32) mod 2 ^ 32"

text \<open>Equality of two \<^verbatim>\<open>UInt32\<close> values.\<close>

definition u32_eq :: "nat \<Rightarrow> nat \<Rightarrow> bool" where
  "u32_eq a b \<longleftrightarrow> a mod 2 ^ 32 = b mod 2 ^ 32"

lemma u32_eq_exact [simp]: "a < 2 ^ 32 \<Longrightarrow> b < 2 ^ 32 \<Longrightarrow> u32_eq a b \<longleftrightarrow> a = b"
  by (simp add: u32_eq_def)

lemma u32_sub_cases:
  "u32_sub a b =
     (if b mod 2 ^ 32 \<le> a mod 2 ^ 32 then a mod 2 ^ 32 - b mod 2 ^ 32
      else a mod 2 ^ 32 + 2 ^ 32 - b mod 2 ^ 32)"
proof -
  define m :: nat where "m = 2 ^ 32"
  have m: "m > 0" by (simp add: m_def)
  have "(a + m - b mod m) mod m = (a mod m + m - b mod m) mod m"
    using m by (metis Nat.add_diff_assoc mod_add_left_eq mod_less_divisor less_or_eq_imp_le)
  also have "\<dots> = (if b mod m \<le> a mod m then a mod m - b mod m else a mod m + m - b mod m)"
  proof (cases "b mod m \<le> a mod m")
    case True
    then have "(a mod m + m - b mod m) mod m = ((a mod m - b mod m) + m) mod m" by simp
    also have "\<dots> = a mod m - b mod m" using m by (simp add: less_imp_diff_less)
    finally show ?thesis using True by simp
  next
    case False
    then have "a mod m + m - b mod m < m" using m by linarith
    with False show ?thesis by simp
  qed
  finally show ?thesis by (simp only: u32_sub_def m_def)
qed

text \<open>A counter that has not reached its end gets closer to it.\<close>

lemma u32_count_down:
  assumes "\<not> u32_eq b e"
  shows "u32_sub e (u32_add b 1) < u32_sub e b"
proof -
  define m :: nat where "m = 2 ^ 32"
  have m: "m > 1" by (simp add: m_def)
  have ne: "b mod m \<noteq> e mod m" using assms by (simp add: u32_eq_def m_def)
  have suc: "u32_add b 1 mod m = (if b mod m = m - 1 then 0 else b mod m + 1)"
    using m unfolding u32_add_def m_def [symmetric]
    by (auto simp: mod_Suc)
  define x y where "x = b mod m" and "y = e mod m"
  have "x < m" "y < m" "x \<noteq> y" using m ne by (simp_all add: x_def y_def)
  with m show ?thesis
    unfolding u32_sub_cases m_def [symmetric] suc x_def [symmetric] y_def [symmetric] by auto
qed

lemma u32_add_exact [simp]: "a + b < 2 ^ 32 \<Longrightarrow> u32_add a b = a + b"
  by (simp add: u32_add_def)

lemma u32_sub_exact [simp]: "b \<le> a \<Longrightarrow> a < 2 ^ 32 \<Longrightarrow> u32_sub a b = a - b"
  by (simp add: u32_sub_def mod_if)

lemma u32_sub_wrap: "a < b \<Longrightarrow> b < 2 ^ 32 \<Longrightarrow> u32_sub a b = a + 2 ^ 32 - b"
  by (simp add: u32_sub_def)

lemma u32_add_less [simp]: "u32_add a b < 2 ^ 32"
  by (simp add: u32_add_def)

lemma u32_sub_less [simp]: "u32_sub a b < 2 ^ 32"
  by (simp add: u32_sub_def)

text \<open>Division of C: the quotient is rounded towards zero.\<close>

definition c_div :: "int \<Rightarrow> int \<Rightarrow> int" where
  "c_div a b = sgn a * sgn b * (\<bar>a\<bar> div \<bar>b\<bar>)"

lemma c_div_nonneg [simp]: "0 \<le> a \<Longrightarrow> 0 < b \<Longrightarrow> c_div a b = a div b"
  by (cases "a = 0") (simp_all add: c_div_def)

section \<open>Queue surgery on lists\<close>

definition remove_nth :: "nat \<Rightarrow> 'a list \<Rightarrow> 'a list" where
  "remove_nth i xs = take i xs @ drop (Suc i) xs"

definition insert_after :: "nat \<Rightarrow> 'a \<Rightarrow> 'a list \<Rightarrow> 'a list" where
  "insert_after i x xs = take (Suc i) xs @ x # drop (Suc i) xs"

lemma remove_nth_mid [simp]: "remove_nth (length xs) (xs @ y # zs) = xs @ zs"
  by (simp add: remove_nth_def)

lemma remove_nth_next [simp]: "remove_nth (Suc (length xs)) (xs @ a # y # zs) = xs @ a # zs"
  by (simp add: remove_nth_def)

lemma insert_after_mid [simp]: "insert_after (length xs) x (xs @ y # zs) = xs @ y # x # zs"
  by (simp add: insert_after_def)

lemma length_remove_nth: "i < length xs \<Longrightarrow> length (remove_nth i xs) = length xs - 1"
  by (auto simp: remove_nth_def)

lemma split_at:
  assumes "i < length xs"
  obtains ys y zs where "xs = ys @ y # zs" "length ys = i"
  using assms id_take_nth_drop [of i xs] by (metis length_take min.absorb4)

lemma nth_mid [simp]: "(xs @ y # zs) ! length xs = y"
  by simp

lemma nth_mid_Suc [simp]: "(xs @ a # y # zs) ! Suc (length xs) = y"
  by (simp add: nth_append)

end
