(* ===== verification/RangeList.thy ===== *)
theory RangeList
  imports Prelude
begin

text \<open>
  The list of byte ranges of \<^verbatim>\<open>src/hfsplus/rangelist.c\<close>, in which a file keeps the
  parts of itself that are allocated but not yet valid (\<^verbatim>\<open>ff_invalidranges\<close>).

  The tail queue is a list of entries and a pointer to an entry is its
  position in the list; \<^verbatim>\<open>NULL\<close> is \<open>None\<close>. Offsets (\<^verbatim>\<open>off_t\<close>) are integers
  and \<^verbatim>\<open>RL_INFINITY\<close> is \<open>-1\<close>, as in \<^verbatim>\<open>rangelist.h\<close>. The checks compiled only
  under \<^verbatim>\<open>RL_DIAGNOSTIC\<close> (which no build file defines) are left out.

  The operations come first, each loop as one recursive function. Then the
  meaning of a list as the set of bytes it covers, the invariant (ordered,
  disjoint, coalesced entries), what the scan finds, and that removal is set
  difference. Insertion is set union only for the way the callers use it, a
  range at the tail of the list; the last section shows what it does elsewhere.
\<close>

section \<open>Entries and the scan\<close>

record rl_entry =
  rl_start :: int
  rl_end :: int

datatype rl_overlaptype =
    RL_NOOVERLAP
  | RL_MATCHINGOVERLAP
  | RL_OVERLAPCONTAINSRANGE
  | RL_OVERLAPISCONTAINED
  | RL_OVERLAPSTARTSBEFORE
  | RL_OVERLAPENDSAFTER

definition RL_INFINITY :: int where
  "RL_INFINITY = - 1"

text \<open>
  The loop of \<^verbatim>\<open>rl_scan_from\<close>. Its last line is the fall-through of the source,
  which goes round again on the same entry; the termination proof shows that
  no pair of ranges gets there.
\<close>

function rl_scan_from ::
  "rl_entry list \<Rightarrow> int \<Rightarrow> int \<Rightarrow> nat \<Rightarrow> rl_overlaptype \<times> nat option" where
  "rl_scan_from rangelist start end pos =
     (if rangelist = [] then (RL_NOOVERLAP, None)
      else
        let r = rangelist ! pos in
        if (rl_end r \<noteq> RL_INFINITY \<and> start > rl_end r) \<or>
           (end \<noteq> RL_INFINITY \<and> rl_start r > end) then
          (if end \<noteq> RL_INFINITY \<and> rl_start r > end then (RL_NOOVERLAP, Some pos)
           else if pos + 1 \<ge> length rangelist then (RL_NOOVERLAP, Some pos)
           else rl_scan_from rangelist start end (pos + 1))
        else if rl_start r = start \<and> rl_end r = end then
          (RL_MATCHINGOVERLAP, Some pos)
        else if rl_start r \<le> start \<and> end \<noteq> RL_INFINITY \<and>
                (rl_end r \<ge> end \<or> rl_end r = RL_INFINITY) then
          (RL_OVERLAPCONTAINSRANGE, Some pos)
        else if start \<le> rl_start r \<and>
                (end = RL_INFINITY \<or> (rl_end r \<noteq> RL_INFINITY \<and> end \<ge> rl_end r)) then
          (RL_OVERLAPISCONTAINED, Some pos)
        else if rl_start r < start \<and> (rl_end r \<ge> start \<or> rl_end r = RL_INFINITY) then
          (RL_OVERLAPSTARTSBEFORE, Some pos)
        else if rl_start r > start \<and> end \<noteq> RL_INFINITY \<and>
                (rl_end r > end \<or> rl_end r = RL_INFINITY) then
          (RL_OVERLAPENDSAFTER, Some pos)
        else rl_scan_from rangelist start end pos)"
  by pat_completeness auto
termination
  by (relation "measure (\<lambda>(rangelist, start, end, pos). length rangelist - pos)")
     (auto simp: not_le)

declare rl_scan_from.simps [simp del]

definition rl_scan :: "rl_entry list \<Rightarrow> int \<Rightarrow> int \<Rightarrow> rl_overlaptype \<times> nat option" where
  "rl_scan rangelist start end =
     (if rangelist = [] then (RL_NOOVERLAP, None)
      else rl_scan_from rangelist start end 0)"

section \<open>Insertion\<close>

definition rl_init :: "rl_entry list" where
  "rl_init = []"

function rl_collapse_forwards :: "rl_entry list \<Rightarrow> nat \<Rightarrow> rl_entry list" where
  "rl_collapse_forwards rangelist pos =
     (if pos + 1 \<ge> length rangelist then rangelist
      else
        let r = rangelist ! pos; next_range = rangelist ! (pos + 1) in
        if rl_end r \<noteq> RL_INFINITY \<and> rl_end r < rl_start next_range - 1 then rangelist
        else rl_collapse_forwards
               (remove_nth (pos + 1)
                  (rangelist[pos := r\<lparr>rl_end := rl_end next_range\<rparr>])) pos)"
  by pat_completeness auto
termination
  by (relation "measure (\<lambda>(rangelist, pos). length rangelist)")
     (auto simp: length_remove_nth)

declare rl_collapse_forwards.simps [simp del]

fun rl_collapse_backwards :: "rl_entry list \<Rightarrow> nat \<Rightarrow> rl_entry list" where
  "rl_collapse_backwards rangelist 0 = rangelist"
| "rl_collapse_backwards rangelist (Suc p) =
     (let prev_range = rangelist ! p; r = rangelist ! Suc p in
      if rl_end prev_range < rl_start r - 1 then rangelist
      else rl_collapse_backwards
             (remove_nth p (rangelist[Suc p := r\<lparr>rl_start := rl_start prev_range\<rparr>])) p)"

definition rl_collapse_neighbors :: "rl_entry list \<Rightarrow> nat \<Rightarrow> rl_entry list" where
  "rl_collapse_neighbors rangelist pos =
     rl_collapse_backwards (rl_collapse_forwards rangelist pos) pos"

text \<open>
  \<^verbatim>\<open>TAILQ_INSERT_AFTER\<close> on the entry at position \<open>k\<close> puts the new range at
  position \<open>k + 1\<close>, which is then the entry whose neighbours are collapsed.
\<close>

definition rl_add :: "int \<Rightarrow> int \<Rightarrow> rl_entry list \<Rightarrow> rl_entry list" where
  "rl_add start end rangelist =
     (case rl_scan rangelist start end of
        (RL_NOOVERLAP, overlap) \<Rightarrow>
          (let new_range = \<lparr>rl_start = start, rl_end = end\<rparr> in
           case overlap of
             Some k \<Rightarrow> rl_collapse_neighbors (insert_after k new_range rangelist) (k + 1)
           | None \<Rightarrow> rl_collapse_neighbors (new_range # rangelist) 0)
      | (RL_MATCHINGOVERLAP, _) \<Rightarrow> rangelist
      | (RL_OVERLAPCONTAINSRANGE, _) \<Rightarrow> rangelist
      | (RL_OVERLAPISCONTAINED, Some k) \<Rightarrow>
          rl_collapse_neighbors
            (rangelist[k := (rangelist ! k)\<lparr>rl_start := start, rl_end := end\<rparr>]) k
      | (RL_OVERLAPSTARTSBEFORE, Some k) \<Rightarrow>
          rl_collapse_forwards (rangelist[k := (rangelist ! k)\<lparr>rl_end := end\<rparr>]) k
      | (RL_OVERLAPENDSAFTER, Some k) \<Rightarrow>
          rl_collapse_backwards (rangelist[k := (rangelist ! k)\<lparr>rl_start := start\<rparr>]) k
      | (_, None) \<Rightarrow> rangelist)"

section \<open>Removal\<close>

lemma rl_scan_from_pos:
  "rl_scan_from l s e i = (t, Some k) \<Longrightarrow> i \<le> k"
proof (induction l s e i rule: rl_scan_from.induct)
  case (1 l s e i)
  show ?case
    using "1.prems" "1.IH"
    by (subst (asm) rl_scan_from.simps) (fastforce simp: Let_def split: if_splits)
qed


text \<open>
  The loop of \<^verbatim>\<open>rl_remove\<close>: \<open>continue\<close> is the recursive call from the entry
  \<^verbatim>\<open>range\<close> was set to, \<open>break\<close> returns the list.
\<close>

function rl_remove_from :: "rl_entry list \<Rightarrow> int \<Rightarrow> int \<Rightarrow> nat \<Rightarrow> rl_entry list" where
  "rl_remove_from rangelist start end pos =
     (case rl_scan_from rangelist start end pos of
        (RL_NOOVERLAP, _) \<Rightarrow> rangelist
      | (RL_MATCHINGOVERLAP, Some k) \<Rightarrow> remove_nth k rangelist
      | (RL_OVERLAPCONTAINSRANGE, Some k) \<Rightarrow>
          (let overlap = rangelist ! k in
           if rl_start overlap = start then
             rangelist[k := overlap\<lparr>rl_start := end + 1\<rparr>]
           else if rl_end overlap = end then
             rangelist[k := overlap\<lparr>rl_end := start - 1\<rparr>]
           else
             insert_after k \<lparr>rl_start = end + 1, rl_end = rl_end overlap\<rparr>
               (rangelist[k := overlap\<lparr>rl_end := start - 1\<rparr>]))
      | (RL_OVERLAPISCONTAINED, Some k) \<Rightarrow>
          (if k + 1 < length rangelist
           then rl_remove_from (remove_nth k rangelist) start end k
           else remove_nth k rangelist)
      | (RL_OVERLAPSTARTSBEFORE, Some k) \<Rightarrow>
          (let rangelist' = rangelist[k := (rangelist ! k)\<lparr>rl_end := start - 1\<rparr>] in
           if k + 1 < length rangelist
           then rl_remove_from rangelist' start end (k + 1)
           else rangelist')
      | (RL_OVERLAPENDSAFTER, Some k) \<Rightarrow>
          rangelist[k := (rangelist ! k)
            \<lparr>rl_start := (if end = RL_INFINITY then RL_INFINITY else end + 1)\<rparr>]
      | (_, None) \<Rightarrow> rangelist)"
  by pat_completeness auto
termination
  by (relation "measure (\<lambda>(rangelist, start, end, pos). length rangelist - pos)")
     (auto simp: length_remove_nth dest!: rl_scan_from_pos [OF sym])

declare rl_remove_from.simps [simp del]

definition rl_remove :: "int \<Rightarrow> int \<Rightarrow> rl_entry list \<Rightarrow> rl_entry list" where
  "rl_remove start end rangelist =
     (if rangelist = [] then rangelist else rl_remove_from rangelist start end 0)"

section \<open>What a list of ranges means\<close>

definition rl_seg :: "int \<Rightarrow> int \<Rightarrow> int set" where
  "rl_seg s e = {x. s \<le> x \<and> (e = RL_INFINITY \<or> x \<le> e)}"

definition rl_cover :: "rl_entry list \<Rightarrow> int set" where
  "rl_cover l = (\<Union>r \<in> set l. rl_seg (rl_start r) (rl_end r))"

definition rl_valid :: "int \<Rightarrow> int \<Rightarrow> bool" where
  "rl_valid s e \<longleftrightarrow> 0 \<le> s \<and> (e = RL_INFINITY \<or> s \<le> e)"

fun rl_inv :: "rl_entry list \<Rightarrow> bool" where
  "rl_inv [] = True"
| "rl_inv (r # l) =
     (rl_valid (rl_start r) (rl_end r) \<and>
      (\<forall>q \<in> set l. rl_end r \<noteq> RL_INFINITY \<and> rl_end r + 1 < rl_start q) \<and>
      rl_inv l)"

named_theorems rl_defs

lemmas rl_set_defs [rl_defs] = rl_seg_def rl_valid_def RL_INFINITY_def

lemma rl_cover_simps [simp]:
  "rl_cover [] = {}"
  "rl_cover (r # l) = rl_seg (rl_start r) (rl_end r) \<union> rl_cover l"
  "rl_cover (xs @ ys) = rl_cover xs \<union> rl_cover ys"
  by (auto simp: rl_cover_def)

lemma rl_inv_append:
  "rl_inv (xs @ ys) \<longleftrightarrow> rl_inv xs \<and> rl_inv ys \<and>
     (\<forall>r \<in> set xs. \<forall>q \<in> set ys. rl_end r \<noteq> RL_INFINITY \<and> rl_end r + 1 < rl_start q)"
  by (induction xs) auto

section \<open>The scan\<close>

text \<open>
  How one entry relates to a range: which entries the scan skips, which it
  stops at without an overlap, and the overlap case it reports otherwise.
\<close>

definition rl_before :: "int \<Rightarrow> rl_entry \<Rightarrow> bool" where
  "rl_before s r \<longleftrightarrow> rl_end r \<noteq> RL_INFINITY \<and> rl_end r < s"

definition rl_beyond :: "int \<Rightarrow> rl_entry \<Rightarrow> bool" where
  "rl_beyond e r \<longleftrightarrow> e \<noteq> RL_INFINITY \<and> e < rl_start r"

definition rl_classify :: "int \<Rightarrow> int \<Rightarrow> rl_entry \<Rightarrow> rl_overlaptype" where
  "rl_classify s e r =
     (if rl_before s r \<or> rl_beyond e r then RL_NOOVERLAP
      else if rl_start r = s \<and> rl_end r = e then RL_MATCHINGOVERLAP
      else if rl_start r \<le> s \<and> e \<noteq> RL_INFINITY \<and> (rl_end r \<ge> e \<or> rl_end r = RL_INFINITY)
      then RL_OVERLAPCONTAINSRANGE
      else if s \<le> rl_start r \<and> (e = RL_INFINITY \<or> rl_end r \<noteq> RL_INFINITY \<and> e \<ge> rl_end r)
      then RL_OVERLAPISCONTAINED
      else if rl_start r < s then RL_OVERLAPSTARTSBEFORE
      else RL_OVERLAPENDSAFTER)"

lemma rl_scan_from_step:
  "rl_scan_from (xs @ r # ys) s e (length xs) =
     (if rl_before s r \<and> \<not> rl_beyond e r \<and> ys \<noteq> []
      then rl_scan_from (xs @ r # ys) s e (Suc (length xs))
      else (rl_classify s e r, Some (length xs)))"
  by (subst rl_scan_from.simps)
     (auto simp: Let_def rl_classify_def rl_before_def rl_beyond_def not_le)


lemma rl_scan_from_shift:
  "rl_scan_from (xs @ r # ys) s e (Suc (length xs)) =
   rl_scan_from ((xs @ [r]) @ ys) s e (length (xs @ [r]))"
  by simp

lemma rl_scan_from_split:
  assumes "ys \<noteq> []"
  shows "\<exists>us r vs. ys = us @ r # vs \<and>
           rl_scan_from (xs @ ys) s e (length xs) =
             (rl_classify s e r, Some (length xs + length us)) \<and>
           (\<forall>u \<in> set us. rl_before s u \<and> \<not> rl_beyond e u) \<and>
           (rl_before s r \<and> \<not> rl_beyond e r \<longrightarrow> vs = [])"
  using assms
proof (induction ys arbitrary: xs)
  case (Cons r ys)
  show ?case
  proof (cases "rl_before s r \<and> \<not> rl_beyond e r \<and> ys \<noteq> []")
    case True
    with Cons.IH [of "xs @ [r]"] obtain us q vs where
      ys: "ys = us @ q # vs" and
      scan: "rl_scan_from ((xs @ [r]) @ ys) s e (length (xs @ [r])) =
               (rl_classify s e q, Some (length (xs @ [r]) + length us))" and
      rest: "\<forall>u \<in> set us. rl_before s u \<and> \<not> rl_beyond e u"
            "rl_before s q \<and> \<not> rl_beyond e q \<longrightarrow> vs = []"
      by blast
    have "rl_scan_from (xs @ r # ys) s e (length xs) =
            (rl_classify s e q, Some (length xs + length (r # us)))"
      using True scan by (simp add: rl_scan_from_step rl_scan_from_shift del: append_assoc)
    with True ys rest show ?thesis
      by (intro exI [of _ "r # us"] exI [of _ q] exI [of _ vs]) auto
  next
    case False
    then show ?thesis
      by (intro exI [of _ "[]"] exI [of _ r] exI [of _ ys]) (auto simp: rl_scan_from_step)
  qed
qed simp

lemma rl_classify_disjoint:
  assumes "rl_valid s e" "rl_valid (rl_start r) (rl_end r)"
  shows "rl_classify s e r = RL_NOOVERLAP \<longleftrightarrow> rl_seg s e \<inter> rl_seg (rl_start r) (rl_end r) = {}"
proof
  assume "rl_classify s e r = RL_NOOVERLAP"
  then show "rl_seg s e \<inter> rl_seg (rl_start r) (rl_end r) = {}"
    by (auto simp: rl_classify_def rl_before_def rl_beyond_def rl_defs split: if_splits)
next
  assume "rl_seg s e \<inter> rl_seg (rl_start r) (rl_end r) = {}"
  moreover have "max s (rl_start r) \<in> rl_seg s e \<inter> rl_seg (rl_start r) (rl_end r)"
    if "\<not> (rl_before s r \<or> rl_beyond e r)"
    using that assms by (auto simp: rl_before_def rl_beyond_def rl_defs)
  ultimately show "rl_classify s e r = RL_NOOVERLAP"
    by (auto simp: rl_classify_def)
qed

section \<open>Removal is set difference\<close>

text \<open>The list removal computes, entry by entry.\<close>

fun rl_minus :: "int \<Rightarrow> int \<Rightarrow> rl_entry list \<Rightarrow> rl_entry list" where
  "rl_minus s e [] = []"
| "rl_minus s e (r # l) =
     (case rl_classify s e r of
        RL_NOOVERLAP \<Rightarrow> (if rl_before s r \<and> \<not> rl_beyond e r then r # rl_minus s e l else r # l)
      | RL_MATCHINGOVERLAP \<Rightarrow> l
      | RL_OVERLAPCONTAINSRANGE \<Rightarrow>
          (if rl_start r = s then [r\<lparr>rl_start := e + 1\<rparr>]
           else if rl_end r = e then [r\<lparr>rl_end := s - 1\<rparr>]
           else [r\<lparr>rl_end := s - 1\<rparr>, \<lparr>rl_start = e + 1, rl_end = rl_end r\<rparr>]) @ l
      | RL_OVERLAPISCONTAINED \<Rightarrow> rl_minus s e l
      | RL_OVERLAPSTARTSBEFORE \<Rightarrow> r\<lparr>rl_end := s - 1\<rparr> # rl_minus s e l
      | RL_OVERLAPENDSAFTER \<Rightarrow> r\<lparr>rl_start := e + 1\<rparr> # l)"

lemma rl_remove_from_cong:
  "rl_scan_from l s e i = rl_scan_from l s e j \<Longrightarrow> rl_remove_from l s e i = rl_remove_from l s e j"
  by (simp add: rl_remove_from.simps)

lemma rl_remove_from_minus:
  "ys \<noteq> [] \<Longrightarrow> rl_remove_from (xs @ ys) s e (length xs) = xs @ rl_minus s e ys"
proof (induction ys arbitrary: xs)
  case (Cons r ys)
  note IH = Cons.IH [of "xs @ [r]"] Cons.IH [of xs]
    Cons.IH [of "xs @ [r\<lparr>rl_end := s - 1\<rparr>]"]
  show ?case
  proof (cases "rl_before s r \<and> \<not> rl_beyond e r \<and> ys \<noteq> []")
    case True
    then have "rl_remove_from (xs @ r # ys) s e (length xs) =
               rl_remove_from (xs @ r # ys) s e (Suc (length xs))"
      by (intro rl_remove_from_cong) (simp add: rl_scan_from_step)
    with True IH show ?thesis by (simp add: rl_classify_def)
  next
    case False
    then have "rl_scan_from (xs @ r # ys) s e (length xs) = (rl_classify s e r, Some (length xs))"
      by (auto simp: rl_scan_from_step)
    with False IH show ?thesis
      by (subst rl_remove_from.simps)
         (auto simp: Let_def rl_classify_def split: rl_overlaptype.splits)
  qed
qed simp

lemma rl_remove_minus: "rl_remove s e l = rl_minus s e l"
  using rl_remove_from_minus [of l "[]"] by (auto simp: rl_remove_def)


lemmas rl_classify_defs = rl_classify_def rl_before_def rl_beyond_def rl_set_defs

lemma rl_inv_tail_disjoint:
  assumes "rl_inv (r # l)" "rl_end r = RL_INFINITY \<or> e \<noteq> RL_INFINITY \<and> e \<le> rl_end r + 1"
  shows "rl_cover l \<inter> rl_seg s e = {}"
  using assms by (cases l) (force simp: rl_cover_def rl_defs)+

lemma rl_inv_beyond_disjoint:
  assumes "rl_inv (r # l)" "rl_beyond e r"
  shows "rl_cover (r # l) \<inter> rl_seg s e = {}"
  using assms by (force simp: rl_cover_def rl_beyond_def rl_defs)

lemma rl_minus_lower:
  assumes "rl_valid s e" "rl_inv l" "\<forall>q \<in> set l. b < rl_start q"
  shows "\<forall>q \<in> set (rl_minus s e l). b < rl_start q"
  using assms
  by (induction l) (auto simp: rl_classify_defs split: if_splits)

lemma rl_minus_inv:
  assumes "rl_valid s e" "rl_inv l"
  shows "rl_inv (rl_minus s e l)"
  using assms(2)
proof (induction l)
  case (Cons r l)
  have low: "\<forall>q \<in> set (rl_minus s e l). rl_end r + 1 < rl_start q"
    using Cons.prems assms(1) by (intro rl_minus_lower) auto
  have empty: "rl_end r = RL_INFINITY \<Longrightarrow> l = []"
    using Cons.prems by (cases l) auto
  have IH: "rl_inv (rl_minus s e l)" "rl_inv l"
    and valid: "0 \<le> rl_start r" "rl_end r = RL_INFINITY \<or> rl_start r \<le> rl_end r"
    and later: "\<forall>q \<in> set l. rl_end r + 1 < rl_start q"
    using Cons by (auto simp: rl_valid_def)
  show ?case
    using IH valid later low empty assms(1)
    by (cases "rl_classify s e r"; cases "l = []") (force simp: rl_classify_defs split: if_splits)+
qed simp

lemma rl_seg_contains_cut:
  assumes "rl_classify s e r = RL_OVERLAPCONTAINSRANGE" "rl_valid s e"
    "rl_valid (rl_start r) (rl_end r)"
  shows
    "rl_start r = s \<Longrightarrow> rl_seg (e + 1) (rl_end r) = rl_seg (rl_start r) (rl_end r) - rl_seg s e"
    "rl_end r = e \<Longrightarrow> rl_start r \<noteq> s \<Longrightarrow>
       rl_seg (rl_start r) (s - 1) = rl_seg (rl_start r) (rl_end r) - rl_seg s e"
    "rl_start r \<noteq> s \<Longrightarrow>
       rl_seg (rl_start r) (s - 1) \<union> rl_seg (e + 1) (rl_end r) =
       rl_seg (rl_start r) (rl_end r) - rl_seg s e"
  using assms by (auto simp: rl_classify_defs split: if_splits)

lemma rl_seg_startsbefore_cut:
  assumes "rl_classify s e r = RL_OVERLAPSTARTSBEFORE" "rl_valid s e"
    "rl_valid (rl_start r) (rl_end r)"
  shows "rl_seg (rl_start r) (s - 1) = rl_seg (rl_start r) (rl_end r) - rl_seg s e"
  using assms by (auto simp: rl_classify_defs split: if_splits)

lemma rl_seg_endsafter_cut:
  assumes "rl_classify s e r = RL_OVERLAPENDSAFTER"
  shows "rl_seg (e + 1) (rl_end r) = rl_seg (rl_start r) (rl_end r) - rl_seg s e"
  using assms by (auto simp: rl_classify_defs split: if_splits)


lemma rl_minus_cover:
  assumes "rl_valid s e" "rl_inv l"
  shows "rl_cover (rl_minus s e l) = rl_cover l - rl_seg s e"
  using assms(2)
proof (induction l)
  case (Cons r l)
  have IH: "rl_cover (rl_minus s e l) = rl_cover l - rl_seg s e"
    and valid: "rl_valid (rl_start r) (rl_end r)"
    using Cons by simp_all
  note tail = rl_inv_tail_disjoint [OF Cons.prems, of e s]
  show ?case
  proof (cases "rl_classify s e r")
    case RL_NOOVERLAP
    then consider "rl_beyond e r" | "rl_before s r" "\<not> rl_beyond e r"
      by (auto simp: rl_classify_def split: if_splits)
    then show ?thesis
    proof cases
      case 1
      then show ?thesis
        using RL_NOOVERLAP rl_inv_beyond_disjoint [OF Cons.prems, of e s] by auto
    next
      case 2
      moreover have "rl_seg (rl_start r) (rl_end r) \<inter> rl_seg s e = {}"
        using 2 by (auto simp: rl_before_def rl_defs)
      ultimately show ?thesis using RL_NOOVERLAP IH by auto
    qed
  next
    case RL_MATCHINGOVERLAP
    moreover from this have "rl_cover l \<inter> rl_seg s e = {}"
      by (intro tail) (auto simp: rl_classify_def split: if_splits)
    ultimately show ?thesis
      by (auto simp: rl_classify_def split: if_splits)
  next
    case RL_OVERLAPCONTAINSRANGE
    moreover from this have "rl_cover l \<inter> rl_seg s e = {}"
      by (intro tail) (auto simp: rl_classify_def split: if_splits)
    ultimately show ?thesis
      using rl_seg_contains_cut [OF RL_OVERLAPCONTAINSRANGE assms(1) valid]
      by (auto simp: Un_assoc [symmetric])
  next
    case RL_OVERLAPISCONTAINED
    moreover from this have "rl_seg (rl_start r) (rl_end r) \<subseteq> rl_seg s e"
      by (auto simp: rl_classify_defs split: if_splits)
    ultimately show ?thesis using IH by auto
  next
    case RL_OVERLAPSTARTSBEFORE
    then show ?thesis
      using IH rl_seg_startsbefore_cut [OF RL_OVERLAPSTARTSBEFORE assms(1) valid] by auto
  next
    case RL_OVERLAPENDSAFTER
    moreover from this have "rl_cover l \<inter> rl_seg s e = {}"
      by (intro tail) (auto simp: rl_classify_def split: if_splits)
    ultimately show ?thesis
      using rl_seg_endsafter_cut [OF RL_OVERLAPENDSAFTER] by auto
  qed
qed simp


section \<open>Insertion at the tail is set union\<close>

text \<open>
  The callers add the range that a write beyond the end of file leaves
  unwritten. Everything recorded before it lies below its start, except that
  the last entry may touch or overlap it.
\<close>

definition rl_at_tail :: "int \<Rightarrow> int \<Rightarrow> rl_entry list \<Rightarrow> bool" where
  "rl_at_tail s e l \<longleftrightarrow>
     (\<forall>r \<in> set (butlast l). rl_before s r) \<and> (l \<noteq> [] \<longrightarrow> \<not> rl_beyond e (last l))"

lemma rl_collapse_forwards_last [simp]:
  "rl_collapse_forwards (xs @ [r]) (length xs) = xs @ [r]"
  by (simp add: rl_collapse_forwards.simps)

lemma rl_collapse_forwards_single [simp]: "rl_collapse_forwards [r] 0 = [r]"
  by (simp add: rl_collapse_forwards.simps)

lemma rl_collapse_forwards_end [simp]:
  "rl_collapse_forwards (xs @ [q, r]) (Suc (length xs)) = xs @ [q, r]"
  by (simp add: rl_collapse_forwards.simps)

text \<open>
  Coalescing backwards from an entry above all its predecessors merges at
  most the one it touches, because the predecessors are coalesced already.
\<close>

lemma rl_collapse_backwards_eq:
  assumes "rl_inv us"
  shows "rl_collapse_backwards (us @ r # vs) (length us) =
     (if us \<noteq> [] \<and> \<not> rl_end (last us) < rl_start r - 1
      then butlast us @ r\<lparr>rl_start := rl_start (last us)\<rparr> # vs
      else us @ r # vs)"
proof (cases us rule: rev_cases)
  case (snoc ws w)
  have stop: "rl_collapse_backwards (ws @ q # vs) (length ws) = ws @ q # vs"
    if "rl_start q = rl_start w" for q
    using assms snoc that
    by (cases ws rule: rev_cases) (auto simp: rl_inv_append nth_append)
  show ?thesis
    using snoc by (auto simp: stop Let_def list_update_append remove_nth_def nth_append)
qed simp

lemma rl_collapse_backwards_correct:
  assumes us: "rl_inv us" "\<forall>u \<in> set us. rl_before (rl_start r) u" and r: "rl_inv (r # vs)"
  defines "l \<equiv> rl_collapse_backwards (us @ r # vs) (length us)"
  shows "rl_inv l \<and> rl_cover l = rl_cover (us @ r # vs)"
proof (cases us rule: rev_cases)
  case Nil
  then show ?thesis using r by (simp add: l_def)
next
  case (snoc ws w)
  have w: "rl_valid (rl_start w) (rl_end w)" "rl_before (rl_start r) w"
    and ws: "rl_inv ws" "\<forall>u \<in> set ws. rl_end u \<noteq> RL_INFINITY \<and> rl_end u + 1 < rl_start w"
    using us snoc by (auto simp: rl_inv_append)
  have l: "l = (if \<not> rl_end w < rl_start r - 1
      then ws @ r\<lparr>rl_start := rl_start w\<rparr> # vs else ws @ w # r # vs)"
    unfolding l_def rl_collapse_backwards_eq [OF us(1)] using snoc by simp
  have below: "rl_start w < rl_start r"
    using w by (auto simp: rl_before_def rl_defs)
  have gap: "\<forall>u \<in> set ws. rl_end u \<noteq> RL_INFINITY \<and> (\<forall>q \<in> set (r # vs). rl_end u + 1 < rl_start q)"
    using ws(2) below r by (fastforce simp: rl_defs)
  show ?thesis
  proof (cases "rl_end w < rl_start r - 1")
    case True
    then have "\<forall>q \<in> set (r # vs). rl_end w + 1 < rl_start q"
      using r by (fastforce simp: rl_defs)
    with True snoc us r w gap show ?thesis
      by (auto simp: l rl_inv_append rl_before_def)
  next
    case False
    have "rl_seg (rl_start w) (rl_end r) =
        rl_seg (rl_start w) (rl_end w) \<union> rl_seg (rl_start r) (rl_end r)"
      using w r False by (auto simp: rl_before_def rl_defs)
    moreover have "rl_valid (rl_start w) (rl_end r)"
      using w r below by (auto simp: rl_defs)
    ultimately show ?thesis
      using snoc us r gap ws False
      by (auto simp: l rl_inv_append)
  qed
qed


lemma rl_scan_from_skip:
  assumes "\<forall>u \<in> set us. rl_before s u \<and> \<not> rl_beyond e u"
  shows "rl_scan_from (xs @ us @ [r]) s e (length xs) =
           (rl_classify s e r, Some (length xs + length us))"
  using assms
proof (induction us arbitrary: xs)
  case Nil
  then show ?case by (simp add: rl_scan_from_step)
next
  case (Cons u us)
  then have "rl_scan_from (xs @ u # us @ [r]) s e (length xs) =
             rl_scan_from ((xs @ [u]) @ us @ [r]) s e (length (xs @ [u]))"
    by (simp add: rl_scan_from_step)
  with Cons.IH [of "xs @ [u]"] Cons.prems show ?case by simp
qed

lemma rl_before_not_beyond:
  "rl_valid s e \<Longrightarrow> rl_valid (rl_start u) (rl_end u) \<Longrightarrow> rl_before s u \<Longrightarrow> \<not> rl_beyond e u"
  by (auto simp: rl_before_def rl_beyond_def rl_defs)

lemma rl_inv_valid: "rl_inv l \<Longrightarrow> r \<in> set l \<Longrightarrow> rl_valid (rl_start r) (rl_end r)"
  by (induction l) auto

lemma rl_scan_tail:
  assumes "rl_valid s e" "rl_inv (us @ [r])" "\<forall>u \<in> set us. rl_before s u"
  shows "rl_scan (us @ [r]) s e = (rl_classify s e r, Some (length us))"
proof -
  have "\<forall>u \<in> set us. rl_before s u \<and> \<not> rl_beyond e u"
    using assms rl_inv_valid [OF assms(2)] by (auto dest: rl_before_not_beyond)
  then show ?thesis
    using rl_scan_from_skip [of us s e "[]" r] by (simp add: rl_scan_def)
qed

text \<open>The last entry once the new range is merged into it.\<close>

lemma rl_seg_merge:
  assumes "rl_valid s e" "rl_valid (rl_start r) (rl_end r)"
  shows
    "rl_classify s e r = RL_MATCHINGOVERLAP \<or> rl_classify s e r = RL_OVERLAPCONTAINSRANGE \<Longrightarrow>
       rl_seg s e \<subseteq> rl_seg (rl_start r) (rl_end r)"
    "rl_classify s e r = RL_OVERLAPISCONTAINED \<Longrightarrow>
       rl_seg (rl_start r) (rl_end r) \<subseteq> rl_seg s e"
    "rl_classify s e r = RL_OVERLAPSTARTSBEFORE \<Longrightarrow>
       rl_seg (rl_start r) e = rl_seg (rl_start r) (rl_end r) \<union> rl_seg s e \<and>
       rl_valid (rl_start r) e"
    "rl_classify s e r = RL_OVERLAPENDSAFTER \<Longrightarrow>
       rl_seg s (rl_end r) = rl_seg (rl_start r) (rl_end r) \<union> rl_seg s e \<and>
       rl_valid s (rl_end r)"
  using assms by (auto simp: rl_classify_defs split: if_splits)

lemma rl_add_snoc:
  assumes "rl_valid s e" "rl_inv (us @ [r])" "\<forall>u \<in> set us. rl_before s u" "\<not> rl_beyond e r"
  shows "rl_inv (rl_add s e (us @ [r])) \<and>
         rl_cover (rl_add s e (us @ [r])) = rl_cover (us @ [r]) \<union> rl_seg s e"
proof -
  have valid: "rl_valid (rl_start r) (rl_end r)" and us: "rl_inv us"
    and gaps: "\<forall>u \<in> set us. rl_end u \<noteq> RL_INFINITY \<and> rl_end u + 1 < rl_start r"
    using assms(2) by (auto simp: rl_inv_append)
  note scan = rl_scan_tail [OF assms(1-3)]
  note merge = rl_seg_merge [OF assms(1) valid]
  have collapse: "rl_inv (rl_collapse_backwards (us @ [q]) (length us)) \<and>
      rl_cover (rl_collapse_backwards (us @ [q]) (length us)) = rl_cover (us @ [q])"
    if "rl_start q = s" "rl_valid s (rl_end q)" for q
    using rl_collapse_backwards_correct [of us q "[]"] us assms(3) that by simp
  show ?thesis
  proof (cases "rl_classify s e r")
    case RL_NOOVERLAP
    with assms(4) have "rl_before s r"
      by (auto simp: rl_classify_def split: if_splits)
    with rl_collapse_backwards_correct [of "us @ [r]" "\<lparr>rl_start = s, rl_end = e\<rparr>" "[]"]
    show ?thesis
      using assms RL_NOOVERLAP scan by (simp add: rl_add_def rl_collapse_neighbors_def Un_assoc)
  next
    case RL_OVERLAPSTARTSBEFORE
    with merge gaps us scan show ?thesis
      by (auto simp: rl_add_def rl_inv_append)
  qed (use assms scan merge collapse in \<open>auto simp: rl_add_def rl_collapse_neighbors_def\<close>)
qed

lemma rl_add_tail:
  assumes "rl_valid s e" "rl_inv l" "rl_at_tail s e l"
  shows "rl_inv (rl_add s e l) \<and> rl_cover (rl_add s e l) = rl_cover l \<union> rl_seg s e"
proof (cases l rule: rev_cases)
  case Nil
  then show ?thesis
    using assms(1) by (simp add: rl_add_def rl_scan_def rl_collapse_neighbors_def)
next
  case (snoc us r)
  then show ?thesis
    using assms rl_add_snoc [of s e us r] by (auto simp: rl_at_tail_def)
qed


section \<open>The interface the read and write paths rely on\<close>

text \<open>
  What \<^verbatim>\<open>hfs_write\<close> and \<^verbatim>\<open>hfs_truncate\<close> use of the list: a set of bytes that can
  be queried, shrunk by any range, and grown at its tail.
\<close>

locale range_set =
  fixes inv :: "'s \<Rightarrow> bool"
    and cover :: "'s \<Rightarrow> int set"
    and seg :: "int \<Rightarrow> int \<Rightarrow> int set"
    and valid :: "int \<Rightarrow> int \<Rightarrow> bool"
    and hits :: "'s \<Rightarrow> int \<Rightarrow> int \<Rightarrow> bool"
    and remove :: "int \<Rightarrow> int \<Rightarrow> 's \<Rightarrow> 's"
  assumes hits_iff: "inv l \<Longrightarrow> valid s e \<Longrightarrow> hits l s e \<longleftrightarrow> cover l \<inter> seg s e \<noteq> {}"
    and remove_inv: "inv l \<Longrightarrow> valid s e \<Longrightarrow> inv (remove s e l)"
    and remove_cover: "inv l \<Longrightarrow> valid s e \<Longrightarrow> cover (remove s e l) = cover l - seg s e"
begin

lemma remove_hits_iff:
  "inv l \<Longrightarrow> valid s e \<Longrightarrow> valid a b \<Longrightarrow> \<not> hits (remove s e l) a b \<longleftrightarrow> cover l \<inter> seg a b \<subseteq> seg s e"
  by (auto simp: hits_iff remove_inv remove_cover)

lemma remove_not_hit:
  "inv l \<Longrightarrow> valid s e \<Longrightarrow> valid a b \<Longrightarrow> seg a b \<subseteq> seg s e \<Longrightarrow> \<not> hits (remove s e l) a b"
  by (auto simp: hits_iff remove_inv remove_cover)

lemma remove_keeps_hit:
  "inv l \<Longrightarrow> valid s e \<Longrightarrow> valid a b \<Longrightarrow> seg a b \<inter> seg s e = {} \<Longrightarrow>
   hits (remove s e l) a b \<longleftrightarrow> hits l a b"
  by (auto simp: hits_iff remove_inv remove_cover)

end

locale growing_range_set = range_set +
  fixes at_tail :: "int \<Rightarrow> int \<Rightarrow> 's \<Rightarrow> bool"
    and add :: "int \<Rightarrow> int \<Rightarrow> 's \<Rightarrow> 's"
  assumes add_inv: "inv l \<Longrightarrow> valid s e \<Longrightarrow> at_tail s e l \<Longrightarrow> inv (add s e l)"
    and add_cover: "inv l \<Longrightarrow> valid s e \<Longrightarrow> at_tail s e l \<Longrightarrow> cover (add s e l) = cover l \<union> seg s e"
begin

lemma add_remove_cover:
  "inv l \<Longrightarrow> valid s e \<Longrightarrow> at_tail s e l \<Longrightarrow> cover (remove s e (add s e l)) = cover l - seg s e"
  by (simp add: remove_cover add_inv add_cover Un_Diff)

end

lemma rl_scan_correct:
  assumes "rl_valid s e" "rl_inv l" "rl_scan l s e = (t, p)"
  shows "(t = RL_NOOVERLAP \<longleftrightarrow> rl_cover l \<inter> rl_seg s e = {}) \<and>
         (t \<noteq> RL_NOOVERLAP \<longrightarrow>
           (\<exists>k < length l. p = Some k \<and> t = rl_classify s e (l ! k) \<and>
              rl_cover (take k l) \<inter> rl_seg s e = {}))"
proof (cases "l = []")
  case True
  then show ?thesis using assms by (simp add: rl_scan_def)
next
  case False
  then obtain us r vs where l: "l = us @ r # vs"
    and scan: "t = rl_classify s e r" "p = Some (length us)"
    and skip: "\<forall>u \<in> set us. rl_before s u \<and> \<not> rl_beyond e u"
    and last: "rl_before s r \<and> \<not> rl_beyond e r \<longrightarrow> vs = []"
    using rl_scan_from_split [of l "[]" s e] assms(3) by (auto simp: rl_scan_def)
  have us: "rl_cover us \<inter> rl_seg s e = {}"
    using skip by (auto simp: rl_cover_def rl_before_def rl_defs)
  have valid: "rl_valid (rl_start r) (rl_end r)" and inv: "rl_inv (r # vs)"
    using assms(2) l by (auto simp: rl_inv_append)
  have "rl_cover (r # vs) \<inter> rl_seg s e = {}" if "t = RL_NOOVERLAP"
  proof (cases "rl_beyond e r")
    case True
    then show ?thesis using inv by (intro rl_inv_beyond_disjoint)
  next
    case False
    with that scan last have "vs = []"
      by (auto simp: rl_classify_def split: if_splits)
    with that scan show ?thesis
      using rl_classify_disjoint [OF assms(1) valid] by auto
  qed
  moreover have "rl_cover l \<inter> rl_seg s e \<noteq> {}" if "t \<noteq> RL_NOOVERLAP"
    using that scan l rl_classify_disjoint [OF assms(1) valid] by auto
  ultimately show ?thesis
    using us l scan by auto
qed

interpretation rl: growing_range_set
  rl_inv rl_cover rl_seg rl_valid "\<lambda>l s e. fst (rl_scan l s e) \<noteq> RL_NOOVERLAP" rl_remove
  rl_at_tail rl_add
proof
  fix l s e
  assume "rl_inv l" "rl_valid s e"
  then show "fst (rl_scan l s e) \<noteq> RL_NOOVERLAP \<longleftrightarrow> rl_cover l \<inter> rl_seg s e \<noteq> {}"
    using rl_scan_correct [of s e l] by (cases "rl_scan l s e") auto
  show "rl_inv (rl_remove s e l)" "rl_cover (rl_remove s e l) = rl_cover l - rl_seg s e"
    using \<open>rl_inv l\<close> \<open>rl_valid s e\<close> by (simp_all add: rl_remove_minus rl_minus_inv rl_minus_cover)
qed (use rl_add_tail in auto)

section \<open>The properties of the range list\<close>

text \<open>
  What an overlap type says of the set \<open>S\<close> of the range scanned for and the
  set \<open>R\<close> of the entry found.
\<close>

fun rl_says :: "rl_overlaptype \<Rightarrow> int set \<Rightarrow> int set \<Rightarrow> bool" where
  "rl_says RL_NOOVERLAP S R \<longleftrightarrow> S \<inter> R = {}"
| "rl_says RL_MATCHINGOVERLAP S R \<longleftrightarrow> S = R"
| "rl_says RL_OVERLAPCONTAINSRANGE S R \<longleftrightarrow> S \<subset> R"
| "rl_says RL_OVERLAPISCONTAINED S R \<longleftrightarrow> R \<subset> S"
| "rl_says RL_OVERLAPSTARTSBEFORE S R \<longleftrightarrow> S \<inter> R \<noteq> {} \<and> (\<exists>x \<in> R. \<forall>y \<in> S. x < y)"
| "rl_says RL_OVERLAPENDSAFTER S R \<longleftrightarrow>
     S \<inter> R \<noteq> {} \<and> (\<exists>x \<in> S. \<forall>y \<in> R. x < y) \<and> \<not> R \<subseteq> S"

lemma rl_seg_psubset:
  assumes "rl_valid s e" "rl_valid a b" "rl_seg s e \<subseteq> rl_seg a b" "a \<noteq> s \<or> b \<noteq> e"
  shows "rl_seg s e \<subset> rl_seg a b"
proof -
  have "\<exists>x. x \<in> rl_seg a b \<and> x \<notin> rl_seg s e"
  proof (cases "a < s")
    case True
    with assms(2) show ?thesis by (auto simp: rl_defs intro!: exI [of _ a])
  next
    case False
    have "s \<in> rl_seg s e" using assms(1) by (auto simp: rl_defs)
    with assms(3) False have a: "a = s" by (auto simp: rl_defs)
    with assms(4) have "b \<noteq> e" by simp
    show ?thesis
    proof (cases "e = RL_INFINITY")
      case True
      with \<open>b \<noteq> e\<close> assms a have "b + 1 \<in> rl_seg s e" "b + 1 \<notin> rl_seg a b"
        by (auto simp: rl_defs)
      with assms(3) show ?thesis by auto
    next
      case False
      with \<open>b \<noteq> e\<close> assms a have "e \<in> rl_seg s e" by (auto simp: rl_defs)
      with assms(3) have "e \<in> rl_seg a b" by auto
      with False \<open>b \<noteq> e\<close> assms(1) a show ?thesis
        by (auto simp: rl_defs intro!: exI [of _ "e + 1"])
    qed
  qed
  with assms(3) show ?thesis by auto
qed

lemma rl_classify_says:
  assumes "rl_valid s e" "rl_valid (rl_start r) (rl_end r)" "rl_classify s e r = t"
  shows "rl_says t (rl_seg s e) (rl_seg (rl_start r) (rl_end r))"
proof (cases t)
  case RL_NOOVERLAP
  then show ?thesis using rl_classify_disjoint [OF assms(1,2)] assms(3) by auto
next
  case RL_OVERLAPCONTAINSRANGE
  with assms have "rl_seg s e \<subseteq> rl_seg (rl_start r) (rl_end r)"
    and "rl_start r \<noteq> s \<or> rl_end r \<noteq> e"
    by (auto simp: rl_classify_def rl_defs split: if_splits)
  with assms RL_OVERLAPCONTAINSRANGE show ?thesis by (simp add: rl_seg_psubset)
next
  case RL_OVERLAPISCONTAINED
  with assms have "rl_seg (rl_start r) (rl_end r) \<subseteq> rl_seg s e"
    and "s \<noteq> rl_start r \<or> e \<noteq> rl_end r"
    by (auto simp: rl_classify_def rl_defs split: if_splits)
  with assms RL_OVERLAPISCONTAINED show ?thesis by (simp add: rl_seg_psubset)
next
  case RL_OVERLAPSTARTSBEFORE
  with assms have "s \<in> rl_seg s e" "s \<in> rl_seg (rl_start r) (rl_end r)"
    and "rl_start r \<in> rl_seg (rl_start r) (rl_end r)" "rl_start r < s"
    by (auto simp: rl_classify_def rl_before_def rl_beyond_def rl_defs split: if_splits)
  with RL_OVERLAPSTARTSBEFORE show ?thesis
    by (auto simp: rl_seg_def intro!: bexI [of _ "rl_start r"])
next
  case RL_OVERLAPENDSAFTER
  with assms have "rl_start r \<in> rl_seg s e" "rl_start r \<in> rl_seg (rl_start r) (rl_end r)"
    and "e + 1 \<in> rl_seg (rl_start r) (rl_end r)" "e + 1 \<notin> rl_seg s e"
    and "s \<in> rl_seg s e" "s < rl_start r"
    by (auto simp: rl_classify_def rl_before_def rl_beyond_def rl_defs split: if_splits)
  moreover from this have "\<exists>x \<in> rl_seg s e. \<forall>y \<in> rl_seg (rl_start r) (rl_end r). x < y"
    by (intro bexI [of _ s]) (auto simp: rl_seg_def)
  ultimately show ?thesis
    unfolding RL_OVERLAPENDSAFTER rl_says.simps by blast
qed (use assms in \<open>auto simp: rl_classify_def split: if_splits\<close>)

lemma rl_inv_nth_valid:
  "rl_inv l \<Longrightarrow> k < length l \<Longrightarrow> rl_valid (rl_start (l ! k)) (rl_end (l ! k))"
  by (induction l arbitrary: k) (auto simp: nth_Cons split: nat.splits)

text \<open>
  C1: removing a range from a well-formed list is set difference: the list
  stays ordered, disjoint and coalesced, and it covers exactly the bytes it
  covered before that lie outside the range.
\<close>

theorem rl_remove_is_difference:
  assumes "rl_valid s e" and "rl_inv l"
  shows "rl_inv (rl_remove s e l) \<and> rl_cover (rl_remove s e l) = rl_cover l - rl_seg s e"
  using assms by (simp add: rl.remove_inv rl.remove_cover)

theorem rl_remove_is_difference_witness:
  "rl_inv (rl_remove 5 24 [\<lparr>rl_start = 0, rl_end = 9\<rparr>, \<lparr>rl_start = 20, rl_end = RL_INFINITY\<rparr>])"
  using rl_remove_is_difference
    [of 5 24 "[\<lparr>rl_start = 0, rl_end = 9\<rparr>, \<lparr>rl_start = 20, rl_end = RL_INFINITY\<rparr>]"]
  by (simp add: rl_valid_def RL_INFINITY_def)

text \<open>
  C2: a scan of a well-formed list says that there is no overlap exactly when
  the list covers no byte of the range; otherwise it returns the first entry
  that meets the range, and the overlap type describes how the two lie.
\<close>

theorem rl_scan_finds_first_overlap:
  assumes "rl_valid s e" and "rl_inv l"
  shows "case rl_scan l s e of (t, p) \<Rightarrow>
           (t = RL_NOOVERLAP \<longleftrightarrow> rl_cover l \<inter> rl_seg s e = {}) \<and>
           (t \<noteq> RL_NOOVERLAP \<longrightarrow>
             (\<exists>k < length l. p = Some k \<and> rl_cover (take k l) \<inter> rl_seg s e = {} \<and>
                rl_says t (rl_seg s e) (rl_seg (rl_start (l ! k)) (rl_end (l ! k)))))"
proof (cases "rl_scan l s e")
  case (Pair t p)
  note scan = rl_scan_correct [OF assms Pair]
  have "rl_says (rl_classify s e (l ! k)) (rl_seg s e) (rl_seg (rl_start (l ! k)) (rl_end (l ! k)))"
    if "k < length l" for k
    using rl_classify_says [OF assms(1) rl_inv_nth_valid [OF assms(2) that]] by simp
  with scan Pair show ?thesis by auto
qed

theorem rl_scan_finds_first_overlap_witness:
  "rl_cover [\<lparr>rl_start = 0, rl_end = 9\<rparr>, \<lparr>rl_start = 20, rl_end = 29\<rparr>] \<inter> rl_seg 12 15 = {}"
  using rl_scan_finds_first_overlap
    [of 12 15 "[\<lparr>rl_start = 0, rl_end = 9\<rparr>, \<lparr>rl_start = 20, rl_end = 29\<rparr>]"]
  by (simp add: rl_valid_def RL_INFINITY_def rl_scan_def rl_scan_from.simps)

text \<open>
  C3: after a range has been removed, a scan for any range reports no overlap exactly when every
  recorded byte of the scanned range was in the removed one. In particular a scan inside the
  removed range reports none, and a scan for a range that does not meet it reports one exactly
  when it did before. (The kind of overlap may change, because the entry that is met may have
  lost its other end.)
\<close>

theorem rl_scan_after_remove:
  assumes "rl_valid s e" and "rl_inv l" and "rl_valid a b"
  shows "(fst (rl_scan (rl_remove s e l) a b) = RL_NOOVERLAP \<longleftrightarrow> rl_cover l \<inter> rl_seg a b \<subseteq> rl_seg s e) \<and>
         (rl_seg a b \<subseteq> rl_seg s e \<longrightarrow> fst (rl_scan (rl_remove s e l) a b) = RL_NOOVERLAP) \<and>
         (rl_seg a b \<inter> rl_seg s e = {} \<longrightarrow>
            (fst (rl_scan (rl_remove s e l) a b) = RL_NOOVERLAP \<longleftrightarrow>
             fst (rl_scan l a b) = RL_NOOVERLAP))"
  using rl.remove_hits_iff [OF assms(2,1,3)] rl.remove_not_hit [OF assms(2,1,3)]
    rl.remove_keeps_hit [OF assms(2,1,3)] by auto

theorem rl_scan_after_remove_witness:
  "fst (rl_scan (rl_remove 5 24 [\<lparr>rl_start = 0, rl_end = 29\<rparr>]) 6 7) = RL_NOOVERLAP"
  using rl_scan_after_remove [of 5 24 "[\<lparr>rl_start = 0, rl_end = 29\<rparr>]" 6 7]
  by (simp add: rl_valid_def RL_INFINITY_def rl_seg_def subset_eq)

text \<open>
  C4: adding a range at the tail of a well-formed list, where the last entry
  may touch or overlap it, is set union and keeps the list well formed.
\<close>

theorem rl_add_at_tail_is_union:
  assumes "rl_valid s e" and "rl_inv l" and "rl_at_tail s e l"
  shows "rl_inv (rl_add s e l) \<and> rl_cover (rl_add s e l) = rl_cover l \<union> rl_seg s e"
  using assms by (simp add: rl.add_inv rl.add_cover)

theorem rl_add_at_tail_is_union_witness:
  "rl_cover (rl_add 25 40 [\<lparr>rl_start = 0, rl_end = 9\<rparr>, \<lparr>rl_start = 20, rl_end = 29\<rparr>]) =
   rl_cover [\<lparr>rl_start = 0, rl_end = 9\<rparr>, \<lparr>rl_start = 20, rl_end = 29\<rparr>] \<union> rl_seg 25 40"
  using rl_add_at_tail_is_union
    [of 25 40 "[\<lparr>rl_start = 0, rl_end = 9\<rparr>, \<lparr>rl_start = 20, rl_end = 29\<rparr>]"]
  by (simp add: rl_valid_def RL_INFINITY_def rl_at_tail_def rl_before_def rl_beyond_def)

text \<open>
  C5: away from the tail, insertion is not union. A finite range that lies
  below the only entry is linked in after it, and the two collapse into an
  entry that ends before it starts: every recorded byte is lost.
\<close>

theorem rl_add_below_loses_ranges:
  assumes "0 \<le> s" "s \<le> e" "e < a" "a \<le> b"
  shows "rl_add s e [\<lparr>rl_start = a, rl_end = b\<rparr>] = [\<lparr>rl_start = a, rl_end = e\<rparr>] \<and>
         rl_cover (rl_add s e [\<lparr>rl_start = a, rl_end = b\<rparr>]) = {}"
proof -
  have "rl_add s e [\<lparr>rl_start = a, rl_end = b\<rparr>] = [\<lparr>rl_start = a, rl_end = e\<rparr>]"
    using assms
    by (simp add: rl_add_def rl_scan_def rl_scan_from.simps RL_INFINITY_def insert_after_def
        rl_collapse_neighbors_def rl_collapse_forwards.simps remove_nth_def)
  with assms show ?thesis by (auto simp: rl_defs)
qed

theorem rl_add_below_loses_ranges_witness:
  "rl_add 1 5 [\<lparr>rl_start = 10, rl_end = 20\<rparr>] = [\<lparr>rl_start = 10, rl_end = 5\<rparr>]"
  using rl_add_below_loses_ranges [of 1 5 10 20] by simp

end
