(* ===== verification/VolBitmap.thy ===== *)
theory VolBitmap
  imports Prelude
begin

text \<open>
  The volume bitmap and the routines of \<^verbatim>\<open>src/hfsplus/hfscommon/Misc/VolumeAllocation.c\<close>
  that mark a run of allocation blocks in it: \<^verbatim>\<open>ReadBitmapBlock\<close>,
  \<^verbatim>\<open>BlockMarkAllocated\<close> and \<^verbatim>\<open>BlockMarkFree\<close>.

  The bitmap is kept as the code sees it, as buffers of raw 32-bit words in
  big-endian order, found through the buffer cache (\<^verbatim>\<open>bread\<close>, a parameter that
  gives the error of reading a block) in the allocation file of an HFS Plus
  volume or on the device of an HFS one. The routines walk it word by word and
  from buffer to buffer with masks. The second half of the theory gives the
  abstract view, one bit per allocation block, and shows that the two marking
  routines change exactly the bits of the run, and panic exactly when some bit
  of it is not in the state they expect. Words are swapped as on a
  little-endian machine; the journal (\<^verbatim>\<open>DARWIN_JOURNAL\<close>) is not compiled in.
\<close>

section \<open>The volume control block\<close>

definition bswap32 :: "u32 \<Rightarrow> u32" where
  "bswap32 x =
     push_bit 24 (take_bit 8 x) OR
     push_bit 16 (take_bit 8 (drop_bit 8 x)) OR
     push_bit 8 (take_bit 8 (drop_bit 16 x)) OR
     take_bit 8 (drop_bit 24 x)"

abbreviation SWAP_BE32 :: "u32 \<Rightarrow> u32" where
  "SWAP_BE32 \<equiv> bswap32"

definition kHighBitInWordMask :: u32 where
  "kHighBitInWordMask = 0x80000000"

definition kAllBitsSetInWord :: u32 where
  "kAllBitsSetInWord = 0xFFFFFFFF"

abbreviation (input) kBytesPerWord :: nat where "kBytesPerWord \<equiv> 4"
abbreviation (input) kBitsPerByte :: nat where "kBitsPerByte \<equiv> 8"
abbreviation (input) kBitsPerWord :: nat where "kBitsPerWord \<equiv> 32"

definition kHFSPlusSigWord :: nat where
  "kHFSPlusSigWord = 0x482B"

definition kMaxFreeExtents :: nat where
  "kMaxFreeExtents = 10"

record HFSPlusExtentDescriptor =
  startBlock :: nat
  blockCount :: nat

datatype bitmap_vnode = AllocationsFile | DeviceVnode

type_synonym block_ref = "bitmap_vnode \<times> nat"

text \<open>
  The part of \<^verbatim>\<open>struct vcb_t\<close> that the allocator and the extent mapping use. The last field stands for
  the buffers of the bitmap: the words of block \<open>k\<close> of a vnode.
\<close>

record ExtendedVCB =
  vcbSigWord :: nat
  vcbFlags :: u16
  blockSize :: nat
  totalBlocks :: nat
  freeBlocks :: nat
  nextAllocation :: nat
  vcbVBMSt :: nat
  vcbVBMIOSize :: nat
  vcbFreeExtCnt :: nat
  vcbFreeExt :: "HFSPlusExtentDescriptor list"
  reserveBlocks :: nat
  loanedBlocks :: nat
  vcbAlBlSt :: int
  hfsPlusIOPosOffset :: nat
  hfs_phys_block_size :: nat
  vcb_buffers :: "bitmap_vnode \<Rightarrow> nat \<Rightarrow> u32 list"

definition bitsPerBlock :: "ExtendedVCB \<Rightarrow> nat" where
  "bitsPerBlock vcb = vcbVBMIOSize vcb * kBitsPerByte"

definition wordsPerBlock :: "ExtendedVCB \<Rightarrow> nat" where
  "wordsPerBlock vcb = vcbVBMIOSize vcb div kBytesPerWord"

section \<open>Access to the bitmap\<close>

definition bitmap_vp :: "ExtendedVCB \<Rightarrow> bitmap_vnode" where
  "bitmap_vp vcb =
     (if vcbSigWord vcb = kHFSPlusSigWord then AllocationsFile else DeviceVnode)"

definition bitmap_block_ref :: "ExtendedVCB \<Rightarrow> nat \<Rightarrow> block_ref" where
  "bitmap_block_ref vcb block =
     (bitmap_vp vcb,
      if vcbSigWord vcb = kHFSPlusSigWord then block else block + vcbVBMSt vcb)"

definition ReadBitmapBlock ::
  "(block_ref \<Rightarrow> OSErr) \<Rightarrow> ExtendedVCB \<Rightarrow> nat \<Rightarrow> OSErr + block_ref" where
  "ReadBitmapBlock bread vcb block_bit =
     (let block = block_bit div (vcbVBMIOSize vcb * kBitsPerByte);
          ref = bitmap_block_ref vcb block;
          err = bread ref
      in if err \<noteq> noErr then Inl err else Inr ref)"

text \<open>
  A position in the bitmap: the buffer held (\<^verbatim>\<open>blockRef\<close>), the index of the
  current word in it (\<^verbatim>\<open>currentWord - buffer\<close>) and \<^verbatim>\<open>wordsLeft\<close>. Stores go to the
  buffer itself, which the cache keeps whether it is released with \<^verbatim>\<open>bdwrite\<close> or
  \<^verbatim>\<open>brelse\<close>, so \<^verbatim>\<open>ReleaseBitmapBlock\<close> changes nothing here; it always returns 0.
\<close>

record bitmap_pos =
  blockRef :: block_ref
  wordIndex :: nat
  wordsLeft :: nat

definition bitmap_get :: "ExtendedVCB \<Rightarrow> bitmap_pos \<Rightarrow> u32" where
  "bitmap_get vcb p = vcb_buffers vcb (fst (blockRef p)) (snd (blockRef p)) ! wordIndex p"

definition bitmap_store :: "ExtendedVCB \<Rightarrow> block_ref \<Rightarrow> nat \<Rightarrow> u32 \<Rightarrow> ExtendedVCB" where
  "bitmap_store vcb ref i w =
     (let vp = fst ref; block = snd ref; bufs = vcb_buffers vcb vp
      in vcb\<lparr>vcb_buffers := (vcb_buffers vcb)(vp := bufs(block := (bufs block)[i := w]))\<rparr>)"

definition bitmap_put :: "ExtendedVCB \<Rightarrow> bitmap_pos \<Rightarrow> u32 \<Rightarrow> ExtendedVCB" where
  "bitmap_put vcb p w = bitmap_store vcb (blockRef p) (wordIndex p) w"

definition bitmap_next :: "bitmap_pos \<Rightarrow> bitmap_pos" where
  "bitmap_next p = p\<lparr>wordIndex := wordIndex p + 1, wordsLeft := wordsLeft p - 1\<rparr>"

definition bitmap_seek :: "ExtendedVCB \<Rightarrow> nat \<Rightarrow> block_ref \<Rightarrow> bitmap_pos" where
  "bitmap_seek vcb startingBlock ref =
     (let wordIndexInBlock = (startingBlock AND (bitsPerBlock vcb - 1)) div kBitsPerWord
      in \<lparr>blockRef = ref, wordIndex = wordIndexInBlock,
          wordsLeft = wordsPerBlock vcb - wordIndexInBlock\<rparr>)"

text \<open>
  \<^verbatim>\<open>if (wordsLeft == 0)\<close> in the marking routines: step to a block number in the
  next bitmap block, release the buffer, read the next one.
\<close>

definition bitmap_refill ::
  "(block_ref \<Rightarrow> OSErr) \<Rightarrow> ExtendedVCB \<Rightarrow> nat \<Rightarrow> bitmap_pos \<Rightarrow> OSErr + nat \<times> bitmap_pos" where
  "bitmap_refill bread vcb startingBlock p =
     (if wordsLeft p = 0 then
        (let startingBlock' = u32_add startingBlock (bitsPerBlock vcb)
         in case ReadBitmapBlock bread vcb startingBlock' of
              Inl err \<Rightarrow> Inl err
            | Inr ref \<Rightarrow>
                Inr (startingBlock', \<lparr>blockRef = ref, wordIndex = 0, wordsLeft = wordsPerBlock vcb\<rparr>))
      else Inr (startingBlock, p))"

section \<open>Marking a run of blocks\<close>

text \<open>
  \<^verbatim>\<open>BlockMarkAllocated\<close> and \<^verbatim>\<open>BlockMarkFree\<close> are the same walk over the bitmap. They
  differ in what they store, and in what makes them panic: the checks under
  \<^verbatim>\<open>DEBUG_BUILD\<close>, which \<^verbatim>\<open>hfs_macos_defs.h\<close> switches on. A panic is \<^const>\<open>None\<close>.
\<close>

datatype mark = MarkAllocated | MarkFree

fun mark_bits_panic :: "mark \<Rightarrow> u32 \<Rightarrow> u32 \<Rightarrow> bool" where
  "mark_bits_panic MarkAllocated w bitMask \<longleftrightarrow> w AND SWAP_BE32 bitMask \<noteq> 0"
| "mark_bits_panic MarkFree w bitMask \<longleftrightarrow> w AND SWAP_BE32 bitMask \<noteq> SWAP_BE32 bitMask"

fun mark_bits :: "mark \<Rightarrow> u32 \<Rightarrow> u32 \<Rightarrow> u32" where
  "mark_bits MarkAllocated w bitMask = w OR SWAP_BE32 bitMask"
| "mark_bits MarkFree w bitMask = w AND SWAP_BE32 (NOT bitMask)"

fun mark_word_panic :: "mark \<Rightarrow> u32 \<Rightarrow> bool" where
  "mark_word_panic MarkAllocated w \<longleftrightarrow> w \<noteq> 0"
| "mark_word_panic MarkFree w \<longleftrightarrow> w \<noteq> SWAP_BE32 kAllBitsSetInWord"

fun mark_word :: "mark \<Rightarrow> u32" where
  "mark_word MarkAllocated = SWAP_BE32 kAllBitsSetInWord"
| "mark_word MarkFree = 0"

definition BlockMark_last ::
  "mark \<Rightarrow> (block_ref \<Rightarrow> OSErr) \<Rightarrow> ExtendedVCB \<Rightarrow> nat \<Rightarrow> bitmap_pos \<Rightarrow> nat \<Rightarrow>
   (OSErr \<times> ExtendedVCB) option" where
  "BlockMark_last m bread vcb startingBlock p numBlocks =
     (if numBlocks \<noteq> 0 then
        (let bitMask = NOT (drop_bit numBlocks kAllBitsSetInWord)
         in case bitmap_refill bread vcb startingBlock p of
              Inl err \<Rightarrow> Some (err, vcb)
            | Inr (_, p) \<Rightarrow>
                if mark_bits_panic m (bitmap_get vcb p) bitMask then None
                else Some (noErr, bitmap_put vcb p (mark_bits m (bitmap_get vcb p) bitMask)))
      else Some (noErr, vcb))"

fun BlockMark_words ::
  "mark \<Rightarrow> (block_ref \<Rightarrow> OSErr) \<Rightarrow> ExtendedVCB \<Rightarrow> nat \<Rightarrow> bitmap_pos \<Rightarrow> nat \<Rightarrow>
   (OSErr \<times> ExtendedVCB) option" where
  "BlockMark_words m bread vcb startingBlock p numBlocks =
     (if numBlocks \<ge> kBitsPerWord then
        (case bitmap_refill bread vcb startingBlock p of
           Inl err \<Rightarrow> Some (err, vcb)
         | Inr (startingBlock, p) \<Rightarrow>
             if mark_word_panic m (bitmap_get vcb p) then None
             else BlockMark_words m bread (bitmap_put vcb p (mark_word m)) startingBlock
                    (bitmap_next p) (numBlocks - kBitsPerWord))
      else BlockMark_last m bread vcb startingBlock p numBlocks)"

declare BlockMark_words.simps [simp del]

definition BlockMark ::
  "mark \<Rightarrow> (block_ref \<Rightarrow> OSErr) \<Rightarrow> ExtendedVCB \<Rightarrow> nat \<Rightarrow> nat \<Rightarrow> (OSErr \<times> ExtendedVCB) option" where
  "BlockMark m bread vcb startingBlock numBlocks =
     (case ReadBitmapBlock bread vcb startingBlock of
        Inl err \<Rightarrow> Some (err, vcb)
      | Inr ref \<Rightarrow>
          (let p = bitmap_seek vcb startingBlock ref;
               firstBit = startingBlock mod kBitsPerWord
           in if firstBit \<noteq> 0 then
                (let bitMask = drop_bit firstBit kAllBitsSetInWord;
                     numBits = kBitsPerWord - firstBit;
                     (numBits, bitMask) =
                       (if numBits > numBlocks
                        then (numBlocks,
                              bitMask AND NOT (drop_bit (firstBit + numBlocks) kAllBitsSetInWord))
                        else (numBits, bitMask))
                 in if mark_bits_panic m (bitmap_get vcb p) bitMask then None
                    else BlockMark_words m bread
                           (bitmap_put vcb p (mark_bits m (bitmap_get vcb p) bitMask))
                           startingBlock (bitmap_next p) (numBlocks - numBits))
              else BlockMark_words m bread vcb startingBlock p numBlocks))"

definition BlockMarkAllocated ::
  "(block_ref \<Rightarrow> OSErr) \<Rightarrow> ExtendedVCB \<Rightarrow> nat \<Rightarrow> nat \<Rightarrow> (OSErr \<times> ExtendedVCB) option" where
  "BlockMarkAllocated = BlockMark MarkAllocated"

definition BlockMarkFree ::
  "(block_ref \<Rightarrow> OSErr) \<Rightarrow> ExtendedVCB \<Rightarrow> nat \<Rightarrow> nat \<Rightarrow> (OSErr \<times> ExtendedVCB) option" where
  "BlockMarkFree = BlockMark MarkFree"

section \<open>Byte order\<close>

lemma bit_bswap32:
  "bit (bswap32 x) i \<longleftrightarrow> i < 32 \<and> bit x (24 - 8 * (i div 8) + i mod 8)"
proof -
  consider "i < 8" | "8 \<le> i" "i < 16" | "16 \<le> i" "i < 24" | "24 \<le> i" "i < 32" | "32 \<le> i"
    by linarith
  then show ?thesis
  proof cases
    case 1
    then show ?thesis by (simp add: bswap32_def bit_or_iff bit_push_bit_iff bit_take_bit_iff bit_drop_bit_eq)
  next
    case 2
    then obtain j where j: "i = 8 + j" "j < 8" by (auto simp: le_iff_add)
    moreover from this have "i div 8 = 1" by linarith
    moreover from this j have "i mod 8 = j" using mult_div_mod_eq [of 8 i] by linarith
    ultimately show ?thesis
      by (simp add: bswap32_def bit_or_iff bit_push_bit_iff bit_take_bit_iff bit_drop_bit_eq)
  next
    case 3
    then obtain j where j: "i = 16 + j" "j < 8" by (auto simp: le_iff_add)
    moreover from this have "i div 8 = 2" by linarith
    moreover from this j have "i mod 8 = j" using mult_div_mod_eq [of 8 i] by linarith
    ultimately show ?thesis
      by (simp add: bswap32_def bit_or_iff bit_push_bit_iff bit_take_bit_iff bit_drop_bit_eq)
  next
    case 4
    then obtain j where j: "i = 24 + j" "j < 8" by (auto simp: le_iff_add)
    moreover from this have "i div 8 = 3" by linarith
    moreover from this j have "i mod 8 = j" using mult_div_mod_eq [of 8 i] by linarith
    ultimately show ?thesis
      by (simp add: bswap32_def bit_or_iff bit_push_bit_iff bit_take_bit_iff bit_drop_bit_eq)
  next
    case 5
    then show ?thesis by (auto dest: bit_imp_le_length)
  qed
qed

lemma bit_bswap32_swap [simp]: "bswap32 (bswap32 x) = x"
proof (rule bit_word_eqI)
  fix i
  assume "i < LENGTH(32)"
  then have i: "i < 32" by simp
  then have j: "24 - 8 * (i div 8) + i mod 8 < 32" by linarith
  have q: "i div 8 \<le> 3" using i by linarith
  then have "24 - 8 * (i div 8) + i mod 8 = 8 * (3 - i div 8) + i mod 8" by simp
  then have "(24 - 8 * (i div 8) + i mod 8) div 8 = 3 - i div 8"
    "(24 - 8 * (i div 8) + i mod 8) mod 8 = i mod 8"
    by simp_all
  moreover have "24 - 8 * (3 - i div 8) + i mod 8 = i" using q mult_div_mod_eq [of 8 i] by linarith
  ultimately have "24 - 8 * ((24 - 8 * (i div 8) + i mod 8) div 8) + (24 - 8 * (i div 8) + i mod 8) mod 8 = i"
    by (simp only:)
  with i j show "bit (bswap32 (bswap32 x)) i \<longleftrightarrow> bit x i"
    by (simp only: bit_bswap32 simp_thms)
qed

lemma bswap32_and [simp]: "bswap32 (x AND y) = bswap32 x AND bswap32 y"
  by (rule bit_word_eqI) (simp add: bit_bswap32 bit_simps)

lemma bswap32_or [simp]: "bswap32 (x OR y) = bswap32 x OR bswap32 y"
  by (rule bit_word_eqI) (simp add: bit_bswap32 bit_simps)

lemma bswap32_not [simp]: "bswap32 (NOT x) = NOT (bswap32 x)"
  by (rule bit_word_eqI) (auto simp: bit_bswap32 bit_simps)

lemma bswap32_0 [simp]: "bswap32 0 = 0"
  by (rule bit_word_eqI) (simp add: bit_bswap32)

lemma bswap32_inj: "bswap32 x = bswap32 y \<longleftrightarrow> x = y"
  by (metis bit_bswap32_swap)


section \<open>One bit per allocation block\<close>

definition bitmap_word :: "ExtendedVCB \<Rightarrow> nat \<Rightarrow> u32" where
  "bitmap_word vcb w =
     (let ref = bitmap_block_ref vcb (w div wordsPerBlock vcb)
      in vcb_buffers vcb (fst ref) (snd ref) ! (w mod wordsPerBlock vcb))"

definition block_used :: "ExtendedVCB \<Rightarrow> nat \<Rightarrow> bool" where
  "block_used vcb b = bit (SWAP_BE32 (bitmap_word vcb (b div 32))) (31 - b mod 32)"

text \<open>
  The I/O size of the bitmap is a power of two (of at least a word), and every
  bitmap block that describes a block of the volume is a full buffer.
\<close>

definition bitmap_wf :: "ExtendedVCB \<Rightarrow> bool" where
  "bitmap_wf vcb \<longleftrightarrow>
     vcbVBMIOSize vcb \<in> (\<lambda>k. 2 ^ k) ` {2..28} \<and>
     totalBlocks vcb < 2 ^ 32 \<and>
     (\<forall>k. k * bitsPerBlock vcb < totalBlocks vcb \<longrightarrow>
        (let ref = bitmap_block_ref vcb k
         in length (vcb_buffers vcb (fst ref) (snd ref)) = wordsPerBlock vcb))"

definition bitmap_readable :: "(block_ref \<Rightarrow> OSErr) \<Rightarrow> ExtendedVCB \<Rightarrow> bool" where
  "bitmap_readable bread vcb \<longleftrightarrow>
     (\<forall>k. k * bitsPerBlock vcb < totalBlocks vcb \<longrightarrow> bread (bitmap_block_ref vcb k) = noErr)"

definition bitmap_set :: "ExtendedVCB \<Rightarrow> nat \<Rightarrow> u32 \<Rightarrow> ExtendedVCB" where
  "bitmap_set vcb w v =
     bitmap_store vcb (bitmap_block_ref vcb (w div wordsPerBlock vcb)) (w mod wordsPerBlock vcb) v"

text \<open>Position \<open>p\<close>, reached with block number \<open>s\<close> in the same bitmap block, is at word \<open>w\<close>.\<close>

definition bitmap_at :: "ExtendedVCB \<Rightarrow> nat \<Rightarrow> nat \<Rightarrow> bitmap_pos \<Rightarrow> bool" where
  "bitmap_at vcb w s p \<longleftrightarrow>
     s < 2 ^ 32 \<and>
     blockRef p = bitmap_block_ref vcb (s div bitsPerBlock vcb) \<and>
     wordIndex p + wordsLeft p = wordsPerBlock vcb \<and>
     s div bitsPerBlock vcb * wordsPerBlock vcb + wordIndex p = w"

named_theorems bitmap_frame

lemma bitmap_store_frame [bitmap_frame]:
  "vcbSigWord (bitmap_store vcb r i v) = vcbSigWord vcb"
  "totalBlocks (bitmap_store vcb r i v) = totalBlocks vcb"
  "vcbVBMSt (bitmap_store vcb r i v) = vcbVBMSt vcb"
  "vcbVBMIOSize (bitmap_store vcb r i v) = vcbVBMIOSize vcb"
  "bitsPerBlock (bitmap_store vcb r i v) = bitsPerBlock vcb"
  "wordsPerBlock (bitmap_store vcb r i v) = wordsPerBlock vcb"
  "bitmap_vp (bitmap_store vcb r i v) = bitmap_vp vcb"
  "bitmap_block_ref (bitmap_store vcb r i v) = bitmap_block_ref vcb"
  by (simp_all add: bitmap_vp_def bitmap_store_def Let_def bitsPerBlock_def wordsPerBlock_def
      bitmap_block_ref_def fun_eq_iff)

lemma bitmap_block_ref_inject [simp]:
  "snd (bitmap_block_ref vcb i) = snd (bitmap_block_ref vcb j) \<longleftrightarrow> i = j"
  "fst (bitmap_block_ref vcb i) = bitmap_vp vcb"
  by (simp_all add: bitmap_block_ref_def)

lemma bitmap_geometry:
  assumes "bitmap_wf vcb"
  shows "wordsPerBlock vcb > 0" and "bitsPerBlock vcb = 32 * wordsPerBlock vcb"
    and "bitsPerBlock vcb dvd 2 ^ 32"
proof -
  obtain k where k: "vcbVBMIOSize vcb = 2 ^ k" "2 \<le> k" "k \<le> 28"
    using assms by (auto simp: bitmap_wf_def)
  then have words: "vcbVBMIOSize vcb = 4 * 2 ^ (k - 2)"
    by (metis power2_eq_square power_add le_add_diff_inverse numeral_Bit0_eq_double num_double
        numeral_times_numeral mult_2 numeral_Bit0)
  then show "wordsPerBlock vcb > 0" and "bitsPerBlock vcb = 32 * wordsPerBlock vcb"
    by (simp_all add: wordsPerBlock_def bitsPerBlock_def)
  have "bitsPerBlock vcb = 2 ^ (k + 3)"
    using k by (simp add: bitsPerBlock_def power_add)
  with k show "bitsPerBlock vcb dvd 2 ^ 32"
    by (simp add: le_imp_power_dvd del: power_numeral)
qed

lemma bitmap_set_word:
  assumes "bitmap_wf vcb" and "w * 32 < totalBlocks vcb"
  shows "bitmap_word (bitmap_set vcb w v) w' = (if w' = w then v else bitmap_word vcb w')"
    and "bitmap_wf (bitmap_set vcb w v)"
proof -
  let ?n = "wordsPerBlock vcb" and ?ref = "bitmap_block_ref vcb (w div wordsPerBlock vcb)"
  note geo = bitmap_geometry [OF assms(1)]
  have "w div ?n * bitsPerBlock vcb \<le> w * 32"
    using geo(2) by (simp add: mult.assoc [symmetric] mult.commute) 
  with assms have len: "length (vcb_buffers vcb (fst ?ref) (snd ?ref)) = ?n"
    by (auto simp: bitmap_wf_def Let_def)
  have "w' div ?n = w div ?n \<and> w' mod ?n = w mod ?n \<longleftrightarrow> w' = w"
    by (metis div_mult_mod_eq)
  then show "bitmap_word (bitmap_set vcb w v) w' = (if w' = w then v else bitmap_word vcb w')"
    using geo(1) len
    by (auto simp: bitmap_word_def bitmap_set_def bitmap_frame Let_def)
       (auto simp: bitmap_store_def Let_def)
  show "bitmap_wf (bitmap_set vcb w v)"
    using assms(1) by (auto simp: bitmap_wf_def bitmap_set_def bitmap_frame Let_def)
       (auto simp: bitmap_store_def Let_def)
qed

lemma block_used_set:
  assumes "bitmap_wf vcb" and "w * 32 < totalBlocks vcb"
  shows "block_used (bitmap_set vcb w v) b \<longleftrightarrow>
           (if b div 32 = w then bit (SWAP_BE32 v) (31 - b mod 32) else block_used vcb b)"
  by (simp add: block_used_def bitmap_set_word [OF assms])

text \<open>The words as the positions of the routines see them.\<close>

lemma bitmap_at_access:
  assumes "bitmap_wf vcb" and "bitmap_at vcb w s p" and "wordsLeft p > 0"
  shows "bitmap_get vcb p = bitmap_word vcb w"
    and "bitmap_put vcb p v = bitmap_set vcb w v"
    and "bitmap_at (bitmap_set vcb w v) (w + 1) s (bitmap_next p)"
proof -
  have "w div wordsPerBlock vcb = s div bitsPerBlock vcb" "w mod wordsPerBlock vcb = wordIndex p"
    using assms bitmap_geometry(1) [OF assms(1)] by (auto simp: bitmap_at_def)
  with assms(2,3) show "bitmap_get vcb p = bitmap_word vcb w"
    and "bitmap_put vcb p v = bitmap_set vcb w v"
    and "bitmap_at (bitmap_set vcb w v) (w + 1) s (bitmap_next p)"
    by (auto simp: bitmap_get_def bitmap_word_def bitmap_put_def bitmap_set_def bitmap_at_def
        bitmap_next_def bitmap_frame)
qed

lemma ReadBitmapBlock_ok:
  assumes "bitmap_readable bread vcb" and "s < totalBlocks vcb"
  shows "ReadBitmapBlock bread vcb s = Inr (bitmap_block_ref vcb (s div bitsPerBlock vcb))"
proof -
  have "s div bitsPerBlock vcb * bitsPerBlock vcb < totalBlocks vcb"
    using assms(2) by (rule le_less_trans [rotated]) simp
  with assms(1) have "bread (bitmap_block_ref vcb (s div bitsPerBlock vcb)) = noErr"
    unfolding bitmap_readable_def by blast
  then show ?thesis
    by (simp add: ReadBitmapBlock_def bitsPerBlock_def Let_def)
qed

lemma bitmap_seek_at:
  assumes "bitmap_wf vcb" and "s < 2 ^ 32" and "ref = bitmap_block_ref vcb (s div bitsPerBlock vcb)"
  shows "bitmap_at vcb (s div 32) s (bitmap_seek vcb s ref)"
    and "wordsLeft (bitmap_seek vcb s ref) > 0"
proof -
  let ?n = "wordsPerBlock vcb" and ?b = "bitsPerBlock vcb"
  note geo = bitmap_geometry [OF assms(1)]
  obtain k where "vcbVBMIOSize vcb = 2 ^ k"
    using assms by (auto simp: bitmap_wf_def)
  then have pow: "?b = 2 ^ (k + 3)"
    by (simp add: bitsPerBlock_def power_add)
  have "s AND (?b - 1) = s mod ?b"
    unfolding pow by (simp only: mask_eq_exp_minus_1 [symmetric] take_bit_eq_mask [symmetric]
        take_bit_eq_mod)
  moreover have "s mod ?b div 32 < ?n"
    using geo by (simp add: div_less_iff_less_mult mult.commute)
  moreover have "s div ?b * ?n + s mod ?b div 32 = s div 32"
    using geo(2) by (simp add: div_mult2_eq mod_mult2_eq)
  ultimately show "bitmap_at vcb (s div 32) s (bitmap_seek vcb s ref)"
    and "wordsLeft (bitmap_seek vcb s ref) > 0"
    using assms by (simp_all add: bitmap_at_def bitmap_seek_def Let_def)
qed

lemma bitmap_refill_at:
  assumes "bitmap_wf vcb" and "bitmap_readable bread vcb" and "bitmap_at vcb w s p"
    and "w * 32 < totalBlocks vcb"
  obtains s' p' where "bitmap_refill bread vcb s p = Inr (s', p')"
    and "bitmap_at vcb w s' p'" and "wordsLeft p' > 0"
proof (cases "wordsLeft p = 0")
  case False
  with assms(3) that show ?thesis by (simp add: bitmap_refill_def)
next
  case True
  let ?n = "wordsPerBlock vcb" and ?b = "bitsPerBlock vcb"
  note geo = bitmap_geometry [OF assms(1)]
  have w: "w = (s div ?b + 1) * ?n"
    using assms(3) True by (simp add: bitmap_at_def)
  then have start: "(s div ?b + 1) * ?b < totalBlocks vcb"
    using assms(4) geo(2) by (simp add: mult.commute mult.left_commute)
  have total: "totalBlocks vcb < 2 ^ 32"
    using assms(1) by (simp add: bitmap_wf_def)
  obtain q where q: "2 ^ 32 = ?b * q"
    using geo(3) by (elim dvdE)
  have "(s div ?b + 1) < q"
    using start total q by (metis less_trans mult.commute nat_mult_less_cancel_disj)
  moreover have "s < (s div ?b + 1) * ?b"
    using geo by (simp add: dividend_less_div_times)
  ultimately have "s + ?b < 2 ^ 32"
    using q mult_le_mono2 [of "s div ?b + 2" q ?b] by (simp add: algebra_simps)
  moreover have "?b \<noteq> 0" using geo by simp
  then have "(s + ?b) div ?b = s div ?b + 1" by (rule div_add_self2)
  moreover have "bread (bitmap_block_ref vcb (s div ?b + 1)) = noErr"
    using assms(2) start unfolding bitmap_readable_def by blast
  ultimately show ?thesis
    using that True geo w assms(3)
    by (simp add: bitmap_refill_def ReadBitmapBlock_def bitsPerBlock_def [symmetric] Let_def
        bitmap_at_def)
qed

section \<open>What the marking routines do\<close>

text \<open>
  \<open>bitmap_updated vcb vcb' s n v\<close>: only the bitmap differs, and in it the \<open>n\<close>
  blocks from \<open>s\<close> have become \<open>v\<close>. \<open>marked m vcb s n r\<close>: the result \<open>r\<close> is
  that update when all of the run was in the state \<open>m\<close> expects, and a panic
  otherwise.
\<close>

definition bitmap_updated :: "ExtendedVCB \<Rightarrow> ExtendedVCB \<Rightarrow> nat \<Rightarrow> nat \<Rightarrow> bool \<Rightarrow> bool" where
  "bitmap_updated vcb vcb' s n v \<longleftrightarrow>
     (\<exists>bufs. vcb' = vcb\<lparr>vcb_buffers := bufs\<rparr>) \<and> bitmap_wf vcb' \<and>
     (\<forall>b. block_used vcb' b = (if s \<le> b \<and> b < s + n then v else block_used vcb b))"

definition mark_expected :: "mark \<Rightarrow> ExtendedVCB \<Rightarrow> nat \<Rightarrow> nat \<Rightarrow> bool" where
  "mark_expected m vcb s n \<longleftrightarrow> (\<forall>b. s \<le> b \<and> b < s + n \<longrightarrow> block_used vcb b = (m = MarkFree))"

definition marked ::
  "mark \<Rightarrow> ExtendedVCB \<Rightarrow> nat \<Rightarrow> nat \<Rightarrow> (OSErr \<times> ExtendedVCB) option \<Rightarrow> bool" where
  "marked m vcb s n r \<longleftrightarrow>
     (if mark_expected m vcb s n
      then \<exists>vcb'. r = Some (noErr, vcb') \<and> bitmap_updated vcb vcb' s n (m = MarkAllocated)
      else r = None)"

lemma bitmap_updated_frame [bitmap_frame]:
  assumes "bitmap_updated vcb vcb' s n v"
  shows "totalBlocks vcb' = totalBlocks vcb" "bitsPerBlock vcb' = bitsPerBlock vcb"
    "wordsPerBlock vcb' = wordsPerBlock vcb" "bitmap_block_ref vcb' = bitmap_block_ref vcb"
proof -
  obtain bufs where "vcb' = vcb\<lparr>vcb_buffers := bufs\<rparr>"
    using assms by (auto simp: bitmap_updated_def)
  then show "totalBlocks vcb' = totalBlocks vcb" "bitsPerBlock vcb' = bitsPerBlock vcb"
    "wordsPerBlock vcb' = wordsPerBlock vcb" "bitmap_block_ref vcb' = bitmap_block_ref vcb"
    by (simp_all add: bitsPerBlock_def wordsPerBlock_def bitmap_block_ref_def bitmap_vp_def
        fun_eq_iff)
qed

lemma bitmap_readable_updated:
  "bitmap_updated vcb vcb' s n v \<Longrightarrow> bitmap_readable bread vcb \<Longrightarrow> bitmap_readable bread vcb'"
  by (simp add: bitmap_readable_def bitmap_frame)

lemma bitmap_updated_trans:
  assumes "bitmap_updated vcb vcb1 s k v" "bitmap_updated vcb1 vcb2 (s + k) n v"
  shows "bitmap_updated vcb vcb2 s (k + n) v"
proof -
  obtain bufs1 bufs2 where "vcb1 = vcb\<lparr>vcb_buffers := bufs1\<rparr>" "vcb2 = vcb1\<lparr>vcb_buffers := bufs2\<rparr>"
    using assms unfolding bitmap_updated_def by blast
  then have "vcb2 = vcb\<lparr>vcb_buffers := bufs2\<rparr>" by simp
  with assms show ?thesis
    unfolding bitmap_updated_def by auto
qed

lemma mark_expected_split:
  assumes "k \<le> n"
  shows "mark_expected m vcb s n \<longleftrightarrow> mark_expected m vcb s k \<and> mark_expected m vcb (s + k) (n - k)"
proof -
  have "s \<le> b \<and> b < s + n \<longleftrightarrow> s \<le> b \<and> b < s + k \<or> s + k \<le> b \<and> b < s + k + (n - k)" for b
    using assms by linarith
  then show ?thesis unfolding mark_expected_def by blast
qed

lemma mark_expected_updated:
  assumes "bitmap_updated vcb vcb1 s k v"
  shows "mark_expected m vcb1 (s + k) n \<longleftrightarrow> mark_expected m vcb (s + k) n"
  using assms by (simp add: mark_expected_def bitmap_updated_def)

lemma marked_step:
  assumes "mark_expected m vcb s k" "bitmap_updated vcb vcb1 s k (m = MarkAllocated)"
    and "k \<le> n" "marked m vcb1 (s + k) (n - k) r"
  shows "marked m vcb s n r"
proof -
  have "mark_expected m vcb s n \<longleftrightarrow> mark_expected m vcb1 (s + k) (n - k)"
    using assms(1) mark_expected_split [OF assms(3)] mark_expected_updated [OF assms(2)] by blast
  moreover have "bitmap_updated vcb vcb' s n (m = MarkAllocated)"
    if "bitmap_updated vcb1 vcb' (s + k) (n - k) (m = MarkAllocated)" for vcb'
    using bitmap_updated_trans [OF assms(2) that] assms(3) by simp
  ultimately show ?thesis
    using assms(4) by (auto simp: marked_def)
qed

lemma marked_panic:
  "\<not> mark_expected m vcb s k \<Longrightarrow> k \<le> n \<Longrightarrow> marked m vcb s n None"
  by (simp add: marked_def mark_expected_split)

lemma marked_0: "bitmap_wf vcb \<Longrightarrow> marked m vcb s 0 (Some (noErr, vcb))"
  by (auto simp: marked_def mark_expected_def bitmap_updated_def intro!: exI [of _ "vcb_buffers vcb"])

lemma mark_bits_panic_iff:
  "mark_bits_panic m w msk \<longleftrightarrow> (\<exists>i < 32. bit msk i \<and> bit (SWAP_BE32 w) i \<noteq> (m = MarkFree))"
proof -
  have "w AND SWAP_BE32 msk = v \<longleftrightarrow> SWAP_BE32 w AND msk = SWAP_BE32 v" for v
    by (metis bit_bswap32_swap bswap32_and)
  note swap = this
  show ?thesis
  proof (cases m)
    case MarkAllocated
    have "mark_bits_panic m w msk \<longleftrightarrow> SWAP_BE32 w AND msk \<noteq> 0"
      using swap [of 0] MarkAllocated by simp
    with MarkAllocated show ?thesis
      by (auto simp: bit_eq_iff bit_and_iff)
  next
    case MarkFree
    have "mark_bits_panic m w msk \<longleftrightarrow> SWAP_BE32 w AND msk \<noteq> msk"
      using swap [of "SWAP_BE32 msk"] MarkFree by simp
    with MarkFree show ?thesis
      by (auto simp: bit_eq_iff bit_and_iff)
  qed
qed

lemma bit_mark_bits:
  "i < 32 \<Longrightarrow> bit (SWAP_BE32 (mark_bits m w msk)) i \<longleftrightarrow>
     (if bit msk i then m = MarkAllocated else bit (SWAP_BE32 w) i)"
  by (cases m) (auto simp: bit_or_iff bit_and_iff bit_not_iff)

lemma kAllBitsSetInWord_eq: "kAllBitsSetInWord = - 1"
  by (simp add: kAllBitsSetInWord_def)

lemma mark_word_as_bits:
  "mark_word_panic m w \<longleftrightarrow> mark_bits_panic m w kAllBitsSetInWord"
  "mark_word m = mark_bits m w kAllBitsSetInWord"
proof -
  have "SWAP_BE32 (- 1) = - 1"
    using bswap32_not [of 0] by simp
  then show "mark_word_panic m w \<longleftrightarrow> mark_bits_panic m w kAllBitsSetInWord"
    "mark_word m = mark_bits m w kAllBitsSetInWord"
    by (cases m; simp add: kAllBitsSetInWord_eq del: bswap32_not)+
qed

lemma ex_bit_from_top: "(\<exists>i < (32::nat). P i) \<longleftrightarrow> (\<exists>j < 32. P (31 - j))"
proof
  assume "\<exists>i < (32::nat). P i"
  then obtain i where "i < 32" "P i" by blast
  moreover from this have "31 - (31 - i) = i" by simp
  ultimately show "\<exists>j < 32. P (31 - j)"
    by (intro exI [of _ "31 - i"]) simp
next
  assume "\<exists>j < (32::nat). P (31 - j)"
  then obtain j where "j < 32" "P (31 - j)" by blast
  then show "\<exists>i < 32. P i"
    by (intro exI [of _ "31 - j"]) simp
qed

text \<open>
  Marking one word \<open>w\<close> through a mask that selects its blocks \<open>lo .. hi - 1\<close>.
\<close>

lemma mark_one_word:
  assumes "bitmap_wf vcb" and "w * 32 < totalBlocks vcb" and "lo \<le> hi" "hi \<le> 32"
    and msk: "\<And>j. j < 32 \<Longrightarrow> bit msk (31 - j) \<longleftrightarrow> lo \<le> j \<and> j < hi"
  shows "mark_bits_panic m (bitmap_word vcb w) msk \<longleftrightarrow> \<not> mark_expected m vcb (w * 32 + lo) (hi - lo)"
    and "bitmap_updated vcb (bitmap_set vcb w (mark_bits m (bitmap_word vcb w) msk))
           (w * 32 + lo) (hi - lo) (m = MarkAllocated)"
proof -
  have used: "block_used vcb (w * 32 + j) \<longleftrightarrow> bit (SWAP_BE32 (bitmap_word vcb w)) (31 - j)"
    if "j < 32" for j
    using that by (simp add: block_used_def)
  have "mark_bits_panic m (bitmap_word vcb w) msk \<longleftrightarrow>
      (\<exists>j < 32. bit msk (31 - j) \<and> bit (SWAP_BE32 (bitmap_word vcb w)) (31 - j) \<noteq> (m = MarkFree))"
    unfolding mark_bits_panic_iff by (rule ex_bit_from_top)
  also have "\<dots> \<longleftrightarrow> (\<exists>j < 32. (lo \<le> j \<and> j < hi) \<and> block_used vcb (w * 32 + j) \<noteq> (m = MarkFree))"
    by (simp add: msk used cong: conj_cong)
  also have "\<dots> \<longleftrightarrow> (\<exists>j. lo \<le> j \<and> j < hi \<and> block_used vcb (w * 32 + j) \<noteq> (m = MarkFree))"
    using assms(4) by (meson less_le_trans)
  also have "\<dots> \<longleftrightarrow> \<not> mark_expected m vcb (w * 32 + lo) (hi - lo)"
  proof
    assume "\<exists>j. lo \<le> j \<and> j < hi \<and> block_used vcb (w * 32 + j) \<noteq> (m = MarkFree)"
    then obtain j where "lo \<le> j" "j < hi" "block_used vcb (w * 32 + j) \<noteq> (m = MarkFree)" by blast
    then show "\<not> mark_expected m vcb (w * 32 + lo) (hi - lo)"
      unfolding mark_expected_def by (auto intro!: exI [of _ "w * 32 + j"])
  next
    assume "\<not> mark_expected m vcb (w * 32 + lo) (hi - lo)"
    then obtain b where "w * 32 + lo \<le> b" "b < w * 32 + hi" "block_used vcb b \<noteq> (m = MarkFree)"
      using assms(3) unfolding mark_expected_def by auto
    then show "\<exists>j. lo \<le> j \<and> j < hi \<and> block_used vcb (w * 32 + j) \<noteq> (m = MarkFree)"
      by (intro exI [of _ "b - w * 32"]) auto
  qed
  finally show "mark_bits_panic m (bitmap_word vcb w) msk \<longleftrightarrow>
    \<not> mark_expected m vcb (w * 32 + lo) (hi - lo)" .
  have "block_used (bitmap_set vcb w (mark_bits m (bitmap_word vcb w) msk)) b =
      (if w * 32 + lo \<le> b \<and> b < w * 32 + lo + (hi - lo) then m = MarkAllocated
       else block_used vcb b)" for b
  proof (cases "b div 32 = w")
    case True
    then have b: "b = w * 32 + b mod 32" by (metis div_mult_mod_eq)
    have j: "b mod 32 < 32" by simp
    have "w * 32 + lo \<le> b \<and> b < w * 32 + lo + (hi - lo) \<longleftrightarrow> lo \<le> b mod 32 \<and> b mod 32 < hi"
      using b assms(3) by linarith
    with True j used [OF j] b show ?thesis
      by (simp add: block_used_set [OF assms(1,2)] bit_mark_bits msk [OF j])
  next
    case False
    then have "\<not> (w * 32 + lo \<le> b \<and> b < w * 32 + lo + (hi - lo))"
      using assms(3,4) by (auto simp: div_nat_eqI)
    with False show ?thesis
      by (auto simp: block_used_set [OF assms(1,2)])
  qed
  moreover have "\<exists>bufs. bitmap_set vcb w v = vcb\<lparr>vcb_buffers := bufs\<rparr>" for v
    by (auto simp: bitmap_set_def bitmap_store_def Let_def)
  ultimately show "bitmap_updated vcb (bitmap_set vcb w (mark_bits m (bitmap_word vcb w) msk))
      (w * 32 + lo) (hi - lo) (m = MarkAllocated)"
    using bitmap_set_word(2) [OF assms(1,2)] unfolding bitmap_updated_def by blast
qed

lemma bit_all_from:
  "j < 32 \<Longrightarrow> bit (drop_bit a kAllBitsSetInWord) (31 - j) \<longleftrightarrow> a \<le> j"
  by (auto simp: kAllBitsSetInWord_eq bit_mask_iff)

lemma bit_all_upto:
  "j < 32 \<Longrightarrow> bit (NOT (drop_bit a kAllBitsSetInWord)) (31 - j) \<longleftrightarrow> j < a"
  by (auto simp: bit_not_iff bit_all_from)

lemma BlockMark_last_marked:
  assumes "bitmap_wf vcb" "bitmap_readable bread vcb" "bitmap_at vcb w s p"
    and "w * 32 + n \<le> totalBlocks vcb" "n < 32"
  shows "marked m vcb (w * 32) n (BlockMark_last m bread vcb s p n)"
proof (cases "n = 0")
  case True
  with assms(1) show ?thesis
    by (simp add: BlockMark_last_def marked_0)
next
  case False
  with assms(4) have w: "w * 32 < totalBlocks vcb" by simp
  then obtain s' p' where refill: "bitmap_refill bread vcb s p = Inr (s', p')"
    and at: "bitmap_at vcb w s' p'" "wordsLeft p' > 0"
    using bitmap_refill_at [OF assms(1-3)] by blast
  note access = bitmap_at_access [OF assms(1) at]
  note one = mark_one_word [OF assms(1) w, of 0 n "NOT (drop_bit n kAllBitsSetInWord)" m]
  show ?thesis
    using False assms(5) refill one
    by (auto simp: BlockMark_last_def access bit_all_upto marked_def Let_def)
qed

lemma BlockMark_words_marked:
  assumes "bitmap_wf vcb" "bitmap_readable bread vcb" "bitmap_at vcb w s p"
    and "w * 32 + n \<le> totalBlocks vcb"
  shows "marked m vcb (w * 32) n (BlockMark_words m bread vcb s p n)"
  using assms
proof (induction m bread vcb s p n arbitrary: w rule: BlockMark_words.induct)
  case (1 m bread vcb s p n)
  show ?case
  proof (cases "32 \<le> n")
    case False
    with "1.prems" show ?thesis
      by (subst BlockMark_words.simps) (simp add: BlockMark_last_marked)
  next
    case True
    with "1.prems"(4) have w: "w * 32 < totalBlocks vcb" by simp
    obtain s' p' where refill: "bitmap_refill bread vcb s p = Inr (s', p')"
      and at: "bitmap_at vcb w s' p'" "wordsLeft p' > 0"
      using bitmap_refill_at [OF "1.prems"(1-3) w] by blast
    note access = bitmap_at_access [OF "1.prems"(1) at]
    have all: "bit kAllBitsSetInWord (31 - j) \<longleftrightarrow> 0 \<le> j \<and> j < 32" if "j < 32" for j
      using that bit_all_from [of j 0] by simp
    note one = mark_one_word [OF "1.prems"(1) w le0 order_refl all, of m]
    note words = mark_word_as_bits [of m "bitmap_word vcb w"]
    show ?thesis
    proof (cases "mark_word_panic m (bitmap_word vcb w)")
      case panic: True
      then have "\<not> mark_expected m vcb (w * 32) 32" using one(1) words by simp
      with panic True refill show ?thesis
        by (subst BlockMark_words.simps) (simp add: access marked_panic)
    next
      case False
      let ?vcb = "bitmap_set vcb w (mark_word m)"
      have expected: "mark_expected m vcb (w * 32) 32"
        and upd: "bitmap_updated vcb ?vcb (w * 32) 32 (m = MarkAllocated)"
        using False one words by simp_all
      have "marked m ?vcb ((w + 1) * 32) (n - 32)
              (BlockMark_words m bread ?vcb s' (bitmap_next p') (n - 32))"
        using "1.IH" [OF True refill refl, of "w + 1"] False True access "1.prems" upd
          bitmap_readable_updated [OF upd] bitmap_updated_frame [OF upd]
        by (simp add: bitmap_updated_def)
      then have "marked m ?vcb (w * 32 + 32) (n - 32) (BlockMark_words m bread vcb s p n)"
        using False True refill
        by (subst BlockMark_words.simps) (simp add: access add.commute)
      with marked_step [OF expected upd True] show ?thesis by simp
    qed
  qed
qed

lemma BlockMark_marked:
  assumes "bitmap_wf vcb" "bitmap_readable bread vcb"
    and "s < totalBlocks vcb" "s + n \<le> totalBlocks vcb"
  shows "marked m vcb s n (BlockMark m bread vcb s n)"
proof -
  let ?ref = "bitmap_block_ref vcb (s div bitsPerBlock vcb)"
  let ?p = "bitmap_seek vcb s ?ref" and ?w = "s div 32" and ?f = "s mod 32"
  have "s < 2 ^ 32" using assms(1,3) by (simp add: bitmap_wf_def)
  note at = bitmap_seek_at [OF assms(1) this refl]
  note read = ReadBitmapBlock_ok [OF assms(2,3)]
  show ?thesis
  proof (cases "?f = 0")
    case True
    then have "?w * 32 = s" by auto
    with BlockMark_words_marked [OF assms(1,2) at(1), of n m] assms(4) True show ?thesis
      by (simp add: BlockMark_def read Let_def)
  next
    case False
    define k where "k = min n (32 - ?f)"
    define msk where "msk = (if 32 - ?f > n
      then drop_bit ?f kAllBitsSetInWord AND NOT (drop_bit (?f + n) kAllBitsSetInWord)
      else drop_bit ?f kAllBitsSetInWord)"
    note access = bitmap_at_access [OF assms(1) at]
    have f: "?f < 32" by simp
    have w: "?w * 32 < totalBlocks vcb" and s: "?w * 32 + ?f = s"
      using assms(3) by (auto intro: le_less_trans [rotated])
    have "bit msk (31 - j) \<longleftrightarrow> ?f \<le> j \<and> j < ?f + k" if "j < 32" for j
      using that by (auto simp: msk_def k_def bit_and_iff bit_all_from bit_all_upto)
    note one = mark_one_word [OF assms(1) w _ _ this, of m, simplified]
    have k: "k \<le> n" "?f + k \<le> 32" using f by (auto simp: k_def)
    have unfold: "BlockMark m bread vcb s n =
      (if mark_bits_panic m (bitmap_word vcb ?w) msk then None
       else BlockMark_words m bread (bitmap_set vcb ?w (mark_bits m (bitmap_word vcb ?w) msk)) s
              (bitmap_next ?p) (n - k))"
      using False by (auto simp: BlockMark_def read access msk_def k_def Let_def min_def)
    show ?thesis
    proof (cases "mark_bits_panic m (bitmap_word vcb ?w) msk")
      case True
      with one(1) k s have "\<not> mark_expected m vcb s k" by simp
      with True unfold k show ?thesis by (simp add: marked_panic)
    next
      case False
      let ?vcb = "bitmap_set vcb ?w (mark_bits m (bitmap_word vcb ?w) msk)"
      have expected: "mark_expected m vcb s k" and upd: "bitmap_updated vcb ?vcb s k (m = MarkAllocated)"
        using False one k s by simp_all
      have wf: "bitmap_wf ?vcb" using upd by (simp add: bitmap_updated_def)
      have "marked m ?vcb (s + k) (n - k) (BlockMark m bread vcb s n)"
      proof (cases "n = k")
        case True
        then show ?thesis
          using wf unfold False by (simp add: BlockMark_words.simps BlockMark_last_def marked_0)
      next
        case more: False
        then have "k = 32 - ?f" by (simp add: k_def min_def split: if_splits)
        then have "?f + k = 32" using f by simp
        then have next_word: "s + k = (?w + 1) * 32"
          using s by (metis add.assoc distrib_right mult_1)
        have "marked m ?vcb ((?w + 1) * 32) (n - k)
                (BlockMark_words m bread ?vcb s (bitmap_next ?p) (n - k))"
          using wf bitmap_readable_updated [OF upd assms(2)] access(3) next_word assms(4) k
            bitmap_updated_frame(1) [OF upd]
          by (intro BlockMark_words_marked) simp_all
        then show ?thesis
          using False unfold next_word by simp
      qed
      with marked_step [OF expected upd k(1)] show ?thesis by simp
    qed
  qed
qed

section \<open>The bitmap as an interface\<close>

text \<open>
  What the allocator relies on: a set of used blocks from which runs are taken
  and to which they are returned.
\<close>

locale block_bitmap =
  fixes wf :: "'v \<Rightarrow> bool"
    and size :: "'v \<Rightarrow> nat"
    and used :: "'v \<Rightarrow> nat \<Rightarrow> bool"
    and take_run :: "'v \<Rightarrow> nat \<Rightarrow> nat \<Rightarrow> (OSErr \<times> 'v) option"
    and give_run :: "'v \<Rightarrow> nat \<Rightarrow> nat \<Rightarrow> (OSErr \<times> 'v) option"
  assumes take_ok:
    "wf v \<Longrightarrow> s < size v \<Longrightarrow> s + n \<le> size v \<Longrightarrow> (\<forall>b. s \<le> b \<and> b < s + n \<longrightarrow> \<not> used v b) \<Longrightarrow>
     \<exists>v'. take_run v s n = Some (noErr, v') \<and> wf v' \<and> size v' = size v \<and>
          (\<forall>b. used v' b \<longleftrightarrow> s \<le> b \<and> b < s + n \<or> used v b)"
    and give_ok:
    "wf v \<Longrightarrow> s < size v \<Longrightarrow> s + n \<le> size v \<Longrightarrow> (\<forall>b. s \<le> b \<and> b < s + n \<longrightarrow> used v b) \<Longrightarrow>
     \<exists>v'. give_run v s n = Some (noErr, v') \<and> wf v' \<and> size v' = size v \<and>
          (\<forall>b. used v' b \<longleftrightarrow> \<not> (s \<le> b \<and> b < s + n) \<and> used v b)"
begin

definition free_count :: "'v \<Rightarrow> nat" where
  "free_count v = card {b. b < size v \<and> \<not> used v b}"

lemma take_give:
  assumes "wf v" "s < size v" "s + n \<le> size v" "\<forall>b. s \<le> b \<and> b < s + n \<longrightarrow> \<not> used v b"
  shows "\<exists>v1 v2. take_run v s n = Some (noErr, v1) \<and> give_run v1 s n = Some (noErr, v2) \<and>
           used v2 = used v"
proof -
  obtain v1 where v1: "take_run v s n = Some (noErr, v1)" "wf v1" "size v1 = size v"
    "\<forall>b. used v1 b \<longleftrightarrow> s \<le> b \<and> b < s + n \<or> used v b"
    using take_ok [OF assms] by blast
  then obtain v2 where "give_run v1 s n = Some (noErr, v2)"
    "\<forall>b. used v2 b \<longleftrightarrow> \<not> (s \<le> b \<and> b < s + n) \<and> used v1 b"
    using give_ok [of v1 s n] assms by auto
  with v1 assms(4) show ?thesis by (auto simp: fun_eq_iff)
qed

lemma run_card:
  assumes "A = B \<union> {s..<s + n}" "B \<inter> {s..<s + n} = {}" "finite B"
  shows "card A = card B + n"
  using assms card_Un_disjoint [of B "{s..<s + n}"] by simp

lemma take_count:
  assumes "wf v" "s < size v" "s + n \<le> size v" "\<forall>b. s \<le> b \<and> b < s + n \<longrightarrow> \<not> used v b"
    and "take_run v s n = Some (e, v')"
  shows "free_count v = free_count v' + n"
proof -
  have size: "size v' = size v" and used: "used v' b \<longleftrightarrow> s \<le> b \<and> b < s + n \<or> used v b" for b
    using take_ok [OF assms(1-4)] assms(5) by auto
  show ?thesis
    unfolding free_count_def size used
    by (rule run_card [where s = s]) (use assms(3,4) in auto)
qed

lemma give_count:
  assumes "wf v" "s < size v" "s + n \<le> size v" "\<forall>b. s \<le> b \<and> b < s + n \<longrightarrow> used v b"
    and "give_run v s n = Some (e, v')"
  shows "free_count v' = free_count v + n"
proof -
  have size: "size v' = size v" and used: "used v' b \<longleftrightarrow> \<not> (s \<le> b \<and> b < s + n) \<and> used v b" for b
    using give_ok [OF assms(1-4)] assms(5) by auto
  show ?thesis
    unfolding free_count_def size used
    by (rule run_card [where s = s]) (use assms(3,4) in auto)
qed

end

lemma BlockMark_ok:
  assumes "bitmap_wf vcb \<and> bitmap_readable bread vcb"
    and "s < totalBlocks vcb" "s + n \<le> totalBlocks vcb" "mark_expected m vcb s n"
  shows "\<exists>vcb'. BlockMark m bread vcb s n = Some (noErr, vcb') \<and>
           (bitmap_wf vcb' \<and> bitmap_readable bread vcb') \<and> totalBlocks vcb' = totalBlocks vcb \<and>
           bitmap_updated vcb vcb' s n (m = MarkAllocated)"
proof -
  obtain vcb' where vcb': "BlockMark m bread vcb s n = Some (noErr, vcb')"
    and upd: "bitmap_updated vcb vcb' s n (m = MarkAllocated)"
    using BlockMark_marked [of vcb bread s n m] assms by (auto simp: marked_def)
  from upd have "bitmap_wf vcb'" by (simp add: bitmap_updated_def)
  with vcb' upd show ?thesis
    using assms(1) bitmap_readable_updated [OF upd] bitmap_updated_frame(1) [OF upd] by blast
qed

interpretation bitmap: block_bitmap
  "\<lambda>vcb. bitmap_wf vcb \<and> bitmap_readable bread vcb" totalBlocks block_used
  "BlockMarkAllocated bread" "BlockMarkFree bread" for bread
proof
  fix vcb s n
  assume wf: "bitmap_wf vcb \<and> bitmap_readable bread vcb" "s < totalBlocks vcb"
    "s + n \<le> totalBlocks vcb"
  have upd: "block_used vcb' b \<longleftrightarrow> (if s \<le> b \<and> b < s + n then v else block_used vcb b)"
    if "bitmap_updated vcb vcb' s n v" for vcb' v b
    using that by (simp add: bitmap_updated_def)
  show "\<exists>v'. BlockMarkAllocated bread vcb s n = Some (noErr, v') \<and>
      (bitmap_wf v' \<and> bitmap_readable bread v') \<and> totalBlocks v' = totalBlocks vcb \<and>
      (\<forall>b. block_used v' b \<longleftrightarrow> s \<le> b \<and> b < s + n \<or> block_used vcb b)"
    if "\<forall>b. s \<le> b \<and> b < s + n \<longrightarrow> \<not> block_used vcb b"
  proof -
    have "mark_expected MarkAllocated vcb s n"
      using that by (simp add: mark_expected_def)
    from BlockMark_ok [OF wf this] show ?thesis
      unfolding BlockMarkAllocated_def using upd by fastforce
  qed
  show "\<exists>v'. BlockMarkFree bread vcb s n = Some (noErr, v') \<and>
      (bitmap_wf v' \<and> bitmap_readable bread v') \<and> totalBlocks v' = totalBlocks vcb \<and>
      (\<forall>b. block_used v' b \<longleftrightarrow> \<not> (s \<le> b \<and> b < s + n) \<and> block_used vcb b)"
    if "\<forall>b. s \<le> b \<and> b < s + n \<longrightarrow> block_used vcb b"
  proof -
    have "mark_expected MarkFree vcb s n"
      using that by (simp add: mark_expected_def)
    from BlockMark_ok [OF wf this] show ?thesis
      unfolding BlockMarkFree_def using upd by fastforce
  qed
qed

section \<open>The properties of the marking routines\<close>

text \<open>A small volume: 64 blocks, one bitmap word to a bitmap block, nothing used.\<close>

definition small_volume :: ExtendedVCB where
  "small_volume =
     \<lparr>vcbSigWord = kHFSPlusSigWord, vcbFlags = 0, blockSize = 512, totalBlocks = 64,
      freeBlocks = 64, nextAllocation = 0, vcbVBMSt = 0, vcbVBMIOSize = 4, vcbFreeExtCnt = 0,
      vcbFreeExt = replicate 10 \<lparr>startBlock = 0, blockCount = 0\<rparr>, reserveBlocks = 0,
      loanedBlocks = 0, vcbAlBlSt = 0, hfsPlusIOPosOffset = 0, hfs_phys_block_size = 512,
      vcb_buffers = (\<lambda>_ _. [0])\<rparr>"

lemma small_volume_wf:
  "bitmap_wf small_volume" "bitmap_readable (\<lambda>_. noErr) small_volume"
  "totalBlocks small_volume = 64" "\<not> block_used small_volume b"
  by (simp_all add: bitmap_wf_def bitmap_readable_def small_volume_def wordsPerBlock_def
      block_used_def bitmap_word_def image_iff Let_def) (rule bexI [of _ 2], simp_all)

text \<open>
  C6: \<^verbatim>\<open>BlockMarkAllocated\<close> on a run of free blocks inside the volume succeeds,
  sets exactly the bits of the run and changes nothing else of the volume
  control block; if any block of the run is already in use it panics.
\<close>

theorem BlockMarkAllocated_exact:
  assumes "bitmap_wf vcb" "bitmap_readable bread vcb"
    and "s < totalBlocks vcb" "s + n \<le> totalBlocks vcb"
  shows "if \<exists>b. s \<le> b \<and> b < s + n \<and> block_used vcb b
         then BlockMarkAllocated bread vcb s n = None
         else \<exists>bufs. BlockMarkAllocated bread vcb s n = Some (noErr, vcb\<lparr>vcb_buffers := bufs\<rparr>) \<and>
                (\<forall>b. block_used (vcb\<lparr>vcb_buffers := bufs\<rparr>) b \<longleftrightarrow> s \<le> b \<and> b < s + n \<or> block_used vcb b)"
  using BlockMark_marked [OF assms, of MarkAllocated]
  unfolding BlockMarkAllocated_def marked_def mark_expected_def bitmap_updated_def
  by (auto split: if_splits)

theorem BlockMarkAllocated_exact_witness:
  "\<exists>bufs. BlockMarkAllocated (\<lambda>_. noErr) small_volume 20 30 =
     Some (noErr, small_volume\<lparr>vcb_buffers := bufs\<rparr>)"
  using BlockMarkAllocated_exact [of small_volume "\<lambda>_. noErr" 20 30]
  by (auto simp: small_volume_wf)

text \<open>
  C7: \<^verbatim>\<open>BlockMarkFree\<close> on a run of used blocks inside the volume succeeds, clears
  exactly the bits of the run and changes nothing else; if any block of the
  run is already free it panics.
\<close>

theorem BlockMarkFree_exact:
  assumes "bitmap_wf vcb" "bitmap_readable bread vcb"
    and "s < totalBlocks vcb" "s + n \<le> totalBlocks vcb"
  shows "if \<exists>b. s \<le> b \<and> b < s + n \<and> \<not> block_used vcb b
         then BlockMarkFree bread vcb s n = None
         else \<exists>bufs. BlockMarkFree bread vcb s n = Some (noErr, vcb\<lparr>vcb_buffers := bufs\<rparr>) \<and>
                (\<forall>b. block_used (vcb\<lparr>vcb_buffers := bufs\<rparr>) b \<longleftrightarrow>
                   \<not> (s \<le> b \<and> b < s + n) \<and> block_used vcb b)"
  using BlockMark_marked [OF assms, of MarkFree]
  unfolding BlockMarkFree_def marked_def mark_expected_def bitmap_updated_def
  by (auto split: if_splits)

theorem BlockMarkFree_exact_witness:
  "BlockMarkFree (\<lambda>_. noErr) small_volume 20 30 = None"
  using BlockMarkFree_exact [of small_volume "\<lambda>_. noErr" 20 30]
  by (auto simp: small_volume_wf split: if_splits)

text \<open>
  C8: freeing a run that was just allocated gives back the bitmap, block by
  block, and allocating it lowers the number of free blocks by its length.
\<close>

theorem BlockMark_roundtrip:
  assumes "bitmap_wf vcb" "bitmap_readable bread vcb"
    and "s < totalBlocks vcb" "s + n \<le> totalBlocks vcb"
    and "\<forall>b. s \<le> b \<and> b < s + n \<longrightarrow> \<not> block_used vcb b"
  shows "\<exists>vcb1 vcb2. BlockMarkAllocated bread vcb s n = Some (noErr, vcb1) \<and>
           BlockMarkFree bread vcb1 s n = Some (noErr, vcb2) \<and>
           block_used vcb2 = block_used vcb \<and>
           card {b. b < totalBlocks vcb \<and> \<not> block_used vcb b} =
             card {b. b < totalBlocks vcb1 \<and> \<not> block_used vcb1 b} + n"
proof -
  obtain vcb1 vcb2 where "BlockMarkAllocated bread vcb s n = Some (noErr, vcb1)"
    "BlockMarkFree bread vcb1 s n = Some (noErr, vcb2)" "block_used vcb2 = block_used vcb"
    using bitmap.take_give [OF conjI [OF assms(1,2)] assms(3-5)] by blast
  moreover from this(1) have "card {b. b < totalBlocks vcb \<and> \<not> block_used vcb b} =
      card {b. b < totalBlocks vcb1 \<and> \<not> block_used vcb1 b} + n"
    using bitmap.take_count [OF conjI [OF assms(1,2)] assms(3-5)]
    by (simp add: bitmap.free_count_def)
  ultimately show ?thesis by blast
qed

theorem BlockMark_roundtrip_witness:
  "\<exists>vcb1 vcb2. BlockMarkAllocated (\<lambda>_. noErr) small_volume 20 30 = Some (noErr, vcb1) \<and>
     BlockMarkFree (\<lambda>_. noErr) vcb1 20 30 = Some (noErr, vcb2) \<and>
     block_used vcb2 = block_used small_volume"
  using BlockMark_roundtrip [of small_volume "\<lambda>_. noErr" 20 30]
  by (auto simp: small_volume_wf)

end
