(* ===== verification/AllocAny.thy ===== *)
theory AllocAny
  imports VolBitmap
begin

text \<open>
  \<^verbatim>\<open>BlockAllocateAny\<close> of \<^verbatim>\<open>src/hfsplus/hfscommon/Misc/VolumeAllocation.c\<close>: find the
  first free block of a range of the volume and allocate the run of free
  blocks that starts there, up to a maximum.

  The two loops walk the bitmap bit by bit with a mask that moves right through
  a register copy of the current word; the second writes the register back when
  it leaves a word. The lemmas relate the mask to a block number and show that
  the first loop finds the first free block and that the second sets exactly
  the bits of the run it returns.
\<close>

section \<open>The routine\<close>

text \<open>
  The state of both loops: the block, the position in the bitmap, the register
  \<^verbatim>\<open>currentWord\<close> and \<^verbatim>\<open>bitMask\<close>. \<^verbatim>\<open>next_block_word\<close> is the part of the loop body that
  moves to the next word, reading the next bitmap block if the buffer is used up.
\<close>

definition next_block_word ::
  "(block_ref \<Rightarrow> OSErr) \<Rightarrow> ExtendedVCB \<Rightarrow> nat \<Rightarrow> bitmap_pos \<Rightarrow> OSErr + bitmap_pos" where
  "next_block_word bread vcb block p =
     (let p = bitmap_next p
      in if wordsLeft p = 0 then
           (case ReadBitmapBlock bread vcb block of
              Inl err \<Rightarrow> Inl err
            | Inr ref \<Rightarrow> Inr \<lparr>blockRef = ref, wordIndex = 0, wordsLeft = wordsPerBlock vcb\<rparr>)
         else Inr p)"

function AllocateAny_find ::
  "(block_ref \<Rightarrow> OSErr) \<Rightarrow> ExtendedVCB \<Rightarrow> nat \<Rightarrow> nat \<Rightarrow> bitmap_pos \<Rightarrow> u32 \<Rightarrow> u32 \<Rightarrow>
   OSErr + nat \<times> bitmap_pos \<times> u32 \<times> u32" where
  "AllocateAny_find bread vcb endingBlock block p currentWord bitMask =
     (if block < endingBlock \<and> currentWord AND bitMask \<noteq> 0 then
        (let block = block + 1; bitMask = drop_bit 1 bitMask
         in if bitMask = 0 then
              (case next_block_word bread vcb block p of
                 Inl err \<Rightarrow> Inl err
               | Inr p \<Rightarrow> AllocateAny_find bread vcb endingBlock block p
                            (SWAP_BE32 (bitmap_get vcb p)) kHighBitInWordMask)
            else AllocateAny_find bread vcb endingBlock block p currentWord bitMask)
      else Inr (block, p, currentWord, bitMask))"
  by pat_completeness auto
termination
  by (relation "measure (\<lambda>(bread, vcb, endingBlock, block, p, w, msk). endingBlock - block)") auto

declare AllocateAny_find.simps [simp del]

text \<open>
  The second loop ends at a used block or when the block number reaches
  \<^verbatim>\<open>endingBlock\<close>, which as a \<^verbatim>\<open>UInt32\<close> it does from any start.
\<close>

function AllocateAny_take ::
  "(block_ref \<Rightarrow> OSErr) \<Rightarrow> ExtendedVCB \<Rightarrow> nat \<Rightarrow> nat \<Rightarrow> bitmap_pos \<Rightarrow> u32 \<Rightarrow> u32 \<Rightarrow>
   OSErr \<times> ExtendedVCB \<times> nat" where
  "AllocateAny_take bread vcb endingBlock block p currentWord bitMask =
     (if currentWord AND bitMask = 0 then
        (let currentWord = currentWord OR bitMask; block = u32_add block 1
         in if u32_eq block endingBlock then (noErr, bitmap_put vcb p (SWAP_BE32 currentWord), block)
            else
              (let bitMask = drop_bit 1 bitMask
               in if bitMask = 0 then
                    (let vcb = bitmap_put vcb p (SWAP_BE32 currentWord)
                     in case next_block_word bread vcb block p of
                          Inl err \<Rightarrow> (err, vcb, block)
                        | Inr p \<Rightarrow> AllocateAny_take bread vcb endingBlock block p
                                     (SWAP_BE32 (bitmap_get vcb p)) kHighBitInWordMask)
                  else AllocateAny_take bread vcb endingBlock block p currentWord bitMask))
      else (noErr, bitmap_put vcb p (SWAP_BE32 currentWord), block))"
  by pat_completeness auto
termination
  by (relation "measure (\<lambda>(bread, vcb, endingBlock, block, p, w, msk).
        u32_sub endingBlock (u32_add block 1))") (auto simp: u32_count_down [simplified])

declare AllocateAny_take.simps [simp del]

text \<open>The result, the volume, and the two outputs \<^verbatim>\<open>actualStartBlock\<close> and \<^verbatim>\<open>actualNumBlocks\<close>.\<close>

definition BlockAllocateAny ::
  "(block_ref \<Rightarrow> OSErr) \<Rightarrow> ExtendedVCB \<Rightarrow> nat \<Rightarrow> nat \<Rightarrow> nat \<Rightarrow> OSErr \<times> ExtendedVCB \<times> nat \<times> nat" where
  "BlockAllocateAny bread vcb startingBlock endingBlock maxBlocks =
     (let maxBlocks = (if maxBlocks > u32_sub endingBlock startingBlock
                       then u32_sub endingBlock startingBlock else maxBlocks)
      in case ReadBitmapBlock bread vcb startingBlock of
           Inl err \<Rightarrow> (err, vcb, 0, 0)
         | Inr ref \<Rightarrow>
             (let p = bitmap_seek vcb startingBlock ref;
                  currentWord = SWAP_BE32 (bitmap_get vcb p);
                  bitMask = drop_bit (startingBlock AND 31) kHighBitInWordMask
              in case AllocateAny_find bread vcb endingBlock startingBlock p currentWord bitMask of
                   Inl err \<Rightarrow> (err, vcb, 0, 0)
                 | Inr (block, p, currentWord, bitMask) \<Rightarrow>
                     if block = endingBlock then (dskFulErr, vcb, 0, 0)
                     else
                       (let endingBlock' =
                              (if block < u32_sub endingBlock maxBlocks
                               then u32_add block maxBlocks else endingBlock)
                        in case AllocateAny_take bread vcb endingBlock' block p currentWord bitMask of
                             (err, vcb', block') \<Rightarrow>
                               if err = noErr then (noErr, vcb', block, u32_sub block' block)
                               else (err, vcb', 0, 0))))"

section \<open>The mask and the block number\<close>

lemma bit_kHighBitInWordMask: "bit kHighBitInWordMask n \<longleftrightarrow> n = 31"
proof -
  have high: "kHighBitInWordMask = push_bit 31 1"
    by (simp add: kHighBitInWordMask_def push_bit_eq_mult)
  show ?thesis
    unfolding high by (subst bit_push_bit_iff, subst bit_1_iff, simp, linarith)
qed

lemma bit_high_mask: "bit (drop_bit j kHighBitInWordMask) i \<longleftrightarrow> j \<le> 31 \<and> i = 31 - j"
  unfolding bit_drop_bit_eq o_apply bit_kHighBitInWordMask by linarith

lemma high_mask_test:
  "j < 32 \<Longrightarrow> w AND drop_bit j kHighBitInWordMask = 0 \<longleftrightarrow> \<not> bit w (31 - j)"
  by (subst bit_eq_iff) (auto simp: bit_and_iff bit_high_mask dest: spec [of _ "31 - j"])

lemma high_mask_zero: "drop_bit j kHighBitInWordMask = 0 \<longleftrightarrow> 32 \<le> j"
  by (subst bit_eq_iff) (auto simp: bit_high_mask dest: spec [of _ "31 - j"])

lemma high_mask_or:
  "j < 32 \<Longrightarrow> i < 32 \<Longrightarrow> bit (w OR drop_bit j kHighBitInWordMask) (31 - i) \<longleftrightarrow> i = j \<or> bit w (31 - i)"
  by (auto simp: bit_or_iff bit_high_mask)

text \<open>The word of block \<open>b\<close> is at hand and the mask selects \<open>b\<close> in it.\<close>

definition mask_at :: "ExtendedVCB \<Rightarrow> nat \<Rightarrow> bitmap_pos \<Rightarrow> u32 \<Rightarrow> bool" where
  "mask_at vcb b p msk \<longleftrightarrow>
     (\<exists>s. bitmap_at vcb (b div 32) s p) \<and> wordsLeft p > 0 \<and>
     msk = drop_bit (b mod 32) kHighBitInWordMask"

lemma Suc_in_word:
  "Suc b mod 32 \<noteq> 0 \<Longrightarrow> Suc b div 32 = b div 32 \<and> Suc b mod 32 = Suc (b mod 32)"
  "Suc b mod 32 = 0 \<Longrightarrow> Suc b div 32 = Suc (b div 32) \<and> b mod 32 = 31"
  by (auto simp: mod_Suc div_Suc split: if_splits)

lemma mask_at_shift:
  assumes "mask_at vcb b p msk"
  shows "drop_bit 1 msk = 0 \<longleftrightarrow> Suc b mod 32 = 0"
    and "Suc b mod 32 \<noteq> 0 \<Longrightarrow> mask_at vcb (Suc b) p (drop_bit 1 msk)"
proof -
  have shift: "drop_bit 1 msk = drop_bit (Suc (b mod 32)) kHighBitInWordMask"
    using assms by (simp add: mask_at_def drop_bit_drop_bit)
  have "32 \<le> Suc (b mod 32) \<longleftrightarrow> Suc b mod 32 = 0"
    by (auto simp: mod_Suc)
  then show "drop_bit 1 msk = 0 \<longleftrightarrow> Suc b mod 32 = 0"
    unfolding shift high_mask_zero .
  assume "Suc b mod 32 \<noteq> 0"
  with assms show "mask_at vcb (Suc b) p (drop_bit 1 msk)"
    unfolding shift using Suc_in_word(1) [of b] by (auto simp: mask_at_def)
qed

lemma mask_at_word:
  assumes "bitmap_wf vcb" "mask_at vcb b p msk"
  shows "bitmap_get vcb p = bitmap_word vcb (b div 32)"
    and "bitmap_put vcb p v = bitmap_set vcb (b div 32) v"
  using assms bitmap_at_access unfolding mask_at_def by blast+

text \<open>A buffer used up to its end is followed by the one that starts with the next word.\<close>

lemma bitmap_at_fresh:
  assumes "bitmap_wf vcb" "bitmap_at vcb w s p" "wordsLeft p = 0" "w = b div 32" "b < 2 ^ 32"
  shows "bitmap_at vcb w b
           \<lparr>blockRef = bitmap_block_ref vcb (b div bitsPerBlock vcb), wordIndex = 0,
            wordsLeft = wordsPerBlock vcb\<rparr>"
proof -
  let ?n = "wordsPerBlock vcb" and ?bits = "bitsPerBlock vcb"
  note geo = bitmap_geometry [OF assms(1)]
  have words: "b div 32 = (s div ?bits + 1) * ?n"
    using assms(2-4) by (simp add: bitmap_at_def)
  have "b div ?bits = b div 32 div ?n"
    using geo(2) by (simp add: div_mult2_eq)
  then have "b div ?bits * ?n = b div 32"
    using words geo(1) by simp
  then show ?thesis using assms(4,5) by (simp add: bitmap_at_def)
qed

lemma next_block_word_at:
  assumes "bitmap_wf vcb" and "mask_at vcb b p msk" and "Suc b mod 32 = 0"
    and "Suc b < 2 ^ 32" and "bread (bitmap_block_ref vcb (Suc b div bitsPerBlock vcb)) = noErr"
  obtains p' where "next_block_word bread vcb (Suc b) p = Inr p'"
    and "mask_at vcb (Suc b) p' kHighBitInWordMask"
proof -
  let ?n = "wordsPerBlock vcb" and ?bits = "bitsPerBlock vcb"
  note geo = bitmap_geometry [OF assms(1)]
  obtain s where at: "bitmap_at vcb (b div 32) s p" and left: "wordsLeft p > 0"
    using assms(2) by (auto simp: mask_at_def)
  have w: "Suc b div 32 = Suc (b div 32)" and m: "drop_bit (Suc b mod 32) kHighBitInWordMask = kHighBitInWordMask"
    using Suc_in_word(2) [OF assms(3)] assms(3) by simp_all
  have nxt: "bitmap_at vcb (Suc (b div 32)) s (bitmap_next p)"
    using at left by (auto simp: bitmap_at_def bitmap_next_def)
  show ?thesis
  proof (cases "wordsLeft (bitmap_next p) = 0")
    case False
    with nxt w m show ?thesis
      by (intro that [of "bitmap_next p"])
         (auto simp: next_block_word_def mask_at_def Let_def)
  next
    case True
    let ?p = "\<lparr>blockRef = bitmap_block_ref vcb (Suc b div ?bits), wordIndex = 0, wordsLeft = ?n\<rparr>"
    have "next_block_word bread vcb (Suc b) p = Inr ?p"
      using True assms(5)
      by (simp add: next_block_word_def ReadBitmapBlock_def bitsPerBlock_def [symmetric] Let_def)
    moreover have "bitmap_at vcb (Suc b div 32) (Suc b) ?p"
      using bitmap_at_fresh [OF assms(1) nxt True w [symmetric] assms(4)] w by simp
    ultimately show ?thesis
      using that geo(1) m by (auto simp: mask_at_def)
  qed
qed

section \<open>The first loop finds the first free block\<close>

text \<open>Every bitmap block a search up to \<open>e\<close> may ask for can be read.\<close>

definition readable_to :: "(block_ref \<Rightarrow> OSErr) \<Rightarrow> ExtendedVCB \<Rightarrow> nat \<Rightarrow> bool" where
  "readable_to bread vcb e \<longleftrightarrow>
     (\<forall>b \<le> e. bread (bitmap_block_ref vcb (b div bitsPerBlock vcb)) = noErr)"

definition word_at :: "ExtendedVCB \<Rightarrow> nat \<Rightarrow> u32" where
  "word_at vcb b = SWAP_BE32 (bitmap_word vcb (b div 32))"

lemma mask_at_test:
  "mask_at vcb b p msk \<Longrightarrow> word_at vcb b AND msk = 0 \<longleftrightarrow> \<not> block_used vcb b"
  by (auto simp: mask_at_def word_at_def block_used_def high_mask_test)

lemma AllocateAny_find_first:
  assumes "bitmap_wf vcb" "readable_to bread vcb e" "e < 2 ^ 32" "b \<le> e"
    and "mask_at vcb b p msk" "w = word_at vcb b"
  shows "\<exists>b' p' msk'. AllocateAny_find bread vcb e b p w msk = Inr (b', p', word_at vcb b', msk') \<and>
           b \<le> b' \<and> b' \<le> e \<and> (\<forall>x. b \<le> x \<and> x < b' \<longrightarrow> block_used vcb x) \<and>
           (b' < e \<longrightarrow> \<not> block_used vcb b') \<and> mask_at vcb b' p' msk'"
  using assms
proof (induction bread vcb e b p w msk rule: AllocateAny_find.induct)
  case (1 bread vcb e b p w msk)
  note test = mask_at_test [OF "1.prems"(5), folded "1.prems"(6)]
  note shift = mask_at_shift [OF "1.prems"(5)]
  show ?case
  proof (cases "b < e \<and> block_used vcb b")
    case False
    then show ?thesis
      using "1.prems" test by (subst AllocateAny_find.simps) auto
  next
    case True
    then have guard: "b < e \<and> w AND msk \<noteq> 0" using test by simp
    have step: ?thesis if ih: "\<exists>b' p' msk'. AllocateAny_find bread vcb e b p w msk =
        Inr (b', p', word_at vcb b', msk') \<and> Suc b \<le> b' \<and> b' \<le> e \<and>
        (\<forall>x. Suc b \<le> x \<and> x < b' \<longrightarrow> block_used vcb x) \<and>
        (b' < e \<longrightarrow> \<not> block_used vcb b') \<and> mask_at vcb b' p' msk'"
    proof -
      have "(\<forall>x. b \<le> x \<and> x < c \<longrightarrow> block_used vcb x)"
        if "\<forall>x. Suc b \<le> x \<and> x < c \<longrightarrow> block_used vcb x" for c
        using that True by (metis Suc_leI le_neq_implies_less)
      with ih show ?thesis by (meson Suc_leD)
    qed
    show ?thesis
    proof (cases "Suc b mod 32 = 0")
      case False
      have "w = word_at vcb (Suc b)"
        using "1.prems"(6) Suc_in_word(1) [OF False] by (simp add: word_at_def)
      moreover have "AllocateAny_find bread vcb e b p w msk =
          AllocateAny_find bread vcb e (Suc b) p w (drop_bit 1 msk)"
        using guard shift(1) False by (subst AllocateAny_find.simps) simp
      ultimately show ?thesis
        using "1.IH"(2) [OF guard refl refl] False shift "1.prems" True
        by (intro step) simp
    next
      case last: True
      have "bread (bitmap_block_ref vcb (Suc b div bitsPerBlock vcb)) = noErr" "Suc b < 2 ^ 32"
        using "1.prems"(2,3) True by (auto simp: readable_to_def)
      then obtain p' where p': "next_block_word bread vcb (Suc b) p = Inr p'"
        "mask_at vcb (Suc b) p' kHighBitInWordMask"
        using next_block_word_at [OF "1.prems"(1,5) last] by blast
      have "SWAP_BE32 (bitmap_get vcb p') = word_at vcb (Suc b)"
        using mask_at_word(1) [OF "1.prems"(1) p'(2)] by (simp add: word_at_def)
      moreover from this have "AllocateAny_find bread vcb e b p w msk =
          AllocateAny_find bread vcb e (Suc b) p' (word_at vcb (Suc b)) kHighBitInWordMask"
        using guard shift(1) last p'(1) by (subst AllocateAny_find.simps) simp
      ultimately show ?thesis
        using "1.IH"(1) [OF guard refl refl _ _, of p'] p' last shift "1.prems" True
        by (intro step) simp
    qed
  qed
qed

section \<open>The second loop allocates the run\<close>

text \<open>
  While the loop works on a word, the bitmap it stands for is the one in the
  buffers with that word replaced by the register.
\<close>

abbreviation (input) with_register :: "ExtendedVCB \<Rightarrow> nat \<Rightarrow> u32 \<Rightarrow> ExtendedVCB" where
  "with_register vcb b w \<equiv> bitmap_set vcb (b div 32) (SWAP_BE32 w)"

lemma bitmap_set_frame:
  "mask_at (bitmap_set vcb w v) b p msk \<longleftrightarrow> mask_at vcb b p msk"
  "readable_to bread (bitmap_set vcb w v) e \<longleftrightarrow> readable_to bread vcb e"
  "totalBlocks (bitmap_set vcb w v) = totalBlocks vcb"
  by (simp_all add: mask_at_def bitmap_at_def readable_to_def bitmap_set_def bitmap_frame)

lemma bitmap_set_word_same [simp]: "bitmap_set vcb w (bitmap_word vcb w) = vcb"
  by (simp add: bitmap_set_def bitmap_store_def bitmap_word_def Let_def)

lemma bitmap_set_buffers: "\<exists>bufs. bitmap_set vcb w v = vcb\<lparr>vcb_buffers := bufs\<rparr>"
  by (auto simp: bitmap_set_def bitmap_store_def Let_def)

lemma register_or:
  assumes "bitmap_wf vcb" "b < totalBlocks vcb" "mask_at vcb b p msk"
  shows "w AND msk = 0 \<longleftrightarrow> \<not> block_used (with_register vcb b w) b"
    and "bitmap_updated (with_register vcb b w) (with_register vcb b (w OR msk)) b 1 True"
proof -
  have in_vol: "b div 32 * 32 < totalBlocks vcb"
    using assms(2) by (rule le_less_trans [rotated]) simp
  note used = block_used_set [OF assms(1) in_vol] and wf = bitmap_set_word(2) [OF assms(1) in_vol]
  have msk: "msk = drop_bit (b mod 32) kHighBitInWordMask"
    using assms(3) by (simp add: mask_at_def)
  show "w AND msk = 0 \<longleftrightarrow> \<not> block_used (with_register vcb b w) b"
    by (simp add: used msk high_mask_test)
  have "block_used (with_register vcb b (w OR msk)) x \<longleftrightarrow>
      (if b \<le> x \<and> x < b + 1 then True else block_used (with_register vcb b w) x)" for x
  proof -
    have "x div 32 = b div 32 \<and> x mod 32 = b mod 32 \<longleftrightarrow> x = b"
      by (metis div_mult_mod_eq)
    then show ?thesis
      unfolding used msk bit_bswap32_swap by (auto simp: high_mask_or)
  qed
  moreover obtain b1 b2 where "with_register vcb b w = vcb\<lparr>vcb_buffers := b1\<rparr>"
    "with_register vcb b (w OR msk) = vcb\<lparr>vcb_buffers := b2\<rparr>"
    using bitmap_set_buffers by metis
  then have "\<exists>bufs. with_register vcb b (w OR msk) = (with_register vcb b w)\<lparr>vcb_buffers := bufs\<rparr>"
    by auto
  ultimately show "bitmap_updated (with_register vcb b w) (with_register vcb b (w OR msk)) b 1 True"
    unfolding bitmap_updated_def using wf by blast
qed

text \<open>
  \<open>run_taken vcb e b r\<close>: the loop's result \<open>r\<close> is success at some \<open>b' \<le> e\<close> where
  the blocks \<open>b .. b' - 1\<close> were free and are now used, and nothing else changed;
  it stopped before \<open>e\<close> only at a used block.
\<close>

definition run_taken :: "ExtendedVCB \<Rightarrow> nat \<Rightarrow> nat \<Rightarrow> OSErr \<times> ExtendedVCB \<times> nat \<Rightarrow> bool" where
  "run_taken vcb e b r \<longleftrightarrow>
     (\<exists>vcb' b'. r = (noErr, vcb', b') \<and> b \<le> b' \<and> b' \<le> e \<and>
        (\<forall>x. b \<le> x \<and> x < b' \<longrightarrow> \<not> block_used vcb x) \<and> (b' < e \<longrightarrow> block_used vcb b') \<and>
        bitmap_updated vcb vcb' b (b' - b) True)"

lemma bitmap_updated_refl: "bitmap_wf vcb \<Longrightarrow> bitmap_updated vcb vcb b 0 v"
  by (auto simp: bitmap_updated_def intro!: exI [of _ "vcb_buffers vcb"])

lemma run_taken_step:
  assumes "\<not> block_used vcb b" "bitmap_updated vcb vcb1 b 1 True" "run_taken vcb1 e (Suc b) r"
  shows "run_taken vcb e b r"
proof -
  obtain vcb' b' where r: "r = (noErr, vcb', b')" and b': "Suc b \<le> b'" "b' \<le> e"
    and free: "\<forall>x. Suc b \<le> x \<and> x < b' \<longrightarrow> \<not> block_used vcb1 x"
    and stop: "b' < e \<longrightarrow> block_used vcb1 b'"
    and upd: "bitmap_updated vcb1 vcb' (Suc b) (b' - Suc b) True"
    using assms(3) unfolding run_taken_def by blast
  have same: "x \<noteq> b \<Longrightarrow> block_used vcb1 x \<longleftrightarrow> block_used vcb x" for x
    using assms(2) by (auto simp: bitmap_updated_def)
  have "\<not> block_used vcb x" if "b \<le> x" "x < b'" for x
    using that free same [of x] assms(1) by (cases "x = b") auto
  moreover have "b' < e \<longrightarrow> block_used vcb b'"
    using stop same [of b'] b' by simp
  moreover have "bitmap_updated vcb vcb' b (b' - b) True"
    using bitmap_updated_trans [OF assms(2), of vcb' "b' - Suc b"] upd b'(1) by (simp add: Suc_diff_Suc)
  ultimately show ?thesis
    unfolding run_taken_def using r b' by (intro exI [of _ vcb'] exI [of _ b']) auto
qed

lemma AllocateAny_take_run:
  assumes "bitmap_wf vcb" "readable_to bread vcb e" "e \<le> totalBlocks vcb" "b < e"
    and "mask_at vcb b p msk"
  shows "run_taken (with_register vcb b w) e b (AllocateAny_take bread vcb e b p w msk)"
  using assms
proof (induction bread vcb e b p w msk rule: AllocateAny_take.induct)
  case (1 bread vcb e b p w msk)
  let ?L = "with_register vcb b w" and ?L1 = "with_register vcb b (w OR msk)"
  have lim: "e < 2 ^ 32" "b < totalBlocks vcb"
    using "1.prems"(1,3,4) by (auto simp: bitmap_wf_def)
  then have suc: "u32_add b 1 = Suc b" "u32_eq (Suc b) e \<longleftrightarrow> Suc b = e"
    using "1.prems"(4) by simp_all
  note reg = register_or [OF "1.prems"(1) lim(2) "1.prems"(5), of w]
  note put = mask_at_word(2) [OF "1.prems"(1,5)]
  note shift = mask_at_shift [OF "1.prems"(5)]
  have wf1: "bitmap_wf ?L1" and wfL: "bitmap_wf ?L"
    using reg(2) bitmap_set_word(2) [OF "1.prems"(1)] lim(2)
    by (auto simp: bitmap_updated_def intro: le_less_trans [rotated])
  show ?case
  proof (cases "w AND msk = 0")
    case False
    then have "AllocateAny_take bread vcb e b p w msk = (noErr, ?L, b)"
      by (subst AllocateAny_take.simps) (simp add: put)
    with False reg(1) "1.prems"(4) wfL show ?thesis
      by (auto simp: run_taken_def bitmap_updated_refl)
  next
    case free: True
    then have nused: "\<not> block_used ?L b" using reg(1) by simp
    have "run_taken ?L1 e (Suc b) (AllocateAny_take bread vcb e b p w msk)"
    proof (cases "Suc b = e")
      case True
      with free have "AllocateAny_take bread vcb e b p w msk = (noErr, ?L1, Suc b)"
        using suc by (subst AllocateAny_take.simps) (simp add: put)
      with True wf1 show ?thesis
        by (auto simp: run_taken_def bitmap_updated_refl)
    next
      case False
      with "1.prems"(4) have less: "Suc b < e" by simp
      have neq: "\<not> u32_eq (u32_add b 1) e" using suc False by simp
      show ?thesis
      proof (cases "Suc b mod 32 = 0")
        case inside: False
        have "AllocateAny_take bread vcb e b p w msk =
            AllocateAny_take bread vcb e (Suc b) p (w OR msk) (drop_bit 1 msk)"
          using free neq suc inside shift(1) by (subst AllocateAny_take.simps) simp
        moreover have "with_register vcb (Suc b) (w OR msk) = ?L1"
          using Suc_in_word(1) [OF inside] by simp
        moreover note "1.IH"(2) [OF free refl refl neq refl]
        ultimately show ?thesis
          using "1.prems" less shift inside suc by simp
      next
        case last: True
        have "bread (bitmap_block_ref ?L1 (Suc b div bitsPerBlock ?L1)) = noErr" "Suc b < 2 ^ 32"
          using "1.prems"(2) less lim(1) by (auto simp: readable_to_def bitmap_set_def bitmap_frame)
        then obtain p' where p': "next_block_word bread ?L1 (Suc b) p = Inr p'"
          "mask_at ?L1 (Suc b) p' kHighBitInWordMask"
          using next_block_word_at [OF wf1 _ last, of p msk bread] "1.prems"(5)
          by (auto simp: bitmap_set_frame)
        have w': "SWAP_BE32 (bitmap_get ?L1 p') = word_at ?L1 (Suc b)"
          using mask_at_word(1) [OF wf1 p'(2)] by (simp add: word_at_def)
        have "AllocateAny_take bread vcb e b p w msk =
            AllocateAny_take bread ?L1 e (Suc b) p' (word_at ?L1 (Suc b)) kHighBitInWordMask"
          using free neq suc last shift(1) p'(1) w' by (subst AllocateAny_take.simps) (simp add: put Let_def)
        moreover have "with_register ?L1 (Suc b) (word_at ?L1 (Suc b)) = ?L1"
          by (simp add: word_at_def)
        moreover note "1.IH"(1) [OF free refl refl neq refl _ refl, of p']
        ultimately show ?thesis
          using "1.prems" less shift last suc p' wf1 mask_at_word(1) [OF wf1 p'(2)]
          by (simp add: put bitmap_set_frame word_at_def)
      qed
    qed
    with run_taken_step [OF nused reg(2)] show ?thesis by simp
  qed
qed

section \<open>What \<open>BlockAllocateAny\<close> returns\<close>

definition first_run_taken ::
  "ExtendedVCB \<Rightarrow> nat \<Rightarrow> nat \<Rightarrow> nat \<Rightarrow> OSErr \<times> ExtendedVCB \<times> nat \<times> nat \<Rightarrow> bool" where
  "first_run_taken vcb s e n r \<longleftrightarrow>
     (if \<forall>x. s \<le> x \<and> x < e \<longrightarrow> block_used vcb x then r = (dskFulErr, vcb, 0, 0)
      else \<exists>vcb' f k. r = (noErr, vcb', f, k) \<and> s \<le> f \<and> 0 < k \<and> k \<le> n \<and> f + k \<le> e \<and>
             (\<forall>x. s \<le> x \<and> x < f \<longrightarrow> block_used vcb x) \<and>
             (\<forall>x. f \<le> x \<and> x < f + k \<longrightarrow> \<not> block_used vcb x) \<and>
             (k = n \<or> f + k = e \<or> block_used vcb (f + k)) \<and>
             bitmap_updated vcb vcb' f k True)"

lemma readable_to_bitmap:
  assumes "bitmap_readable bread vcb" "e \<le> totalBlocks vcb"
    and "e = totalBlocks vcb \<longrightarrow> bread (bitmap_block_ref vcb (e div bitsPerBlock vcb)) = noErr"
  shows "readable_to bread vcb e"
proof -
  have "bread (bitmap_block_ref vcb (b div bitsPerBlock vcb)) = noErr" if "b < totalBlocks vcb" for b
  proof -
    have "b div bitsPerBlock vcb * bitsPerBlock vcb < totalBlocks vcb"
      using that by (rule le_less_trans [rotated]) simp
    with assms(1) show ?thesis unfolding bitmap_readable_def by blast
  qed
  note inside = this
  have "bread (bitmap_block_ref vcb (b div bitsPerBlock vcb)) = noErr" if "b \<le> e" for b
  proof (cases "b < totalBlocks vcb")
    case False
    with that assms(2) have "b = e" "e = totalBlocks vcb" by auto
    with assms(3) show ?thesis by blast
  qed (rule inside)
  then show ?thesis by (simp only: readable_to_def) blast
qed

lemma AllocateAny_start:
  assumes "bitmap_wf vcb" "readable_to bread vcb e" "s \<le> e" "s < 2 ^ 32"
  shows "\<exists>p. ReadBitmapBlock bread vcb s = Inr (blockRef p) \<and>
           bitmap_seek vcb s (blockRef p) = p \<and> mask_at vcb s p (drop_bit (s AND 31) kHighBitInWordMask)"
proof -
  let ?ref = "bitmap_block_ref vcb (s div bitsPerBlock vcb)"
  have "ReadBitmapBlock bread vcb s = Inr ?ref"
    using assms(2,3) by (simp add: readable_to_def ReadBitmapBlock_def bitsPerBlock_def [symmetric] Let_def)
  moreover have "blockRef (bitmap_seek vcb s ?ref) = ?ref"
    by (simp add: bitmap_seek_def Let_def)
  moreover have "s AND 31 = s mod 32"
    using take_bit_eq_mask [of 5 s] by (simp add: take_bit_eq_mod mask_eq_exp_minus_1)
  ultimately show ?thesis
    using bitmap_seek_at [OF assms(1,4) refl]
    by (intro exI [of _ "bitmap_seek vcb s ?ref"]) (auto simp: mask_at_def)
qed

lemma BlockAllocateAny_first_run:
  assumes "bitmap_wf vcb" "readable_to bread vcb e" "s \<le> e" "e \<le> totalBlocks vcb" "0 < n"
  shows "first_run_taken vcb s e n (BlockAllocateAny bread vcb s e n)"
proof -
  have e: "e < 2 ^ 32" using assms(1,4) by (simp add: bitmap_wf_def)
  define m where "m = (if n > u32_sub e s then u32_sub e s else n)"
  have m: "m = min n (e - s)" using assms(3) e by (auto simp: m_def)
  obtain p where p: "ReadBitmapBlock bread vcb s = Inr (blockRef p)"
    "bitmap_seek vcb s (blockRef p) = p"
    and at: "mask_at vcb s p (drop_bit (s AND 31) kHighBitInWordMask)"
    using AllocateAny_start [OF assms(1-3)] assms(3) e by auto
  have w: "SWAP_BE32 (bitmap_get vcb p) = word_at vcb s"
    using mask_at_word(1) [OF assms(1) at] by (simp add: word_at_def)
  obtain f p' msk' where find: "AllocateAny_find bread vcb e s p (word_at vcb s)
      (drop_bit (s AND 31) kHighBitInWordMask) = Inr (f, p', word_at vcb f, msk')"
    and f: "s \<le> f" "f \<le> e" and before: "\<forall>x. s \<le> x \<and> x < f \<longrightarrow> block_used vcb x"
    and free: "f < e \<longrightarrow> \<not> block_used vcb f" and at': "mask_at vcb f p' msk'"
    using AllocateAny_find_first [OF assms(1,2) e assms(3) at refl] by blast
  show ?thesis
  proof (cases "f = e")
    case True
    with before p w find show ?thesis
      by (simp add: first_run_taken_def BlockAllocateAny_def Let_def)
  next
    case False
    define e' where "e' = (if f < u32_sub e m then u32_add f m else e)"
    have m0: "0 < m" "m \<le> e" using m False f assms(5) by auto
    then have e': "f < e'" "e' \<le> e" "e' \<le> f + m" "e' = f + m \<or> e' = e"
      using f False e by (auto simp: e'_def)
    have "run_taken (with_register vcb f (word_at vcb f)) e' f
        (AllocateAny_take bread vcb e' f p' (word_at vcb f) msk')"
      using AllocateAny_take_run [OF assms(1) _ _ e'(1) at'] assms(2,4) e'(2)
      by (simp add: readable_to_def)
    then obtain vcb' b' where take: "AllocateAny_take bread vcb e' f p' (word_at vcb f) msk' = (noErr, vcb', b')"
      and b': "f \<le> b'" "b' \<le> e'" and run: "\<forall>x. f \<le> x \<and> x < b' \<longrightarrow> \<not> block_used vcb x"
      and stop: "b' < e' \<longrightarrow> block_used vcb b'" and upd: "bitmap_updated vcb vcb' f (b' - f) True"
      by (auto simp: run_taken_def word_at_def)
    have "BlockAllocateAny bread vcb s e n = (noErr, vcb', f, b' - f)"
      using p w find False take b' e'(2) e
      by (simp add: BlockAllocateAny_def m_def [symmetric] e'_def [symmetric] Let_def)
    moreover have "f < b'" using free False f stop b' e'(1) by (cases "b' = f") auto
    moreover have "b' - f \<le> n" "b' - f = n \<or> b' = e \<or> block_used vcb b'"
      using b' e' m stop f by (auto simp: min_def split: if_splits)
    ultimately show ?thesis
      unfolding first_run_taken_def using f before free False run upd b' e'(2)
      by auto
  qed
qed

text \<open>
  The first loop moves on before it looks at \<^verbatim>\<open>endingBlock\<close>. When the volume ends
  where a bitmap block ends, the search that finds nothing asks for a bitmap
  block past the last one.
\<close>

lemma next_block_word_past_end:
  assumes "bitmap_wf vcb" "mask_at vcb b p msk" "Suc b mod bitsPerBlock vcb = 0"
    and "bread (bitmap_block_ref vcb (Suc b div bitsPerBlock vcb)) \<noteq> noErr"
  shows "next_block_word bread vcb (Suc b) p = Inl (bread (bitmap_block_ref vcb (Suc b div bitsPerBlock vcb)))"
proof -
  let ?n = "wordsPerBlock vcb" and ?bits = "bitsPerBlock vcb"
  note geo = bitmap_geometry [OF assms(1)]
  obtain s where at: "bitmap_at vcb (b div 32) s p" and left: "wordsLeft p > 0"
    using assms(2) by (auto simp: mask_at_def)
  have "32 dvd Suc b" using assms(3) geo(2) by (metis dvd_mult_left mod_eq_0_iff_dvd)
  then have w: "Suc b div 32 = Suc (b div 32)" using Suc_in_word(2) [of b] by auto
  have "?n dvd Suc b div 32"
    using assms(3) geo(2) \<open>32 dvd Suc b\<close> by (metis dvd_div_iff_mult mod_eq_0_iff_dvd mult.commute zero_neq_numeral)
  then have "?n dvd s div ?bits * ?n + Suc (wordIndex p)"
    using at w by (simp add: bitmap_at_def)
  then have "?n dvd Suc (wordIndex p)" by (metis dvd_add_right_iff dvd_triv_right)
  then have "?n \<le> Suc (wordIndex p)" by (rule dvd_imp_le) simp
  then have "wordsLeft (bitmap_next p) = 0"
    using at left by (auto simp: bitmap_at_def bitmap_next_def)
  with assms(4) show ?thesis
    by (simp add: next_block_word_def ReadBitmapBlock_def bitsPerBlock_def [symmetric] Let_def)
qed

lemma AllocateAny_find_past_end:
  assumes "bitmap_wf vcb" "\<forall>x < e. bread (bitmap_block_ref vcb (x div bitsPerBlock vcb)) = noErr"
    and "e < 2 ^ 32" "b < e" "mask_at vcb b p msk" "w = word_at vcb b"
    and "\<forall>x. b \<le> x \<and> x < e \<longrightarrow> block_used vcb x" "e mod bitsPerBlock vcb = 0"
    and "bread (bitmap_block_ref vcb (e div bitsPerBlock vcb)) \<noteq> noErr"
  shows "AllocateAny_find bread vcb e b p w msk = Inl (bread (bitmap_block_ref vcb (e div bitsPerBlock vcb)))"
  using assms
proof (induction bread vcb e b p w msk rule: AllocateAny_find.induct)
  case (1 bread vcb e b p w msk)
  note test = mask_at_test [OF "1.prems"(5), folded "1.prems"(6)]
  note shift = mask_at_shift [OF "1.prems"(5)]
  have guard: "b < e \<and> w AND msk \<noteq> 0" using test "1.prems"(4,7) by simp
  show ?case
  proof (cases "Suc b mod 32 = 0")
    case False
    have "Suc b \<noteq> e"
      using False "1.prems"(8) bitmap_geometry(2) [OF "1.prems"(1)]
      by (metis dvd_mult_left mod_eq_0_iff_dvd)
    moreover have "w = word_at vcb (Suc b)"
      using "1.prems"(6) Suc_in_word(1) [OF False] by (simp add: word_at_def)
    moreover have "AllocateAny_find bread vcb e b p w msk =
        AllocateAny_find bread vcb e (Suc b) p w (drop_bit 1 msk)"
      using guard shift(1) False by (subst AllocateAny_find.simps) simp
    ultimately show ?thesis
      using "1.IH"(2) [OF guard refl refl] False shift "1.prems" by simp
  next
    case last: True
    show ?thesis
    proof (cases "Suc b = e")
      case True
      then show ?thesis
        using guard shift(1) last next_block_word_past_end [OF "1.prems"(1,5)] "1.prems"(8,9)
        by (subst AllocateAny_find.simps) simp
    next
      case False
      then have "bread (bitmap_block_ref vcb (Suc b div bitsPerBlock vcb)) = noErr" "Suc b < 2 ^ 32"
        using "1.prems"(2,3,4) by auto
      then obtain p' where p': "next_block_word bread vcb (Suc b) p = Inr p'"
        "mask_at vcb (Suc b) p' kHighBitInWordMask"
        using next_block_word_at [OF "1.prems"(1,5) last] by blast
      have "SWAP_BE32 (bitmap_get vcb p') = word_at vcb (Suc b)"
        using mask_at_word(1) [OF "1.prems"(1) p'(2)] by (simp add: word_at_def)
      moreover from this have "AllocateAny_find bread vcb e b p w msk =
          AllocateAny_find bread vcb e (Suc b) p' (word_at vcb (Suc b)) kHighBitInWordMask"
        using guard shift(1) last p'(1) by (subst AllocateAny_find.simps) simp
      ultimately show ?thesis
        using "1.IH"(1) [OF guard refl refl _ _, of p'] p' last shift "1.prems" False by simp
    qed
  qed
qed

section \<open>The properties of \<open>BlockAllocateAny\<close>\<close>

text \<open>
  C14: \<^verbatim>\<open>BlockAllocateAny\<close> over the blocks from \<open>s\<close> to \<open>e - 1\<close> fails with
  \<^verbatim>\<open>dskFulErr\<close>, leaving the volume as it was, exactly when they are all in use.
  Otherwise it takes the first free block and the free blocks after it up to
  the maximum, marks exactly those, and returns where they start and how many
  there are. (Up to the end of the volume this needs the bitmap block of that
  first block outside the volume to be readable.)
\<close>

theorem BlockAllocateAny_takes_first_run:
  assumes "bitmap_wf vcb" "bitmap_readable bread vcb" "s \<le> e" "e \<le> totalBlocks vcb" "0 < n"
    and "e = totalBlocks vcb \<longrightarrow> bread (bitmap_block_ref vcb (e div bitsPerBlock vcb)) = noErr"
  shows "if \<forall>x. s \<le> x \<and> x < e \<longrightarrow> block_used vcb x
         then BlockAllocateAny bread vcb s e n = (dskFulErr, vcb, 0, 0)
         else \<exists>vcb' f k. BlockAllocateAny bread vcb s e n = (noErr, vcb', f, k) \<and>
                s \<le> f \<and> 0 < k \<and> k \<le> n \<and> f + k \<le> e \<and>
                (\<forall>x. s \<le> x \<and> x < f \<longrightarrow> block_used vcb x) \<and>
                (\<forall>x. f \<le> x \<and> x < f + k \<longrightarrow> \<not> block_used vcb x) \<and>
                (k = n \<or> f + k = e \<or> block_used vcb (f + k)) \<and>
                (\<exists>bufs. vcb' = vcb\<lparr>vcb_buffers := bufs\<rparr>) \<and>
                (\<forall>x. block_used vcb' x \<longleftrightarrow> f \<le> x \<and> x < f + k \<or> block_used vcb x)"
proof -
  have "readable_to bread vcb e"
    using assms(2,4,6) by (rule readable_to_bitmap)
  from BlockAllocateAny_first_run [OF assms(1) this assms(3,4,5)]
  have *: "first_run_taken vcb s e n (BlockAllocateAny bread vcb s e n)" .
  show ?thesis
  proof (cases "\<forall>x. s \<le> x \<and> x < e \<longrightarrow> block_used vcb x")
    case True
    with * show ?thesis by (simp add: first_run_taken_def)
  next
    case False
    with * obtain vcb' f k where "BlockAllocateAny bread vcb s e n = (noErr, vcb', f, k)"
      "s \<le> f" "0 < k" "k \<le> n" "f + k \<le> e" "\<forall>x. s \<le> x \<and> x < f \<longrightarrow> block_used vcb x"
      "\<forall>x. f \<le> x \<and> x < f + k \<longrightarrow> \<not> block_used vcb x" "k = n \<or> f + k = e \<or> block_used vcb (f + k)"
      "bitmap_updated vcb vcb' f k True"
      unfolding first_run_taken_def by (simp only: if_False) blast
    moreover from this(9) have "\<exists>bufs. vcb' = vcb\<lparr>vcb_buffers := bufs\<rparr>"
      "\<forall>x. block_used vcb' x \<longleftrightarrow> f \<le> x \<and> x < f + k \<or> block_used vcb x"
      unfolding bitmap_updated_def by auto
    ultimately show ?thesis using False by (simp only: if_False) blast
  qed
qed

theorem BlockAllocateAny_takes_first_run_witness:
  "\<exists>vcb' f k. BlockAllocateAny (\<lambda>_. noErr) small_volume 30 60 5 = (noErr, vcb', f, k) \<and> 30 \<le> f"
  using BlockAllocateAny_takes_first_run [of small_volume "\<lambda>_. noErr" 30 60 5]
  by (auto simp: small_volume_wf split: if_splits)

text \<open>
  C17: when every block from \<open>s\<close> to the end of the volume is in use and the
  volume ends exactly where a bitmap block ends, \<^verbatim>\<open>BlockAllocateAny\<close> asks for the
  bitmap block that would come next, and returns the error of that read instead
  of \<^verbatim>\<open>dskFulErr\<close>.
\<close>

theorem BlockAllocateAny_reads_past_bitmap:
  assumes "bitmap_wf vcb" "bitmap_readable bread vcb" "s < totalBlocks vcb"
    and "\<forall>x. s \<le> x \<and> x < totalBlocks vcb \<longrightarrow> block_used vcb x"
    and "totalBlocks vcb mod bitsPerBlock vcb = 0"
    and "bread (bitmap_block_ref vcb (totalBlocks vcb div bitsPerBlock vcb)) = err" "err \<noteq> noErr"
  shows "BlockAllocateAny bread vcb s (totalBlocks vcb) n = (err, vcb, 0, 0)"
proof -
  let ?e = "totalBlocks vcb"
  have e: "?e < 2 ^ 32" using assms(1) by (simp add: bitmap_wf_def)
  have "readable_to bread vcb (?e - 1)"
    using assms(2,3) by (intro readable_to_bitmap) auto
  then have readable: "\<forall>x < ?e. bread (bitmap_block_ref vcb (x div bitsPerBlock vcb)) = noErr"
    and start: "readable_to bread vcb s"
    using assms(3) by (simp_all add: readable_to_def)
  obtain p where p: "ReadBitmapBlock bread vcb s = Inr (blockRef p)"
    "bitmap_seek vcb s (blockRef p) = p"
    and at: "mask_at vcb s p (drop_bit (s AND 31) kHighBitInWordMask)"
    using AllocateAny_start [OF assms(1) start order_refl] assms(3) e by auto
  have w: "SWAP_BE32 (bitmap_get vcb p) = word_at vcb s"
    using mask_at_word(1) [OF assms(1) at] by (simp add: word_at_def)
  have "AllocateAny_find bread vcb ?e s p (word_at vcb s) (drop_bit (s AND 31) kHighBitInWordMask) = Inl err"
    using AllocateAny_find_past_end [OF assms(1) readable e assms(3) at refl assms(4,5)] assms(6,7)
    by simp
  with p w show ?thesis by (simp add: BlockAllocateAny_def Let_def)
qed

theorem BlockAllocateAny_reads_past_bitmap_witness:
  "\<exists>vcb bread. BlockAllocateAny bread vcb 10 (totalBlocks vcb) 1 = (5, vcb, 0, 0)"
proof -
  let ?vcb = "small_volume\<lparr>vcb_buffers := (\<lambda>_ _. [- 1])\<rparr>"
  let ?bread = "\<lambda>ref. if snd ref < 2 then noErr else 5"
  have "SWAP_BE32 (- 1) = - 1" using bswap32_not [of 0] by simp
  then have "\<forall>x. block_used ?vcb x"
    by (simp add: block_used_def bitmap_word_def small_volume_def wordsPerBlock_def Let_def
        less_imp_diff_less)
  moreover have "bitmap_wf ?vcb"
    using small_volume_wf(1)
    by (simp add: bitmap_wf_def small_volume_def bitsPerBlock_def wordsPerBlock_def bitmap_block_ref_def Let_def)
  moreover have "bitmap_readable ?bread ?vcb"
    by (auto simp: bitmap_readable_def small_volume_def bitsPerBlock_def bitmap_block_ref_def)
  ultimately have "BlockAllocateAny ?bread ?vcb 10 (totalBlocks ?vcb) 1 = (5, ?vcb, 0, 0)"
    by (intro BlockAllocateAny_reads_past_bitmap)
       (simp_all add: small_volume_def bitsPerBlock_def bitmap_block_ref_def noErr_def)
  then show ?thesis by blast
qed

end
