(* ===== verification/FreeExtCache.thy ===== *)
theory FreeExtCache
  imports VolBitmap
begin

text \<open>
  The cache of the largest known free extents in the volume control block
  (\<^verbatim>\<open>vcbFreeExtCnt\<close>, \<^verbatim>\<open>vcbFreeExt\<close>): the insertion at the end of a round of
  \<^verbatim>\<open>BlockFindContiguous\<close> and the removal at the start of \<^verbatim>\<open>BlockAllocateKnown\<close>, both in
  \<^verbatim>\<open>src/hfsplus/hfscommon/Misc/VolumeAllocation.c\<close>.

  Both work by moving array entries one place up or down. The lemmas give each
  as an operation on the list of the valid entries, and show that the cache
  stays ordered by size and that its extents stay disjoint and non-empty.
\<close>

section \<open>The operations\<close>

fun bubble_down :: "HFSPlusExtentDescriptor list \<Rightarrow> nat \<Rightarrow> nat \<Rightarrow> HFSPlusExtentDescriptor list \<times> nat" where
  "bubble_down exts 0 foundBlocks = (exts, 0)"
| "bubble_down exts (Suc t) foundBlocks =
     (if blockCount (exts ! t) < foundBlocks
      then bubble_down (exts[Suc t := exts ! t]) t foundBlocks
      else (exts, Suc t))"

definition FreeExt_insert :: "ExtendedVCB \<Rightarrow> nat \<Rightarrow> nat \<Rightarrow> ExtendedVCB" where
  "FreeExt_insert vcb firstBlock foundBlocks =
     (let tempWord = vcbFreeExtCnt vcb;
          tempWord =
            (if tempWord = kMaxFreeExtents \<and>
                blockCount (vcbFreeExt vcb ! (kMaxFreeExtents - 1)) < foundBlocks
             then tempWord - 1 else tempWord)
      in if tempWord < kMaxFreeExtents then
           (let (exts, tempWord) = bubble_down (vcbFreeExt vcb) tempWord foundBlocks
            in vcb\<lparr>vcbFreeExt :=
                     exts[tempWord := \<lparr>startBlock = firstBlock, blockCount = foundBlocks\<rparr>],
                   vcbFreeExtCnt :=
                     (if vcbFreeExtCnt vcb < kMaxFreeExtents then vcbFreeExtCnt vcb + 1
                      else vcbFreeExtCnt vcb)\<rparr>)
         else vcb)"

function bubble_up ::
  "HFSPlusExtentDescriptor list \<Rightarrow> nat \<Rightarrow> nat \<Rightarrow> nat \<Rightarrow> HFSPlusExtentDescriptor list \<times> nat" where
  "bubble_up exts cnt newBlockCount i =
     (if i < cnt \<and> blockCount (exts ! i) > newBlockCount
      then bubble_up (exts[i - 1 := exts ! i]) cnt newBlockCount (i + 1)
      else (exts, i))"
  by pat_completeness auto
termination
  by (relation "measure (\<lambda>(exts, cnt, n, i). cnt - i)") auto

declare bubble_up.simps [simp del]

definition FreeExt_take :: "ExtendedVCB \<Rightarrow> nat \<Rightarrow> ExtendedVCB \<times> nat \<times> nat" where
  "FreeExt_take vcb maxBlocks =
     (let first = vcbFreeExt vcb ! 0;
          actualStartBlock = startBlock first;
          foundBlocks = (if blockCount first > maxBlocks then maxBlocks else blockCount first);
          newStartBlock = u32_add (startBlock first) foundBlocks;
          newBlockCount = blockCount first - foundBlocks;
          (exts, i) = bubble_up (vcbFreeExt vcb) (vcbFreeExtCnt vcb) newBlockCount 1;
          vcb' =
            (if i = vcbFreeExtCnt vcb
             then vcb\<lparr>vcbFreeExt := exts, vcbFreeExtCnt := vcbFreeExtCnt vcb - 1\<rparr>
             else vcb\<lparr>vcbFreeExt :=
                        exts[i - 1 := \<lparr>startBlock = newStartBlock, blockCount = newBlockCount\<rparr>]\<rparr>)
      in (vcb', actualStartBlock, foundBlocks))"

section \<open>The cache as a list of extents\<close>

definition free_exts :: "ExtendedVCB \<Rightarrow> HFSPlusExtentDescriptor list" where
  "free_exts vcb = take (vcbFreeExtCnt vcb) (vcbFreeExt vcb)"

definition ext_blocks :: "HFSPlusExtentDescriptor \<Rightarrow> nat set" where
  "ext_blocks x = {startBlock x ..< startBlock x + blockCount x}"

definition ext_before :: "HFSPlusExtentDescriptor \<Rightarrow> HFSPlusExtentDescriptor \<Rightarrow> bool" where
  "ext_before x y \<longleftrightarrow> blockCount y \<le> blockCount x \<and> ext_blocks x \<inter> ext_blocks y = {}"

text \<open>Largest first, pairwise disjoint, none empty.\<close>

definition cache_wf :: "ExtendedVCB \<Rightarrow> bool" where
  "cache_wf vcb \<longleftrightarrow>
     vcbFreeExtCnt vcb \<le> kMaxFreeExtents \<and> length (vcbFreeExt vcb) = kMaxFreeExtents \<and>
     sorted_wrt ext_before (free_exts vcb) \<and> (\<forall>x \<in> set (free_exts vcb). 0 < blockCount x)"

lemma bubble_down_shift:
  assumes "t < length exts"
  shows "\<exists>k \<le> t. bubble_down exts t n =
           (take k exts @ exts ! k # drop k (take t exts) @ drop (Suc t) exts, k) \<and>
           (\<forall>x \<in> set (drop k (take t exts)). blockCount x < n) \<and>
           (0 < k \<longrightarrow> n \<le> blockCount (exts ! (k - 1)))"
  using assms
proof (induction t arbitrary: exts)
  case 0
  then show ?case by (cases exts) auto
next
  case (Suc t)
  show ?case
  proof (cases "blockCount (exts ! t) < n")
    case False
    then show ?thesis
      using Suc.prems by (intro exI [of _ "Suc t"]) (auto simp: id_take_nth_drop)
  next
    case True
    let ?xs = "exts[Suc t := exts ! t]"
    obtain k where k: "k \<le> t" and eq: "bubble_down ?xs t n =
        (take k ?xs @ ?xs ! k # drop k (take t ?xs) @ drop (Suc t) ?xs, k)"
      and small: "\<forall>x \<in> set (drop k (take t ?xs)). blockCount x < n"
      and big: "0 < k \<longrightarrow> n \<le> blockCount (?xs ! (k - 1))"
      using Suc.IH [of ?xs] Suc.prems by auto
    have "drop (Suc t) ?xs = exts ! t # drop (Suc (Suc t)) exts"
      using Suc.prems by (simp add: drop_update_swap Cons_nth_drop_Suc [symmetric])
    moreover have "drop k (take (Suc t) exts) = drop k (take t exts) @ [exts ! t]"
      using k Suc.prems by (simp add: take_Suc_conv_app_nth)
    ultimately show ?thesis
      using eq small big k True Suc.prems by (intro exI [of _ k]) auto
  qed
qed

text \<open>
  Insertion puts the new extent between those at least as large and those
  smaller, dropping the last of a full cache, or leaves a full cache alone.
\<close>

lemma FreeExt_insert_exts:
  assumes "cache_wf vcb"
  obtains xs ys where "free_exts (FreeExt_insert vcb f n) = xs @ \<lparr>startBlock = f, blockCount = n\<rparr> # ys"
      and "\<exists>zs. free_exts vcb = xs @ ys @ zs"
      and "xs \<noteq> [] \<longrightarrow> n \<le> blockCount (last xs)" "\<forall>y \<in> set ys. blockCount y < n"
      and "length (vcbFreeExt (FreeExt_insert vcb f n)) = kMaxFreeExtents"
      and "vcbFreeExtCnt (FreeExt_insert vcb f n) \<le> kMaxFreeExtents"
  | "FreeExt_insert vcb f n = vcb"
proof -
  let ?exts = "vcbFreeExt vcb" and ?cnt = "vcbFreeExtCnt vcb"
  define t where "t = (if ?cnt = kMaxFreeExtents \<and> blockCount (?exts ! (kMaxFreeExtents - 1)) < n
    then ?cnt - 1 else ?cnt)"
  have cnt: "?cnt \<le> kMaxFreeExtents" "length ?exts = kMaxFreeExtents" "t \<le> ?cnt"
    using assms by (auto simp: cache_wf_def t_def)
  show ?thesis
  proof (cases "t < kMaxFreeExtents")
    case False
    then have "FreeExt_insert vcb f n = vcb"
      unfolding FreeExt_insert_def Let_def t_def [symmetric] by simp
    then show ?thesis by (rule that(2))
  next
    case True
    with cnt obtain k where k: "k \<le> t" and eq: "bubble_down ?exts t n =
        (take k ?exts @ ?exts ! k # drop k (take t ?exts) @ drop (Suc t) ?exts, k)"
      and small: "\<forall>x \<in> set (drop k (take t ?exts)). blockCount x < n"
      and big: "0 < k \<longrightarrow> n \<le> blockCount (?exts ! (k - 1))"
      using bubble_down_shift [of t ?exts n] by auto
    define new where "new = \<lparr>startBlock = f, blockCount = n\<rparr>"
    define cnt' where "cnt' = (if ?cnt < kMaxFreeExtents then ?cnt + 1 else ?cnt)"
    let ?xs = "take k ?exts" and ?ys = "drop k (take t ?exts)"
    have klen: "length ?xs = k" using k True cnt by simp
    have ins: "FreeExt_insert vcb f n =
        vcb\<lparr>vcbFreeExt := ?xs @ new # ?ys @ drop (Suc t) ?exts, vcbFreeExtCnt := cnt'\<rparr>"
      unfolding FreeExt_insert_def Let_def t_def [symmetric]
      using True klen by (simp add: eq list_update_append new_def cnt'_def)
    have cnt': "cnt' = Suc t"
      using True cnt by (auto simp: cnt'_def t_def kMaxFreeExtents_def split: if_splits)
    have len: "length (?xs @ new # ?ys) = Suc t"
      using k True cnt by simp
    have "take (Suc t) ((?xs @ new # ?ys) @ drop (Suc t) ?exts) = ?xs @ new # ?ys"
      using len by (metis append_eq_conv_conj)
    then have fe: "free_exts (FreeExt_insert vcb f n) = ?xs @ new # ?ys"
      unfolding ins by (simp add: free_exts_def cnt')
    have "take k ?exts = take k (take t ?exts)" using k by simp
    then have "?xs @ ?ys = take t ?exts" by (metis append_take_drop_id)
    moreover have "free_exts vcb = take t ?exts @ drop t (take ?cnt ?exts)"
      using cnt(3) by (simp add: free_exts_def) (metis append_take_drop_id min.absorb1 take_take)
    ultimately have "\<exists>zs. free_exts vcb = ?xs @ ?ys @ zs" by (metis append_assoc)
    moreover have "?xs \<noteq> [] \<longrightarrow> n \<le> blockCount (last ?xs)"
      using big klen cnt k True by (auto simp: last_conv_nth)
    moreover have "length (vcbFreeExt (FreeExt_insert vcb f n)) = kMaxFreeExtents"
      using k True cnt by (simp add: ins)
    moreover have "vcbFreeExtCnt (FreeExt_insert vcb f n) \<le> kMaxFreeExtents"
      using True cnt' by (simp add: ins)
    ultimately show ?thesis
      using that(1) [of ?xs ?ys] fe small unfolding new_def by blast
  qed
qed

lemma FreeExt_insert_wf:
  assumes "cache_wf vcb" "0 < n" "\<forall>x \<in> set (free_exts vcb). ext_blocks x \<inter> {f ..< f + n} = {}"
  shows "cache_wf (FreeExt_insert vcb f n)"
    and "set (free_exts (FreeExt_insert vcb f n)) \<subseteq>
           insert \<lparr>startBlock = f, blockCount = n\<rparr> (set (free_exts vcb))"
proof -
  let ?new = "\<lparr>startBlock = f, blockCount = n\<rparr>"
  have "cache_wf (FreeExt_insert vcb f n) \<and>
      set (free_exts (FreeExt_insert vcb f n)) \<subseteq> insert ?new (set (free_exts vcb))"
  proof (rule FreeExt_insert_exts [OF assms(1), of f n])
    fix xs ys
    assume new: "free_exts (FreeExt_insert vcb f n) = xs @ ?new # ys"
      and old: "\<exists>zs. free_exts vcb = xs @ ys @ zs"
      and big: "xs \<noteq> [] \<longrightarrow> n \<le> blockCount (last xs)" and small: "\<forall>y \<in> set ys. blockCount y < n"
      and len: "length (vcbFreeExt (FreeExt_insert vcb f n)) = kMaxFreeExtents"
        "vcbFreeExtCnt (FreeExt_insert vcb f n) \<le> kMaxFreeExtents"
    from old obtain zs where old: "free_exts vcb = xs @ ys @ zs" by blast
    have sorted: "sorted_wrt ext_before (xs @ ys @ zs)" and pos: "\<forall>x \<in> set (xs @ ys @ zs). 0 < blockCount x"
      using assms(1) old by (auto simp: cache_wf_def)
    have "n \<le> blockCount x" if "x \<in> set xs" for x
    proof (cases xs rule: rev_cases)
      case (snoc us u)
      with big sorted that show ?thesis
        by (auto simp: sorted_wrt_append ext_before_def intro: order_trans)
    qed (use that in simp)
    moreover have "ext_blocks ?new = {f ..< f + n}" by (simp add: ext_blocks_def)
    ultimately have "sorted_wrt ext_before (xs @ ?new # ys)"
      using sorted assms(3) small old
      by (auto simp: sorted_wrt_append ext_before_def Int_commute less_imp_le)
    then show ?thesis
      using new old len pos assms(2) by (auto simp: cache_wf_def)
  qed (use assms(1) in auto)
  then show "cache_wf (FreeExt_insert vcb f n)"
    and "set (free_exts (FreeExt_insert vcb f n)) \<subseteq> insert ?new (set (free_exts vcb))"
    by blast+
qed

lemma bubble_up_shift:
  assumes "0 < i" "i \<le> cnt" "cnt \<le> length exts"
  shows "\<exists>j \<ge> i. j \<le> cnt \<and> bubble_up exts cnt n i =
           (take (i - 1) exts @ drop i (take j exts) @ exts ! (j - 1) # drop j exts, j) \<and>
           (\<forall>x \<in> set (drop i (take j exts)). n < blockCount x) \<and>
           (j < cnt \<longrightarrow> blockCount (exts ! j) \<le> n)"
  using assms
proof (induction exts cnt n i rule: bubble_up.induct)
  case (1 exts cnt n i)
  show ?case
  proof (cases "i < cnt \<and> blockCount (exts ! i) > n")
    case False
    have "exts = take (i - 1) exts @ exts ! (i - 1) # drop i exts"
      using id_take_nth_drop [of "i - 1" exts] "1.prems" by simp
    moreover have "i < cnt \<longrightarrow> blockCount (exts ! i) \<le> n" using False by auto
    moreover have "bubble_up exts cnt n i = (exts, i)" using False by (subst bubble_up.simps) (simp only: if_False)
    ultimately show ?thesis
      using "1.prems" by (intro exI [of _ i]) simp
  next
    case True
    let ?xs = "exts[i - 1 := exts ! i]"
    obtain j where j: "i + 1 \<le> j" "j \<le> cnt" and eq: "bubble_up ?xs cnt n (i + 1) =
        (take i ?xs @ drop (i + 1) (take j ?xs) @ ?xs ! (j - 1) # drop j ?xs, j)"
      and big: "\<forall>x \<in> set (drop (i + 1) (take j ?xs)). n < blockCount x"
      and small: "j < cnt \<longrightarrow> blockCount (?xs ! j) \<le> n"
      using "1.IH" [OF True] "1.prems" True by auto
    have "i - 1 < length exts" using "1.prems" True by linarith
    then have "take i ?xs = take (i - 1) exts @ [exts ! i]"
      using "1.prems" True take_Suc_conv_app_nth [of "i - 1" ?xs] by simp
    moreover have "drop i (take j exts) = exts ! i # drop (i + 1) (take j exts)"
      using j "1.prems" by (simp add: Cons_nth_drop_Suc [symmetric])
    moreover have "drop (i + 1) (take j ?xs) = drop (i + 1) (take j exts)"
      using "1.prems" by (simp add: take_update_swap)
    moreover have "?xs ! (j - 1) = exts ! (j - 1)" "drop j ?xs = drop j exts" "?xs ! j = exts ! j"
      using j "1.prems" by auto
    moreover have "bubble_up exts cnt n i = bubble_up ?xs cnt n (i + 1)"
      using True by (subst bubble_up.simps) simp
    ultimately show ?thesis
      using eq big small j True by (intro exI [of _ j]) auto
  qed
qed

text \<open>
  Taking from the first extent shrinks it and moves it behind the larger ones;
  when it would come last it is forgotten.
\<close>

lemma FreeExt_take_exts:
  assumes "cache_wf vcb" "free_exts vcb = c # rest"
    and "startBlock c + blockCount c < 2 ^ 32" "k = min n (blockCount c)"
  obtains vcb' as bs exts cnt where "FreeExt_take vcb n = (vcb', startBlock c, k)"
    and "vcb' = vcb\<lparr>vcbFreeExt := exts, vcbFreeExtCnt := cnt\<rparr>"
    and "length exts = kMaxFreeExtents" "cnt \<le> kMaxFreeExtents"
    and "rest = as @ bs" "bs \<noteq> [] \<longrightarrow> blockCount (hd bs) \<le> blockCount c - k"
    and "\<forall>a \<in> set as. blockCount c - k < blockCount a"
    and "free_exts vcb' =
           (if bs = [] then as
            else as @ \<lparr>startBlock = startBlock c + k, blockCount = blockCount c - k\<rparr> # bs)"
proof -
  let ?exts = "vcbFreeExt vcb" and ?cnt = "vcbFreeExtCnt vcb"
  have len: "length ?exts = kMaxFreeExtents" "?cnt \<le> kMaxFreeExtents"
    using assms(1) by (auto simp: cache_wf_def)
  have cnt: "0 < ?cnt"
    using assms(2) by (cases ?cnt) (auto simp: free_exts_def)
  then have c: "?exts ! 0 = c"
    using assms(2) by (metis free_exts_def nth_take nth_Cons_0)
  obtain j where j: "1 \<le> j" "j \<le> ?cnt" and eq: "bubble_up ?exts ?cnt (blockCount c - k) 1 =
      (drop 1 (take j ?exts) @ ?exts ! (j - 1) # drop j ?exts, j)"
    and big: "\<forall>x \<in> set (drop 1 (take j ?exts)). blockCount c - k < blockCount x"
    and small: "j < ?cnt \<longrightarrow> blockCount (?exts ! j) \<le> blockCount c - k"
    using bubble_up_shift [of 1 ?cnt ?exts "blockCount c - k"] cnt len by auto
  define new where "new = \<lparr>startBlock = startBlock c + k, blockCount = blockCount c - k\<rparr>"
  define as bs where "as = drop 1 (take j ?exts)" and "bs = drop j (free_exts vcb)"
  have lens: "length as = j - 1" "length bs = ?cnt - j"
    using j len by (auto simp: as_def bs_def free_exts_def)
  have "take j ?exts = take j (free_exts vcb)" using j by (simp add: free_exts_def)
  then have rest: "rest = as @ bs"
    using assms(2) j by (simp add: as_def bs_def) (cases j; simp)
  define exts where "exts = (if j = ?cnt then as @ ?exts ! (j - 1) # drop j ?exts
    else as @ new # drop j ?exts)"
  define cnt' where "cnt' = (if j = ?cnt then ?cnt - 1 else ?cnt)"
  let ?vcb = "vcb\<lparr>vcbFreeExt := exts, vcbFreeExtCnt := cnt'\<rparr>"
  have arith: "(if n < blockCount c then n else blockCount c) = k"
    "u32_add (startBlock c) k = startBlock c + k"
    using assms(3,4) by auto
  have take: "FreeExt_take vcb n = (?vcb, startBlock c, k)"
    using lens(1) j
    unfolding FreeExt_take_def Let_def c arith eq new_def [symmetric] as_def [symmetric]
    by (simp add: exts_def cnt'_def list_update_append)
  have "length exts = kMaxFreeExtents" "cnt' \<le> kMaxFreeExtents"
    using lens j len by (auto simp: exts_def cnt'_def)
  moreover have "bs \<noteq> [] \<longrightarrow> blockCount (hd bs) \<le> blockCount c - k"
    using small lens len by (auto simp: bs_def free_exts_def hd_drop_conv_nth)
  moreover have "free_exts ?vcb = (if bs = [] then as else as @ new # bs)"
  proof (cases "j = ?cnt")
    case True
    with lens show ?thesis by (simp add: free_exts_def exts_def cnt'_def)
  next
    case False
    with j have "?cnt - (j - 1) = Suc (?cnt - j)" "length bs \<noteq> 0" using lens by auto
    with False lens show ?thesis
      by (auto simp: free_exts_def exts_def cnt'_def bs_def drop_take)
  qed
  ultimately show ?thesis
    using that [OF take refl] rest big unfolding as_def [symmetric] new_def by blast
qed

lemma FreeExt_take_wf:
  assumes "cache_wf vcb" "free_exts vcb = c # rest" "startBlock c + blockCount c < 2 ^ 32"
    and "FreeExt_take vcb n = (vcb', s, k)"
  shows "s = startBlock c" "k = min n (blockCount c)" "cache_wf vcb'"
    and "\<exists>exts cnt. vcb' = vcb\<lparr>vcbFreeExt := exts, vcbFreeExtCnt := cnt\<rparr>"
    and "\<forall>x \<in> set (free_exts vcb'). ext_blocks x \<inter> {s ..< s + k} = {} \<and>
           (\<exists>y \<in> set (free_exts vcb). ext_blocks x \<subseteq> ext_blocks y)"
proof -
  let ?k = "min n (blockCount c)"
  let ?new = "\<lparr>startBlock = startBlock c + ?k, blockCount = blockCount c - ?k\<rparr>"
  obtain vcb1 as bs exts cnt where take: "FreeExt_take vcb n = (vcb1, startBlock c, ?k)"
    and vcb1: "vcb1 = vcb\<lparr>vcbFreeExt := exts, vcbFreeExtCnt := cnt\<rparr>"
    and len: "length exts = kMaxFreeExtents" "cnt \<le> kMaxFreeExtents"
    and rest: "rest = as @ bs" and hd: "bs \<noteq> [] \<longrightarrow> blockCount (hd bs) \<le> blockCount c - ?k"
    and as: "\<forall>a \<in> set as. blockCount c - ?k < blockCount a"
    and exts1: "free_exts vcb1 = (if bs = [] then as else as @ ?new # bs)"
    by (rule FreeExt_take_exts [OF assms(1-3) refl])
  have eqs: "s = startBlock c" "k = ?k" and "vcb1 = vcb'" using take assms(4) by auto
  note vcb' = vcb1 [unfolded \<open>vcb1 = vcb'\<close>] and exts = exts1 [unfolded \<open>vcb1 = vcb'\<close>]
  show "s = startBlock c" "k = ?k" by fact+
  show "\<exists>exts cnt. vcb' = vcb\<lparr>vcbFreeExt := exts, vcbFreeExtCnt := cnt\<rparr>" using vcb' by blast
  have old: "sorted_wrt ext_before (c # as @ bs)" and pos: "\<forall>x \<in> set (c # as @ bs). 0 < blockCount x"
    using assms(1,2) rest by (auto simp: cache_wf_def)
  have new: "ext_blocks ?new \<subseteq> ext_blocks c" "ext_blocks ?new \<inter> {s ..< s + k} = {}"
    and taken: "{s ..< s + k} \<subseteq> ext_blocks c"
    using eqs by (auto simp: ext_blocks_def)
  have disj: "ext_blocks c \<inter> ext_blocks x = {}" if "x \<in> set (as @ bs)" for x
    using old that by (simp add: ext_before_def)
  have small: "blockCount b \<le> blockCount ?new" if "b \<in> set bs" for b
  proof (cases bs)
    case (Cons b' bs')
    then have "blockCount b \<le> blockCount b'"
      using old that by (auto simp: sorted_wrt_append ext_before_def)
    with hd Cons show ?thesis by simp
  qed (use that in simp)
  have "ext_before a ?new" if "a \<in> set as" for a
    using disj [of a] new(1) as that by (auto simp: ext_before_def)
  moreover have "ext_before ?new b" if "b \<in> set bs" for b
    using disj [of b] new(1) small [OF that] that by (auto simp: ext_before_def)
  ultimately have "sorted_wrt ext_before (as @ ?new # bs)"
    using old by (simp add: sorted_wrt_append)
  moreover have "sorted_wrt ext_before as" using old by (simp add: sorted_wrt_append)
  moreover have "0 < blockCount ?new" if "bs \<noteq> []"
  proof -
    have "0 < blockCount (hd bs)" using pos hd_in_set [OF that] by simp
    with small [OF hd_in_set [OF that]] show ?thesis by (rule less_le_trans [rotated])
  qed
  ultimately have "sorted_wrt ext_before (free_exts vcb')" "\<forall>x \<in> set (free_exts vcb'). 0 < blockCount x"
    using exts pos by simp_all
  then show "cache_wf vcb'"
    using len by (simp add: cache_wf_def vcb')
  have "ext_blocks x \<inter> {s ..< s + k} = {}" if "x \<in> set (as @ bs)" for x
    using disj [OF that] taken by blast
  then show "\<forall>x \<in> set (free_exts vcb'). ext_blocks x \<inter> {s ..< s + k} = {} \<and>
      (\<exists>y \<in> set (free_exts vcb). ext_blocks x \<subseteq> ext_blocks y)"
    unfolding exts assms(2) rest using new by (simp split: if_splits) blast
qed


text \<open>
  C15: the free extent cache stays ordered by size, with disjoint and non-empty
  extents, when an extent that does not meet it is inserted; and whenever it is not
  empty, taking from it hands out the front of the largest extent, which no
  extent left in the cache meets.
\<close>

theorem FreeExt_cache_kept:
  assumes "cache_wf vcb"
  shows "(0 < n \<and> (\<forall>x \<in> set (free_exts vcb). ext_blocks x \<inter> {f ..< f + n} = {}) \<longrightarrow>
           cache_wf (FreeExt_insert vcb f n) \<and>
           set (free_exts (FreeExt_insert vcb f n)) \<subseteq>
             insert \<lparr>startBlock = f, blockCount = n\<rparr> (set (free_exts vcb))) \<and>
         (free_exts vcb = c # rest \<and> startBlock c + blockCount c < 2 ^ 32 \<and>
           FreeExt_take vcb m = (vcb', s, k) \<longrightarrow>
           cache_wf vcb' \<and> s = startBlock c \<and> k = min m (blockCount c) \<and>
           (\<forall>x \<in> set (free_exts vcb). blockCount x \<le> blockCount c) \<and>
           (\<forall>x \<in> set (free_exts vcb'). ext_blocks x \<inter> {s ..< s + k} = {}))"
proof (intro conjI impI; (elim conjE)?)
  assume "0 < n" "\<forall>x \<in> set (free_exts vcb). ext_blocks x \<inter> {f ..< f + n} = {}"
  note insert = FreeExt_insert_wf [OF assms this]
  show "cache_wf (FreeExt_insert vcb f n)" by (rule insert)
  show "set (free_exts (FreeExt_insert vcb f n)) \<subseteq>
      insert \<lparr>startBlock = f, blockCount = n\<rparr> (set (free_exts vcb))" by (rule insert)
next
  assume exts: "free_exts vcb = c # rest" and "startBlock c + blockCount c < 2 ^ 32"
    "FreeExt_take vcb m = (vcb', s, k)"
  note took = FreeExt_take_wf [OF assms this]
  show "cache_wf vcb'" "s = startBlock c" "k = min m (blockCount c)" by (rule took)+
  show "\<forall>x \<in> set (free_exts vcb). blockCount x \<le> blockCount c"
    using assms exts by (auto simp: cache_wf_def ext_before_def)
  show "\<forall>x \<in> set (free_exts vcb'). ext_blocks x \<inter> {s ..< s + k} = {}" using took(5) by blast
qed

theorem FreeExt_cache_kept_witness:
  "cache_wf (FreeExt_insert small_volume 7 3)"
proof -
  have "cache_wf small_volume" "free_exts small_volume = []"
    by (simp_all add: cache_wf_def free_exts_def small_volume_def kMaxFreeExtents_def)
  then show ?thesis using FreeExt_cache_kept [of small_volume 3 7] by simp
qed

end
