(* ===== verification/FindContig.thy ===== *)
theory FindContig
  imports AllocAny FreeExtCache
begin

text \<open>
  \<^verbatim>\<open>BlockFindContiguous\<close> of \<^verbatim>\<open>src/hfsplus/hfscommon/Misc/VolumeAllocation.c\<close>: find a run of
  at least \<^verbatim>\<open>minBlocks\<close> free blocks, whole words of the bitmap at a time, and
  remember the runs that were too short in the cache of free extents.

  Each inner loop of the source is one function; the \<^verbatim>\<open>goto\<close>s to \<^verbatim>\<open>FoundUnused\<close> and
  \<^verbatim>\<open>FoundUsed\<close> leave the two halves of a round. Block numbers do not wrap: they
  stay below \<^verbatim>\<open>endingBlock + 32\<close>. The rounds of the outer loop are counted by fuel;
  a round moves on by a block at least, so one more round than there are blocks
  is enough, and the correctness lemma shows that the search ends.
\<close>

section \<open>The two bit loops\<close>

lemma drop_bit_less: "(m :: u32) \<noteq> 0 \<Longrightarrow> unat (drop_bit 1 m) < unat m"
  by (simp add: drop_bit_eq_div unat_div_distrib unat_gt_0)

function skip_used :: "u32 \<Rightarrow> u32 \<Rightarrow> nat \<Rightarrow> u32 \<times> nat" where
  "skip_used tempWord bitMask currentBlock =
     (if tempWord AND bitMask \<noteq> 0
      then skip_used tempWord (drop_bit 1 bitMask) (currentBlock + 1)
      else (bitMask, currentBlock))"
  by pat_completeness auto
termination
  by (relation "measure (\<lambda>(w, m, b). unat m)") (auto intro!: drop_bit_less [simplified])

text \<open>
  The second loop on a whole word has no test of the mask, since the word is
  known not to be zero; there the mask never runs out.
\<close>

function skip_free :: "u32 \<Rightarrow> u32 \<Rightarrow> nat \<Rightarrow> u32 \<times> nat" where
  "skip_free tempWord bitMask currentBlock =
     (if bitMask \<noteq> 0 \<and> tempWord AND bitMask = 0
      then skip_free tempWord (drop_bit 1 bitMask) (currentBlock + 1)
      else (bitMask, currentBlock))"
  by pat_completeness auto
termination
  by (relation "measure (\<lambda>(w, m, b). unat m)") (auto intro!: drop_bit_less [simplified])

declare skip_used.simps [simp del] skip_free.simps [simp del]

section \<open>One round\<close>

definition FindContiguous_fetch ::
  "(block_ref \<Rightarrow> OSErr) \<Rightarrow> ExtendedVCB \<Rightarrow> nat \<Rightarrow> bitmap_pos \<Rightarrow> OSErr + bitmap_pos" where
  "FindContiguous_fetch bread vcb currentBlock p =
     (if wordsLeft p = 0 then
        (case ReadBitmapBlock bread vcb currentBlock of
           Inl err \<Rightarrow> Inl err
         | Inr ref \<Rightarrow> Inr \<lparr>blockRef = ref, wordIndex = 0, wordsLeft = wordsPerBlock vcb\<rparr>)
      else Inr p)"

function unused_words ::
  "(block_ref \<Rightarrow> OSErr) \<Rightarrow> ExtendedVCB \<Rightarrow> nat \<Rightarrow> nat \<Rightarrow> bitmap_pos \<Rightarrow> OSErr + nat \<times> bitmap_pos" where
  "unused_words bread vcb stopBlock currentBlock p =
     (if currentBlock < stopBlock then
        (case FindContiguous_fetch bread vcb currentBlock p of
           Inl err \<Rightarrow> Inl err
         | Inr p \<Rightarrow>
             (let tempWord = SWAP_BE32 (bitmap_get vcb p)
              in if tempWord + 1 \<noteq> 0
                 then Inr (snd (skip_used tempWord kHighBitInWordMask currentBlock), p)
                 else unused_words bread vcb stopBlock (currentBlock + kBitsPerWord) (bitmap_next p)))
      else Inr (currentBlock, p))"
  by pat_completeness auto
termination
  by (relation "measure (\<lambda>(bread, vcb, stop, b, p). stop - b)") auto

declare unused_words.simps [simp del]

definition FindContiguous_unused ::
  "(block_ref \<Rightarrow> OSErr) \<Rightarrow> ExtendedVCB \<Rightarrow> nat \<Rightarrow> nat \<Rightarrow> bitmap_pos \<Rightarrow> OSErr + nat \<times> bitmap_pos" where
  "FindContiguous_unused bread vcb stopBlock currentBlock p =
     (let bitMask = currentBlock AND 31
      in if bitMask \<noteq> 0 then
           (case skip_used (SWAP_BE32 (bitmap_get vcb p)) (drop_bit bitMask kHighBitInWordMask) currentBlock of
              (bitMask, currentBlock) \<Rightarrow>
                if bitMask \<noteq> 0 then Inr (currentBlock, p)
                else unused_words bread vcb stopBlock currentBlock (bitmap_next p))
         else unused_words bread vcb stopBlock currentBlock p)"

function used_words ::
  "(block_ref \<Rightarrow> OSErr) \<Rightarrow> ExtendedVCB \<Rightarrow> nat \<Rightarrow> nat \<Rightarrow> nat \<Rightarrow> nat \<Rightarrow> bitmap_pos \<Rightarrow>
   OSErr + nat \<times> bitmap_pos" where
  "used_words bread vcb endingBlock maxBlocks firstBlock currentBlock p =
     (if currentBlock < endingBlock then
        (case FindContiguous_fetch bread vcb currentBlock p of
           Inl err \<Rightarrow> Inl err
         | Inr p \<Rightarrow>
             (let tempWord = SWAP_BE32 (bitmap_get vcb p)
              in if tempWord \<noteq> 0
                 then Inr (snd (skip_free tempWord kHighBitInWordMask currentBlock), p)
                 else
                   (let currentBlock = currentBlock + kBitsPerWord; p = bitmap_next p
                    in if currentBlock - firstBlock \<ge> maxBlocks then Inr (currentBlock, p)
                       else used_words bread vcb endingBlock maxBlocks firstBlock currentBlock p)))
      else Inr (currentBlock, p))"
  by pat_completeness auto
termination
  by (relation "measure (\<lambda>(bread, vcb, end, n, f, b, p). end - b)") auto

declare used_words.simps [simp del]

definition FindContiguous_count ::
  "(block_ref \<Rightarrow> OSErr) \<Rightarrow> ExtendedVCB \<Rightarrow> nat \<Rightarrow> nat \<Rightarrow> nat \<Rightarrow> bitmap_pos \<Rightarrow>
   OSErr + nat \<times> bitmap_pos" where
  "FindContiguous_count bread vcb endingBlock maxBlocks firstBlock p =
     (let bitMask = firstBlock AND 31
      in if bitMask \<noteq> 0 then
           (case skip_free (SWAP_BE32 (bitmap_get vcb p)) (drop_bit bitMask kHighBitInWordMask) firstBlock of
              (bitMask, currentBlock) \<Rightarrow>
                if bitMask \<noteq> 0 then Inr (currentBlock, p)
                else used_words bread vcb endingBlock maxBlocks firstBlock currentBlock (bitmap_next p))
         else used_words bread vcb endingBlock maxBlocks firstBlock firstBlock p)"

section \<open>The search\<close>

text \<open>
  A round ends the search with an error, or with \<^verbatim>\<open>firstBlock\<close> and \<^verbatim>\<open>foundBlocks\<close>, or
  goes on; \<open>None\<close> is running out of fuel. Block numbers are natural numbers here: the
  loops add at most \<^verbatim>\<open>kBitsPerWord\<close> to a block below \<^verbatim>\<open>endingBlock\<close>, which stays within
  32 bits when \<open>endingBlock + kBitsPerWord \<le> 2 ^ 32\<close>, as the properties assume.
\<close>

primrec FindContiguous_rounds ::
  "nat \<Rightarrow> (block_ref \<Rightarrow> OSErr) \<Rightarrow> ExtendedVCB \<Rightarrow> nat \<Rightarrow> nat \<Rightarrow> nat \<Rightarrow> nat \<Rightarrow> nat \<Rightarrow> bitmap_pos \<Rightarrow> nat \<Rightarrow>
   (ExtendedVCB \<times> (OSErr + nat \<times> nat)) option" where
  "FindContiguous_rounds 0 bread vcb stopBlock endingBlock minBlocks maxBlocks currentBlock p firstBlock =
     None"
| "FindContiguous_rounds (Suc fuel) bread vcb stopBlock endingBlock minBlocks maxBlocks currentBlock p firstBlock =
     (case FindContiguous_unused bread vcb stopBlock currentBlock p of
        Inl err \<Rightarrow> Some (vcb, Inl err)
      | Inr (currentBlock, p) \<Rightarrow>
          if currentBlock \<ge> stopBlock then Some (vcb, Inr (firstBlock, 0))
          else
            (let firstBlock = currentBlock
             in case FindContiguous_count bread vcb endingBlock maxBlocks firstBlock p of
                  Inl err \<Rightarrow> Some (vcb, Inl err)
                | Inr (currentBlock, p) \<Rightarrow>
                    (let currentBlock = (if currentBlock > endingBlock then endingBlock else currentBlock);
                         foundBlocks = currentBlock - firstBlock;
                         foundBlocks = (if foundBlocks > maxBlocks then maxBlocks else foundBlocks)
                     in if foundBlocks \<ge> minBlocks then Some (vcb, Inr (firstBlock, foundBlocks))
                        else
                          (let vcb = FreeExt_insert vcb firstBlock foundBlocks
                           in if currentBlock < stopBlock
                              then FindContiguous_rounds fuel bread vcb stopBlock endingBlock
                                     minBlocks maxBlocks currentBlock p firstBlock
                              else Some (vcb, Inr (firstBlock, foundBlocks))))))"

definition FindContiguous_seek :: "ExtendedVCB \<Rightarrow> nat \<Rightarrow> block_ref \<Rightarrow> bitmap_pos" where
  "FindContiguous_seek vcb startingBlock ref =
     (let i = (startingBlock div kBitsPerWord) AND (wordsPerBlock vcb - 1)
      in \<lparr>blockRef = ref, wordIndex = i, wordsLeft = wordsPerBlock vcb - i\<rparr>)"

definition BlockFindContiguous ::
  "(block_ref \<Rightarrow> OSErr) \<Rightarrow> ExtendedVCB \<Rightarrow> nat \<Rightarrow> nat \<Rightarrow> nat \<Rightarrow> nat \<Rightarrow>
   (OSErr \<times> ExtendedVCB \<times> nat \<times> nat) option" where
  "BlockFindContiguous bread vcb startingBlock endingBlock minBlocks maxBlocks =
     (if u32_sub endingBlock startingBlock < minBlocks then Some (dskFulErr, vcb, 0, 0)
      else
        (let stopBlock = u32_add (u32_sub endingBlock minBlocks) 1
         in case ReadBitmapBlock bread vcb startingBlock of
              Inl err \<Rightarrow> Some (err, vcb, 0, 0)
            | Inr ref \<Rightarrow>
                (case FindContiguous_rounds (Suc endingBlock) bread vcb stopBlock endingBlock minBlocks
                        maxBlocks startingBlock (FindContiguous_seek vcb startingBlock ref) 0 of
                   None \<Rightarrow> None
                 | Some (vcb, Inl err) \<Rightarrow> Some (err, vcb, 0, 0)
                 | Some (vcb, Inr (firstBlock, foundBlocks)) \<Rightarrow>
                     if foundBlocks < minBlocks then Some (dskFulErr, vcb, 0, 0)
                     else Some (noErr, vcb, firstBlock, foundBlocks))))"

declare FindContiguous_rounds.simps [simp del]

section \<open>What the loops find\<close>

lemma skip_used_bits:
  assumes "j \<le> 32"
  shows "\<exists>i. j \<le> i \<and> i \<le> 32 \<and>
           skip_used w (drop_bit j kHighBitInWordMask) b = (drop_bit i kHighBitInWordMask, b + (i - j)) \<and>
           (\<forall>x. j \<le> x \<and> x < i \<longrightarrow> bit w (31 - x)) \<and> (i < 32 \<longrightarrow> \<not> bit w (31 - i))"
  using assms
proof (induction "32 - j" arbitrary: j b)
  case 0
  then have "drop_bit j kHighBitInWordMask = 0" by (simp add: high_mask_zero)
  with 0 show ?case by (intro exI [of _ 32]) (auto simp: skip_used.simps)
next
  case (Suc n)
  then have j: "j < 32" by simp
  show ?case
  proof (cases "bit w (31 - j)")
    case False
    with j show ?thesis
      by (intro exI [of _ j]) (auto simp: skip_used.simps high_mask_test)
  next
    case True
    have shift: "drop_bit 1 (drop_bit j kHighBitInWordMask) = drop_bit (Suc j) kHighBitInWordMask"
      by (simp add: drop_bit_drop_bit)
    have n: "n = 32 - Suc j" using Suc.hyps(2) by linarith
    from shift have step: "skip_used w (drop_bit j kHighBitInWordMask) b =
        skip_used w (drop_bit (Suc j) kHighBitInWordMask) (b + 1)"
      using True j by (subst skip_used.simps) (simp only: high_mask_test if_True simp_thms)
    obtain i where i: "Suc j \<le> i" "i \<le> 32"
      and eq: "skip_used w (drop_bit (Suc j) kHighBitInWordMask) (b + 1) =
        (drop_bit i kHighBitInWordMask, b + 1 + (i - Suc j))"
      and all: "\<forall>x. Suc j \<le> x \<and> x < i \<longrightarrow> bit w (31 - x)" and stop: "i < 32 \<longrightarrow> \<not> bit w (31 - i)"
      using Suc.hyps(1) [OF n Suc_leI [OF j], of "b + 1"] by (simp only: Suc_eq_plus1 ac_simps) blast
    have "\<forall>x. j \<le> x \<and> x < i \<longrightarrow> bit w (31 - x)"
      using all True by (metis Suc_leI le_neq_implies_less)
    with step eq i stop show ?thesis by (intro exI [of _ i]) auto
  qed
qed

lemma skip_free_as_used:
  "skip_free w (drop_bit j kHighBitInWordMask) b = skip_used (NOT w) (drop_bit j kHighBitInWordMask) b"
proof (induction "32 - j" arbitrary: j b)
  case 0
  then have "drop_bit j kHighBitInWordMask = 0" by (simp add: high_mask_zero)
  then show ?case by (simp add: skip_free.simps skip_used.simps)
next
  case (Suc n)
  then have j: "j < 32" and nz: "drop_bit j kHighBitInWordMask \<noteq> 0" by (simp_all add: high_mask_zero)
  have shift: "drop_bit 1 (drop_bit j kHighBitInWordMask) = drop_bit (Suc j) kHighBitInWordMask"
    by (simp add: drop_bit_drop_bit)
  have "NOT w AND drop_bit j kHighBitInWordMask \<noteq> 0 \<longleftrightarrow> w AND drop_bit j kHighBitInWordMask = 0"
    using j by (auto simp: high_mask_test bit_not_iff)
  then show ?case
    using Suc.hyps(1) [of "Suc j" "b + 1"] Suc.hyps(2) nz
    by (subst skip_free.simps, subst skip_used.simps) (simp only: shift, simp)
qed

lemma skip_free_bits:
  assumes "j \<le> 32"
  shows "\<exists>i. j \<le> i \<and> i \<le> 32 \<and>
           skip_free w (drop_bit j kHighBitInWordMask) b = (drop_bit i kHighBitInWordMask, b + (i - j)) \<and>
           (\<forall>x. j \<le> x \<and> x < i \<longrightarrow> \<not> bit w (31 - x)) \<and> (i < 32 \<longrightarrow> bit w (31 - i))"
  using skip_used_bits [OF assms, of "NOT w" b] unfolding skip_free_as_used
  by (auto simp: bit_not_iff)

text \<open>The same in terms of blocks, for the word of block \<open>b\<close>.\<close>

definition next_word :: "nat \<Rightarrow> nat" where
  "next_word b = (b div 32 + 1) * 32"

lemma next_word_bound: "b < next_word b" "next_word b \<le> b + 32" "next_word b mod 32 = 0"
    "next_word b div 32 = b div 32 + 1" "b mod 32 = 0 \<Longrightarrow> next_word b = b + 32"
proof -
  define base r where "base = b div 32 * 32" and "r = b mod 32"
  have b: "base + r = b" and r: "r < 32" by (simp_all add: base_def r_def)
  have nw: "next_word b = base + 32" by (simp add: next_word_def base_def)
  show "b < next_word b" "next_word b \<le> b + 32" "b mod 32 = 0 \<Longrightarrow> next_word b = b + 32"
    using b r nw r_def by linarith+
  show "next_word b mod 32 = 0" "next_word b div 32 = b div 32 + 1"
    by (simp_all add: next_word_def)
qed

lemma skip_used_where:
  assumes "skip_used w (drop_bit (b mod 32) kHighBitInWordMask) b = (m, b')"
    and P: "\<And>x. x < 32 \<Longrightarrow> bit w (31 - x) \<longleftrightarrow> P (b div 32 * 32 + x)"
  shows "b \<le> b'" "b' \<le> next_word b" "m = 0 \<longleftrightarrow> b' = next_word b"
    and "\<forall>x. b \<le> x \<and> x < b' \<longrightarrow> P x" "m \<noteq> 0 \<longrightarrow> \<not> P b'"
proof -
  define base j where "base = b div 32 * 32" and "j = b mod 32"
  have b: "base + j = b" and j: "j < 32" by (simp_all add: base_def j_def)
  obtain i where i: "j \<le> i" "i \<le> 32" "m = drop_bit i kHighBitInWordMask" "b' = b + (i - j)"
    and all: "\<forall>x. j \<le> x \<and> x < i \<longrightarrow> bit w (31 - x)" and stop: "i < 32 \<longrightarrow> \<not> bit w (31 - i)"
    using skip_used_bits [OF less_imp_le [OF j], of w b] assms(1) [folded j_def]
    by (metis prod.inject)
  have b': "b' = base + i" using i b by linarith
  have nw: "next_word b = base + 32" by (simp add: next_word_def base_def)
  show "b \<le> b'" "b' \<le> next_word b" "m = 0 \<longleftrightarrow> b' = next_word b"
    using i b' nw by (auto simp: high_mask_zero)
  show "m \<noteq> 0 \<longrightarrow> \<not> P b'"
    using i stop b' P [folded base_def] by (auto simp: high_mask_zero)
  show "\<forall>x. b \<le> x \<and> x < b' \<longrightarrow> P x"
  proof (intro allI impI)
    fix x
    assume x: "b \<le> x \<and> x < b'"
    have "j \<le> x - base" "x - base < i" "base \<le> x" using x b b' i by linarith+
    with all i(2) have "P (base + (x - base))"
      using P [folded base_def, of "x - base"] by auto
    with \<open>base \<le> x\<close> show "P x" by simp
  qed
qed

lemma word_at_bit:
  "x < 32 \<Longrightarrow> bit (word_at vcb b) (31 - x) \<longleftrightarrow> block_used vcb (b div 32 * 32 + x)"
  by (simp add: word_at_def block_used_def)

lemma word_at_bit_not:
  "x < 32 \<Longrightarrow> bit (NOT (word_at vcb b)) (31 - x) \<longleftrightarrow> \<not> block_used vcb (b div 32 * 32 + x)"
  by (auto simp: bit_not_iff word_at_bit)

lemmas skip_used_blocks = skip_used_where [where P = "block_used vcb" for vcb, OF _ word_at_bit]

lemmas skip_free_blocks =
  skip_used_where [where P = "\<lambda>b. \<not> block_used vcb b" for vcb, OF _ word_at_bit_not,
    folded skip_free_as_used, simplified not_not]

text \<open>The position is at the word of block \<open>b\<close>, or at the end of the buffer just before it.\<close>

definition pos_at :: "ExtendedVCB \<Rightarrow> nat \<Rightarrow> bitmap_pos \<Rightarrow> bool" where
  "pos_at vcb b p \<longleftrightarrow> (\<exists>s. bitmap_at vcb (b div 32) s p) \<and> (b mod 32 \<noteq> 0 \<longrightarrow> wordsLeft p > 0)"

lemma pos_at_get:
  "bitmap_wf vcb \<Longrightarrow> pos_at vcb b p \<Longrightarrow> wordsLeft p > 0 \<Longrightarrow> SWAP_BE32 (bitmap_get vcb p) = word_at vcb b"
  using bitmap_at_access(1) by (auto simp: pos_at_def word_at_def)

lemma pos_at_same_word:
  "pos_at vcb b p \<Longrightarrow> wordsLeft p > 0 \<Longrightarrow> b \<le> b' \<Longrightarrow> b' < next_word b \<Longrightarrow> pos_at vcb b' p"
proof -
  assume *: "pos_at vcb b p" "wordsLeft p > 0" "b \<le> b'" "b' < next_word b"
  have "b' div 32 = b div 32"
    using div_le_mono [OF *(3), of 32] *(4) by (simp add: next_word_def less_mult_imp_div_less le_antisym less_Suc_eq_le)
  with * show ?thesis by (auto simp: pos_at_def)
qed

lemma pos_at_next:
  "pos_at vcb b p \<Longrightarrow> wordsLeft p > 0 \<Longrightarrow> pos_at vcb (next_word b) (bitmap_next p)"
  by (auto simp: pos_at_def next_word_bound bitmap_at_def bitmap_next_def)

lemma FindContiguous_fetch_at:
  assumes "bitmap_wf vcb" "bitmap_readable bread vcb" "pos_at vcb b p" "b < totalBlocks vcb"
  shows "\<exists>p'. FindContiguous_fetch bread vcb b p = Inr p' \<and> pos_at vcb b p' \<and> wordsLeft p' > 0"
proof (cases "wordsLeft p = 0")
  case False
  with assms(3) show ?thesis by (simp add: FindContiguous_fetch_def)
next
  case True
  obtain s where at: "bitmap_at vcb (b div 32) s p" using assms(3) by (auto simp: pos_at_def)
  have "b < 2 ^ 32" using assms(1,4) by (simp add: bitmap_wf_def)
  from bitmap_at_fresh [OF assms(1) at True refl this] bitmap_geometry(1) [OF assms(1)]
  show ?thesis
    using True ReadBitmapBlock_ok [OF assms(2,4)] by (auto simp: FindContiguous_fetch_def pos_at_def)
qed

definition used_run :: "ExtendedVCB \<Rightarrow> nat \<Rightarrow> nat \<Rightarrow> bool" where
  "used_run vcb a b \<longleftrightarrow> (\<forall>x. a \<le> x \<and> x < b \<longrightarrow> block_used vcb x)"

definition free_run :: "ExtendedVCB \<Rightarrow> nat \<Rightarrow> nat \<Rightarrow> bool" where
  "free_run vcb a b \<longleftrightarrow> (\<forall>x. a \<le> x \<and> x < b \<longrightarrow> \<not> block_used vcb x)"

lemma run_trans:
  "used_run vcb a b \<Longrightarrow> used_run vcb b c \<Longrightarrow> used_run vcb a c"
  "free_run vcb a b \<Longrightarrow> free_run vcb b c \<Longrightarrow> free_run vcb a c"
  by (metis used_run_def linorder_not_le) (metis free_run_def linorder_not_le)

lemma run_refl [simp]: "used_run vcb a a" "free_run vcb a a"
  by (auto simp: used_run_def free_run_def)

lemma word_clear_bit: "word_at vcb b + 1 = 0 \<longleftrightarrow> used_run vcb (b div 32 * 32) (next_word b)"
proof -
  define base where "base = b div 32 * 32"
  have "word_at vcb b + 1 = 0 \<longleftrightarrow> word_at vcb b = - 1"
    by (metis add_eq_0_iff2)
  also have "\<dots> \<longleftrightarrow> (\<forall>i < 32. bit (word_at vcb b) i)"
    by (subst bit_eq_iff) auto
  also have "\<dots> \<longleftrightarrow> (\<forall>x < 32. bit (word_at vcb b) (31 - x))"
    using ex_bit_from_top [of "\<lambda>i. \<not> bit (word_at vcb b) i"] by blast
  also have "\<dots> \<longleftrightarrow> (\<forall>x < 32. block_used vcb (base + x))"
    by (simp add: word_at_bit base_def)
  also have "\<dots> \<longleftrightarrow> used_run vcb base (base + 32)"
    unfolding used_run_def by (metis le_add1 le_add_diff_inverse nat_add_left_cancel_less)
  finally show ?thesis by (simp add: base_def next_word_def add.commute)
qed

lemma word_zero: "word_at vcb b = 0 \<longleftrightarrow> free_run vcb (b div 32 * 32) (next_word b)"
proof -
  define base where "base = b div 32 * 32"
  have "word_at vcb b = 0 \<longleftrightarrow> (\<forall>i < 32. \<not> bit (word_at vcb b) i)"
    by (subst bit_eq_iff) auto
  also have "\<dots> \<longleftrightarrow> (\<forall>x < 32. \<not> bit (word_at vcb b) (31 - x))"
    using ex_bit_from_top [of "\<lambda>i. bit (word_at vcb b) i"] by blast
  also have "\<dots> \<longleftrightarrow> (\<forall>x < 32. \<not> block_used vcb (base + x))"
    by (simp add: word_at_bit base_def)
  also have "\<dots> \<longleftrightarrow> free_run vcb base (base + 32)"
    unfolding free_run_def by (metis le_add1 le_add_diff_inverse nat_add_left_cancel_less)
  finally show ?thesis by (simp add: base_def next_word_def add.commute)
qed

lemma unused_words_at:
  assumes "bitmap_wf vcb" "bitmap_readable bread vcb" "stop \<le> totalBlocks vcb"
    and "pos_at vcb b p" "b mod 32 = 0"
  shows "\<exists>b' p'. unused_words bread vcb stop b p = Inr (b', p') \<and> b \<le> b' \<and> used_run vcb b b' \<and>
           (b' < stop \<longrightarrow> \<not> block_used vcb b' \<and> pos_at vcb b' p' \<and> wordsLeft p' > 0)"
  using assms
proof (induction bread vcb stop b p rule: unused_words.induct)
  case (1 bread vcb stop b p)
  have base: "b div 32 * 32 = b" and nw: "next_word b = b + 32"
    using "1.prems"(5) next_word_bound(5) by auto
  show ?case
  proof (cases "b < stop")
    case False
    then show ?thesis by (subst unused_words.simps) simp
  next
    case True
    with "1.prems"(3) have "b < totalBlocks vcb" by simp
    then obtain p' where p': "FindContiguous_fetch bread vcb b p = Inr p'" "pos_at vcb b p'" "wordsLeft p' > 0"
      using FindContiguous_fetch_at [OF "1.prems"(1,2,4)] by blast
    note get = pos_at_get [OF "1.prems"(1) p'(2,3)]
    show ?thesis
    proof (cases "word_at vcb b + 1 = 0")
      case full: True
      have "unused_words bread vcb stop b p = unused_words bread vcb stop (b + 32) (bitmap_next p')"
        using True p'(1) full by (subst unused_words.simps) (simp add: get)
      moreover obtain b' p'' where "unused_words bread vcb stop (b + 32) (bitmap_next p') = Inr (b', p'')"
        and b': "b + 32 \<le> b'" "used_run vcb (b + 32) b'"
        and stop: "b' < stop \<longrightarrow> \<not> block_used vcb b' \<and> pos_at vcb b' p'' \<and> wordsLeft p'' > 0"
        using "1.IH" [OF True p'(1) refl] full "1.prems" pos_at_next [OF p'(2,3)] nw
        by (auto simp: get)
      moreover have "used_run vcb b b'"
        using run_trans(1) [OF _ b'(2)] full word_clear_bit [of vcb b] base nw by simp
      ultimately show ?thesis by auto
    next
      case False
      obtain m b' where skip: "skip_used (word_at vcb b) kHighBitInWordMask b = (m, b')" by fastforce
      have "skip_used (word_at vcb b) (drop_bit (b mod 32) kHighBitInWordMask) b = (m, b')"
        using skip "1.prems"(5) by simp
      note sk = skip_used_blocks [OF this]
      have "b' \<noteq> next_word b"
        using False sk(4) base by (auto simp: word_clear_bit used_run_def)
      then have "\<not> block_used vcb b'" "pos_at vcb b' p'" "used_run vcb b b'"
        using sk pos_at_same_word [OF p'(2,3) sk(1)] by (auto simp: used_run_def)
      moreover have "unused_words bread vcb stop b p = Inr (b', p')"
        using True p'(1) False skip by (subst unused_words.simps) (simp add: get)
      ultimately show ?thesis using sk(1) p'(3) by auto
    qed
  qed
qed

lemma and_31: "(b :: nat) AND 31 = b mod 32"
  using take_bit_eq_mask [of 5 b] by (simp add: take_bit_eq_mod mask_eq_exp_minus_1)

lemma FindContiguous_unused_at:
  assumes "bitmap_wf vcb" "bitmap_readable bread vcb" "stop \<le> totalBlocks vcb" "pos_at vcb b p"
  shows "\<exists>b' p'. FindContiguous_unused bread vcb stop b p = Inr (b', p') \<and> b \<le> b' \<and> used_run vcb b b' \<and>
           (b' < stop \<longrightarrow> \<not> block_used vcb b' \<and> pos_at vcb b' p' \<and> wordsLeft p' > 0)"
proof (cases "b mod 32 = 0")
  case True
  then show ?thesis
    using unused_words_at [OF assms] by (simp add: FindContiguous_unused_def and_31)
next
  case False
  then have left: "wordsLeft p > 0" using assms(4) by (simp add: pos_at_def)
  note get = pos_at_get [OF assms(1,4) left]
  obtain m b1 where skip: "skip_used (word_at vcb b) (drop_bit (b mod 32) kHighBitInWordMask) b = (m, b1)"
    by fastforce
  note sk = skip_used_blocks [OF skip]
  show ?thesis
  proof (cases "m = 0")
    case True
    then have b1: "b1 = next_word b" using sk(3) by simp
    obtain b' p' where "unused_words bread vcb stop b1 (bitmap_next p) = Inr (b', p')" "b1 \<le> b'"
      "used_run vcb b1 b'"
      "b' < stop \<longrightarrow> \<not> block_used vcb b' \<and> pos_at vcb b' p' \<and> wordsLeft p' > 0"
      using unused_words_at [OF assms(1-3), of b1 "bitmap_next p"] pos_at_next [OF assms(4) left, folded b1]
        next_word_bound(3) [of b, folded b1] by blast
    moreover have "used_run vcb b b'"
      using sk(4) run_trans(1) [OF _ \<open>used_run vcb b1 b'\<close>] by (simp add: used_run_def)
    ultimately show ?thesis
      using False True skip sk(1) by (simp add: FindContiguous_unused_def and_31 get)
  next
    case found: False
    then have "b1 < next_word b" using sk(2,3) by auto
    then show ?thesis
      using False found skip sk pos_at_same_word [OF assms(4) left sk(1)] left
      by (simp add: FindContiguous_unused_def and_31 get used_run_def)
  qed
qed

lemma used_words_at:
  assumes "bitmap_wf vcb" "bitmap_readable bread vcb" "e \<le> totalBlocks vcb"
    and "pos_at vcb b p" "b mod 32 = 0" "f \<le> b"
  shows "\<exists>b' p'. used_words bread vcb e n f b p = Inr (b', p') \<and> b \<le> b' \<and> free_run vcb b b' \<and>
           pos_at vcb b' p' \<and> (b' < e \<longrightarrow> block_used vcb b' \<or> n \<le> b' - f) \<and>
           (b < e \<and> \<not> block_used vcb b \<longrightarrow> b < b')"
  using assms
proof (induction bread vcb e n f b p rule: used_words.induct)
  case (1 bread vcb e n f b p)
  have base: "b div 32 * 32 = b" and nw: "next_word b = b + 32"
    using "1.prems"(5) next_word_bound(5) by auto
  show ?case
  proof (cases "b < e")
    case False
    with "1.prems"(4) show ?thesis by (subst used_words.simps) simp
  next
    case True
    with "1.prems"(3) have "b < totalBlocks vcb" by simp
    then obtain p' where p': "FindContiguous_fetch bread vcb b p = Inr p'" "pos_at vcb b p'" "wordsLeft p' > 0"
      using FindContiguous_fetch_at [OF "1.prems"(1,2,4)] by blast
    note get = pos_at_get [OF "1.prems"(1) p'(2,3)]
    note nxt = pos_at_next [OF p'(2,3), unfolded nw]
    show ?thesis
    proof (cases "word_at vcb b = 0")
      case zero: True
      then have run: "free_run vcb b (b + 32)" using word_zero [of vcb b] base nw by simp
      show ?thesis
      proof (cases "n \<le> b + 32 - f")
        case enough: True
        then have "used_words bread vcb e n f b p = Inr (b + 32, bitmap_next p')"
          using True p'(1) zero by (subst used_words.simps) (simp add: get Let_def)
        with enough run nxt show ?thesis by simp
      next
        case False
        then have "used_words bread vcb e n f b p = used_words bread vcb e n f (b + 32) (bitmap_next p')"
          using True p'(1) zero by (subst used_words.simps) (simp add: get Let_def)
        moreover obtain b' p'' where "used_words bread vcb e n f (b + 32) (bitmap_next p') = Inr (b', p'')"
          "b + 32 \<le> b'" "free_run vcb (b + 32) b'" "pos_at vcb b' p''"
          "b' < e \<longrightarrow> block_used vcb b' \<or> n \<le> b' - f"
          using "1.IH" [OF True p'(1) refl _ refl refl] False zero "1.prems" nxt by (auto simp: get)
        ultimately show ?thesis
          using run_trans(2) [OF run] by auto
      qed
    next
      case False
      obtain m b' where skip: "skip_free (word_at vcb b) kHighBitInWordMask b = (m, b')" by fastforce
      have "skip_free (word_at vcb b) (drop_bit (b mod 32) kHighBitInWordMask) b = (m, b')"
        using skip "1.prems"(5) by simp
      note sk = skip_free_blocks [OF this]
      have "b' \<noteq> next_word b"
        using False sk(4) base by (auto simp: word_zero free_run_def)
      then have "block_used vcb b'" "pos_at vcb b' p'" "free_run vcb b b'"
        using sk pos_at_same_word [OF p'(2,3) sk(1)] by (auto simp: free_run_def)
      moreover have "used_words bread vcb e n f b p = Inr (b', p')"
        using True p'(1) False skip by (subst used_words.simps) (simp add: get)
      ultimately show ?thesis using sk(1) by (auto simp: le_less)
    qed
  qed
qed

lemma FindContiguous_count_at:
  assumes "bitmap_wf vcb" "bitmap_readable bread vcb" "e \<le> totalBlocks vcb" "pos_at vcb f p"
    and "f < e" "\<not> block_used vcb f"
  shows "\<exists>b p'. FindContiguous_count bread vcb e n f p = Inr (b, p') \<and> f < b \<and> free_run vcb f b \<and>
           pos_at vcb b p' \<and> (b < e \<longrightarrow> block_used vcb b \<or> n \<le> b - f)"
proof (cases "f mod 32 = 0")
  case True
  then show ?thesis
    using used_words_at [OF assms(1-4) _ order_refl, of n] assms(5,6)
    by (auto simp: FindContiguous_count_def and_31)
next
  case False
  then have left: "wordsLeft p > 0" using assms(4) by (simp add: pos_at_def)
  note get = pos_at_get [OF assms(1,4) left]
  obtain m b1 where skip: "skip_free (word_at vcb f) (drop_bit (f mod 32) kHighBitInWordMask) f = (m, b1)"
    by fastforce
  note sk = skip_free_blocks [OF skip]
  have f: "f < b1"
    using sk(1,3,5) assms(6) next_word_bound(1) [of f] by (cases "m = 0") (auto simp: le_less)
  have run: "free_run vcb f b1" using sk(4) by (simp add: free_run_def)
  show ?thesis
  proof (cases "m = 0")
    case True
    then have b1: "b1 = next_word f" using sk(3) by simp
    obtain b p' where "used_words bread vcb e n f b1 (bitmap_next p) = Inr (b, p')" "b1 \<le> b"
      "free_run vcb b1 b" "pos_at vcb b p'" "b < e \<longrightarrow> block_used vcb b \<or> n \<le> b - f"
      using used_words_at [OF assms(1-3), of b1 "bitmap_next p" f n] pos_at_next [OF assms(4) left, folded b1]
        next_word_bound(3) [of f, folded b1] sk(1) by blast
    moreover have "free_run vcb f b"
      using run_trans(2) [OF run \<open>free_run vcb b1 b\<close>] .
    ultimately show ?thesis
      using False True skip f by (simp add: FindContiguous_count_def and_31 get)
  next
    case found: False
    then have "b1 < next_word f" using sk(2,3) by auto
    then show ?thesis
      using False found skip sk f run pos_at_same_word [OF assms(4) left sk(1)]
      by (simp add: FindContiguous_count_def and_31 get)
  qed
qed

section \<open>The search finds the first run that is long enough\<close>

definition cache_changed :: "ExtendedVCB \<Rightarrow> ExtendedVCB \<Rightarrow> bool" where
  "cache_changed vcb vcb' \<longleftrightarrow> (\<exists>exts cnt. vcb' = vcb\<lparr>vcbFreeExt := exts, vcbFreeExtCnt := cnt\<rparr>)"

lemma cache_changed_refl [simp]: "cache_changed vcb vcb"
  unfolding cache_changed_def
  by (intro exI [of _ "vcbFreeExt vcb"] exI [of _ "vcbFreeExtCnt vcb"]) simp

lemma cache_changed_trans: "cache_changed a b \<Longrightarrow> cache_changed b c \<Longrightarrow> cache_changed a c"
  unfolding cache_changed_def by clarsimp blast

lemma cache_changedI [simp]:
  "cache_changed vcb (vcb\<lparr>vcbFreeExt := exts, vcbFreeExtCnt := cnt\<rparr>)"
  unfolding cache_changed_def by blast

lemma FreeExt_insert_changed [simp]: "cache_changed vcb (FreeExt_insert vcb f n)"
  unfolding FreeExt_insert_def Let_def by (simp split: prod.split)

lemma cache_changed_frame:
  assumes "cache_changed vcb vcb'"
  shows "block_used vcb' = block_used vcb" "totalBlocks vcb' = totalBlocks vcb"
    "bitmap_wf vcb' \<longleftrightarrow> bitmap_wf vcb" "bitmap_readable bread vcb' \<longleftrightarrow> bitmap_readable bread vcb"
    "pos_at vcb' b p \<longleftrightarrow> pos_at vcb b p"
    "used_run vcb' = used_run vcb" "free_run vcb' = free_run vcb"
proof -
  obtain exts cnt where vcb': "vcb' = vcb\<lparr>vcbFreeExt := exts, vcbFreeExtCnt := cnt\<rparr>"
    using assms by (auto simp: cache_changed_def)
  show used: "block_used vcb' = block_used vcb"
    by (simp add: vcb' block_used_def bitmap_word_def bitmap_block_ref_def bitmap_vp_def
        wordsPerBlock_def fun_eq_iff)
  then show "used_run vcb' = used_run vcb" "free_run vcb' = free_run vcb"
    by (simp_all add: used_run_def free_run_def fun_eq_iff)
  show "totalBlocks vcb' = totalBlocks vcb" "bitmap_wf vcb' \<longleftrightarrow> bitmap_wf vcb"
    "bitmap_readable bread vcb' \<longleftrightarrow> bitmap_readable bread vcb" "pos_at vcb' b p \<longleftrightarrow> pos_at vcb b p"
    by (simp_all add: vcb' bitmap_wf_def bitmap_readable_def pos_at_def bitmap_at_def
        bitsPerBlock_def wordsPerBlock_def bitmap_block_ref_def bitmap_vp_def)
qed

text \<open>The cached extents are free blocks of the volume.\<close>

definition cache_free :: "ExtendedVCB \<Rightarrow> bool" where
  "cache_free vcb \<longleftrightarrow>
     cache_wf vcb \<and>
     (\<forall>x \<in> set (free_exts vcb). startBlock x + blockCount x \<le> totalBlocks vcb \<and>
        free_run vcb (startBlock x) (startBlock x + blockCount x))"

definition cache_clear :: "ExtendedVCB \<Rightarrow> nat \<Rightarrow> nat \<Rightarrow> bool" where
  "cache_clear vcb a b \<longleftrightarrow> (\<forall>x \<in> set (free_exts vcb). ext_blocks x \<inter> {a ..< b} = {})"

lemma FreeExt_insert_free:
  assumes "cache_free vcb" "cache_clear vcb a e" "a \<le> f" "0 < n" "f + n \<le> b" "b \<le> e"
    and "e \<le> totalBlocks vcb" "free_run vcb f (f + n)"
  shows "cache_free (FreeExt_insert vcb f n)" "cache_clear (FreeExt_insert vcb f n) b e"
    "\<forall>x \<in> set (free_exts (FreeExt_insert vcb f n)). x \<in> set (free_exts vcb) \<or> ext_blocks x \<subseteq> {a ..< e}"
proof -
  have "{f ..< f + n} \<subseteq> {a ..< e}" using assms(3,5,6) by auto
  then have "\<forall>x \<in> set (free_exts vcb). ext_blocks x \<inter> {f ..< f + n} = {}"
    using assms(2) unfolding cache_clear_def by blast
  note ins = FreeExt_insert_wf [OF _ assms(4) this]
  note frame = cache_changed_frame [OF FreeExt_insert_changed [of vcb f n]]
  have old: "cache_wf vcb" using assms(1) by (simp add: cache_free_def)
  show "cache_free (FreeExt_insert vcb f n)"
    using ins [OF old] assms(1,5-8) frame by (auto simp: cache_free_def)
  have "ext_blocks \<lparr>startBlock = f, blockCount = n\<rparr> \<subseteq> {a ..< e}"
    using \<open>{f ..< f + n} \<subseteq> {a ..< e}\<close> by (simp add: ext_blocks_def)
  then show "\<forall>x \<in> set (free_exts (FreeExt_insert vcb f n)).
      x \<in> set (free_exts vcb) \<or> ext_blocks x \<subseteq> {a ..< e}"
    using ins(2) [OF old] by blast
  have "{b ..< e} \<subseteq> {a ..< e}" using assms(3,5) by auto
  then have "\<forall>x \<in> set (free_exts vcb). ext_blocks x \<inter> {b ..< e} = {}"
    using assms(2) unfolding cache_clear_def by blast
  moreover have "ext_blocks \<lparr>startBlock = f, blockCount = n\<rparr> \<inter> {b ..< e} = {}"
    using assms(5) by (auto simp: ext_blocks_def)
  ultimately show "cache_clear (FreeExt_insert vcb f n) b e"
    using ins(2) [OF old] unfolding cache_clear_def by blast
qed

text \<open>No run of \<open>n\<close> free blocks before \<open>e\<close> starts in \<open>a .. c - 1\<close>.\<close>

definition no_fit :: "ExtendedVCB \<Rightarrow> nat \<Rightarrow> nat \<Rightarrow> nat \<Rightarrow> nat \<Rightarrow> bool" where
  "no_fit vcb n e a c \<longleftrightarrow> (\<forall>g. a \<le> g \<and> g < c \<and> g + n \<le> e \<longrightarrow> \<not> free_run vcb g (g + n))"

lemma no_fit_trans: "no_fit vcb n e a b \<Longrightarrow> no_fit vcb n e b c \<Longrightarrow> no_fit vcb n e a c"
  by (metis no_fit_def linorder_not_le)

lemma no_fit_used: "used_run vcb a b \<Longrightarrow> 0 < n \<Longrightarrow> no_fit vcb n e a b"
  by (auto simp: no_fit_def used_run_def free_run_def)

lemma no_fit_short: "block_used vcb b \<Longrightarrow> b < a + n \<Longrightarrow> no_fit vcb n e a (Suc b)"
  by (auto simp: no_fit_def free_run_def) (metis le_less_trans less_Suc_eq_le add_le_mono1 not_less)

definition fit :: "ExtendedVCB \<Rightarrow> nat \<Rightarrow> nat \<Rightarrow> nat \<Rightarrow> nat \<Rightarrow> nat \<Rightarrow> nat \<Rightarrow> bool" where
  "fit vcb m n a e f k \<longleftrightarrow>
     a \<le> f \<and> f + k \<le> e \<and> m \<le> k \<and> k \<le> n \<and> free_run vcb f (f + k) \<and> no_fit vcb m e a f \<and>
     (k = n \<or> f + k = e \<or> block_used vcb (f + k))"

definition cache_gained :: "ExtendedVCB \<Rightarrow> ExtendedVCB \<Rightarrow> nat \<Rightarrow> nat \<Rightarrow> bool" where
  "cache_gained vcb vcb' a e \<longleftrightarrow>
     (\<forall>x \<in> set (free_exts vcb'). x \<in> set (free_exts vcb) \<or> ext_blocks x \<subseteq> {a ..< e})"

lemma cache_gained_refl [simp]: "cache_gained vcb vcb a e"
  by (simp add: cache_gained_def)

lemma cache_gained_trans:
  "cache_gained vcb vcb1 a e \<Longrightarrow> cache_gained vcb1 vcb2 b e \<Longrightarrow> a \<le> b \<Longrightarrow> cache_gained vcb vcb2 a e"
  unfolding cache_gained_def using ivl_subset [of b e a e] by (meson order_refl order_trans)

text \<open>
  The outcome of the search from block \<open>a\<close>: the first fit, or none when there is
  none; the cache has only gained free extents below the place the search stopped.
\<close>

definition search_result ::
  "ExtendedVCB \<Rightarrow> nat \<Rightarrow> nat \<Rightarrow> nat \<Rightarrow> nat \<Rightarrow> ExtendedVCB \<Rightarrow> nat \<Rightarrow> nat \<Rightarrow> bool" where
  "search_result vcb m n a e vcb' f k \<longleftrightarrow>
     cache_changed vcb vcb' \<and>
     (if m \<le> k then fit vcb m n a e f k else no_fit vcb m e a e) \<and>
     (cache_free vcb \<and> cache_clear vcb a e \<longrightarrow>
        cache_free vcb' \<and> cache_gained vcb vcb' a e \<and> (m \<le> k \<longrightarrow> cache_clear vcb' f e))"

lemma search_result_step:
  assumes "search_result vcb1 m n b e vcb' f k" "cache_changed vcb vcb1" "a \<le> b"
    and "no_fit vcb m e a b"
    and "cache_free vcb \<and> cache_clear vcb a e \<longrightarrow> cache_free vcb1 \<and> cache_clear vcb1 b e \<and> cache_gained vcb vcb1 a e"
  shows "search_result vcb m n a e vcb' f k"
proof -
  note frame = cache_changed_frame [OF assms(2)]
  have nf: "no_fit vcb1 = no_fit vcb" by (simp add: no_fit_def frame fun_eq_iff)
  have "fit vcb m n a e f k" if "fit vcb1 m n b e f k"
    using that assms(3,4) no_fit_trans [OF assms(4)] by (auto simp: fit_def nf frame)
  moreover have "no_fit vcb m e a e" if "no_fit vcb1 m e b e"
    using that no_fit_trans [OF assms(4)] by (simp add: nf)
  ultimately show ?thesis
    using assms(1,5) cache_changed_trans [OF assms(2)] cache_gained_trans [OF _ _ assms(3)]
    unfolding search_result_def by auto
qed

lemma FindContiguous_rounds_search:
  assumes "bitmap_wf vcb" "bitmap_readable bread vcb" "e \<le> totalBlocks vcb"
    and "0 < m" "m \<le> n" "stop + m = Suc e" "pos_at vcb b p" "e < fuel + b" "b \<le> e"
  shows "\<exists>vcb' f k. FindContiguous_rounds fuel bread vcb stop e m n b p f0 = Some (vcb', Inr (f, k)) \<and>
           search_result vcb m n b e vcb' f k"
  using assms
proof (induction fuel arbitrary: vcb b p f0)
  case (Suc fuel)
  note wf = Suc.prems(1-3)
  have stop: "stop \<le> totalBlocks vcb" using Suc.prems(3,4,6) by simp
  obtain b1 p1 where unused: "FindContiguous_unused bread vcb stop b p = Inr (b1, p1)"
    and b1: "b \<le> b1" "used_run vcb b b1"
    and at1: "b1 < stop \<longrightarrow> \<not> block_used vcb b1 \<and> pos_at vcb b1 p1 \<and> wordsLeft p1 > 0"
    using FindContiguous_unused_at [OF wf(1,2) stop Suc.prems(7)] by blast
  note none = no_fit_used [OF b1(2) Suc.prems(4), of e]
  show ?case
  proof (cases "b1 < stop")
    case False
    have "no_fit vcb m e b1 e" using False Suc.prems(6) by (auto simp: no_fit_def)
    then have "search_result vcb m n b e vcb f0 0"
      using no_fit_trans [OF none] Suc.prems(4) by (simp add: search_result_def)
    moreover have "FindContiguous_rounds (Suc fuel) bread vcb stop e m n b p f0 = Some (vcb, Inr (f0, 0))"
      using False by (simp add: FindContiguous_rounds.simps unused)
    ultimately show ?thesis by blast
  next
    case True
    then have f: "b1 < e" "b1 + m \<le> e" "\<not> block_used vcb b1" "pos_at vcb b1 p1"
      using at1 Suc.prems(4,6) by auto
    obtain b2 p2 where count: "FindContiguous_count bread vcb e n b1 p1 = Inr (b2, p2)"
      and b2: "b1 < b2" "free_run vcb b1 b2" "pos_at vcb b2 p2"
      and at2: "b2 < e \<longrightarrow> block_used vcb b2 \<or> n \<le> b2 - b1"
      using FindContiguous_count_at [OF wf f(4,1,3)] by blast
    define b3 where "b3 = min b2 e"
    define k where "k = min (b3 - b1) n"
    have b3: "b1 < b3" "b3 \<le> e" "b3 \<le> b2" using b2(1) f(1) by (auto simp: b3_def)
    have k: "b1 + k \<le> b3" "k \<le> n" "0 < k" using b3 Suc.prems(4,5) by (auto simp: k_def)
    have run: "free_run vcb b1 (b1 + k)"
      using b2(2) k(1) b3(3) by (auto simp: free_run_def)
    have defs: "(if b2 > e then e else b2) = b3" "(if b3 - b1 > n then n else b3 - b1) = k"
      by (auto simp: b3_def k_def)
    have round: "FindContiguous_rounds (Suc fuel) bread vcb stop e m n b p f0 =
        (if m \<le> k then Some (vcb, Inr (b1, k))
         else if b3 < stop
         then FindContiguous_rounds fuel bread (FreeExt_insert vcb b1 k) stop e m n b3 p2 b1
         else Some (FreeExt_insert vcb b1 k, Inr (b1, k)))"
      using True unfolding FindContiguous_rounds.simps Let_def unused sum.case prod.case count defs
      by simp
    show ?thesis
    proof (cases "m \<le> k")
      case fits: True
      have "k = n \<or> b1 + k = e \<or> block_used vcb (b1 + k)"
        using at2 b3 b2(1) unfolding k_def b3_def by (auto simp: min_def split: if_splits)
      then have "fit vcb m n b e b1 k"
        using b1 b3 k run none fits by (auto simp: fit_def)
      moreover have "FindContiguous_rounds (Suc fuel) bread vcb stop e m n b p f0 =
          Some (vcb, Inr (b1, k))"
        using fits by (simp add: round)
      moreover have "cache_clear vcb b e \<longrightarrow> cache_clear vcb b1 e"
        using b1(1) by (fastforce simp: cache_clear_def)
      ultimately show ?thesis
        using fits by (auto simp: search_result_def)
    next
      case False
      then have short: "b3 < b1 + m" "b3 = b2" "b2 < e" "block_used vcb b2"
        using f(2) at2 Suc.prems(5) b3 unfolding k_def b3_def by (auto simp: min_def split: if_splits)
      then have k_eq: "k = b2 - b1" using Suc.prems(5) by (auto simp: k_def)
      let ?vcb = "FreeExt_insert vcb b1 k"
      have nf: "no_fit vcb m e b b2"
        using no_fit_trans [OF none] no_fit_short [OF short(4), of b1 m e] short(1,2)
        by (auto simp: no_fit_def)
      note frame = cache_changed_frame [OF FreeExt_insert_changed [of vcb b1 k]]
      have cache: "cache_free ?vcb \<and> cache_clear ?vcb b2 e \<and> cache_gained vcb ?vcb b e" if "cache_free vcb \<and> cache_clear vcb b e"
        using FreeExt_insert_free [of vcb b e b1 k b2] that b1(1) k k_eq short wf(3) run b2(1)
        by (auto simp: cache_gained_def)
      show ?thesis
      proof (cases "b2 < stop")
        case more: True
        have "FindContiguous_rounds (Suc fuel) bread vcb stop e m n b p f0 =
            FindContiguous_rounds fuel bread ?vcb stop e m n b2 p2 b1"
          using False more short(2) by (simp add: round)
        moreover obtain vcb' f k' where
          "FindContiguous_rounds fuel bread ?vcb stop e m n b2 p2 b1 = Some (vcb', Inr (f, k'))"
          "search_result ?vcb m n b2 e vcb' f k'"
          using Suc.IH [of ?vcb b2 p2 b1] Suc.prems b2 short b1(1) by (auto simp: frame)
        ultimately show ?thesis
          using search_result_step [OF _ FreeExt_insert_changed _ nf] cache b1(1) b2(1) by fastforce
      next
        case last: False
        have "FindContiguous_rounds (Suc fuel) bread vcb stop e m n b p f0 =
            Some (?vcb, Inr (b1, k))"
          using False last short(2) by (simp add: round)
        moreover have "no_fit vcb m e b2 e" using last Suc.prems(6) by (auto simp: no_fit_def)
        ultimately show ?thesis
          using False no_fit_trans [OF nf] cache by (auto simp: search_result_def)
      qed
    qed
  qed
qed simp

lemma FindContiguous_seek_at:
  assumes "bitmap_wf vcb" "s < 2 ^ 32" "ref = bitmap_block_ref vcb (s div bitsPerBlock vcb)"
  shows "pos_at vcb s (FindContiguous_seek vcb s ref)"
proof -
  let ?n = "wordsPerBlock vcb"
  note geo = bitmap_geometry [OF assms(1)]
  obtain k where k: "vcbVBMIOSize vcb = 2 ^ k" "2 \<le> k"
    using assms(1) by (auto simp: bitmap_wf_def)
  then have "?n = 2 ^ (k - 2)"
    using power_diff [of "2 :: nat" 2 k] by (simp add: wordsPerBlock_def)
  then have i: "(s div 32) AND (?n - 1) = s div 32 mod ?n"
    by (simp only: mask_eq_exp_minus_1 [symmetric] take_bit_eq_mask [symmetric] take_bit_eq_mod)
  have "s div bitsPerBlock vcb = s div 32 div ?n"
    using geo(2) by (simp add: div_mult2_eq)
  then have "s div bitsPerBlock vcb * ?n + s div 32 mod ?n = s div 32" by simp
  moreover have "s div 32 mod ?n < ?n" using geo(1) by simp
  ultimately have "bitmap_at vcb (s div 32) s (FindContiguous_seek vcb s ref)"
    "wordsLeft (FindContiguous_seek vcb s ref) > 0"
    using assms(2,3) unfolding FindContiguous_seek_def Let_def i by (simp_all add: bitmap_at_def)
  then show ?thesis by (auto simp: pos_at_def)
qed

lemma BlockFindContiguous_search:
  assumes "bitmap_wf vcb" "bitmap_readable bread vcb" "s \<le> e" "e \<le> totalBlocks vcb" "0 < m" "m \<le> n"
  shows "\<exists>vcb' f k. search_result vcb m n s e vcb' f k \<and>
           BlockFindContiguous bread vcb s e m n =
             Some (if m \<le> k then (noErr, vcb', f, k) else (dskFulErr, vcb', 0, 0))"
proof -
  have e: "e < 2 ^ 32" using assms(1,4) by (simp add: bitmap_wf_def)
  show ?thesis
  proof (cases "e - s < m")
    case True
    then have "no_fit vcb m e s e" by (auto simp: no_fit_def)
    then have "search_result vcb m n s e vcb 0 0"
      using assms(5) by (simp add: search_result_def)
    moreover have "BlockFindContiguous bread vcb s e m n = Some (dskFulErr, vcb, 0, 0)"
      using True assms(3) e by (simp add: BlockFindContiguous_def)
    ultimately show ?thesis
      using assms(5) by (intro exI [of _ vcb] exI [of _ 0]) simp
  next
    case False
    then have s: "s < e" "m \<le> e" using assms(3,5) by auto
    let ?ref = "bitmap_block_ref vcb (s div bitsPerBlock vcb)"
    have read: "ReadBitmapBlock bread vcb s = Inr ?ref"
      using ReadBitmapBlock_ok [OF assms(2)] s assms(4) by simp
    have at: "pos_at vcb s (FindContiguous_seek vcb s ?ref)"
      using FindContiguous_seek_at [OF assms(1) _ refl] s e by simp
    define stop where "stop = u32_add (u32_sub e m) 1"
    have stop: "stop + m = Suc e" using s(2) e assms(5) by (simp add: stop_def)
    obtain vcb' f k where rounds: "FindContiguous_rounds (Suc e) bread vcb stop e m n s
        (FindContiguous_seek vcb s ?ref) 0 = Some (vcb', Inr (f, k))"
      and result: "search_result vcb m n s e vcb' f k"
      using FindContiguous_rounds_search [OF assms(1,2,4-6) stop at _ assms(3), of "Suc e" 0] by auto
    have "BlockFindContiguous bread vcb s e m n =
        Some (if m \<le> k then (noErr, vcb', f, k) else (dskFulErr, vcb', 0, 0))"
      using False assms(3) e
      unfolding BlockFindContiguous_def Let_def stop_def [symmetric] read sum.case rounds option.case prod.case
      by simp
    with result show ?thesis by blast
  qed
qed

section \<open>The property of the search\<close>

text \<open>
  C13: \<^verbatim>\<open>BlockFindContiguous\<close> always ends. It reports \<^verbatim>\<open>dskFulErr\<close> exactly when no
  run of \<open>m\<close> free blocks lies in the range. Otherwise it returns a run of free
  blocks inside the range, at least \<open>m\<close> and at most \<open>n\<close> long, as long as the
  free space there allows, and no run of \<open>m\<close> free blocks starts before it. The
  bitmap is not changed.
\<close>

theorem BlockFindContiguous_first_fit:
  assumes "bitmap_wf vcb" "bitmap_readable bread vcb" "s \<le> e" "e \<le> totalBlocks vcb" "0 < m" "m \<le> n"
    and "e + kBitsPerWord \<le> 2 ^ 32"
  shows "\<exists>vcb'. block_used vcb' = block_used vcb \<and>
           (if \<exists>g. s \<le> g \<and> g + m \<le> e \<and> free_run vcb g (g + m)
            then \<exists>f k. BlockFindContiguous bread vcb s e m n = Some (noErr, vcb', f, k) \<and>
                   s \<le> f \<and> f + k \<le> e \<and> m \<le> k \<and> k \<le> n \<and> free_run vcb f (f + k) \<and>
                   (\<forall>g. s \<le> g \<and> g < f \<longrightarrow> \<not> free_run vcb g (g + m)) \<and>
                   (k = n \<or> f + k = e \<or> block_used vcb (f + k))
            else BlockFindContiguous bread vcb s e m n = Some (dskFulErr, vcb', 0, 0))"
proof -
  obtain vcb' f k where result: "search_result vcb m n s e vcb' f k"
    and eq: "BlockFindContiguous bread vcb s e m n =
      Some (if m \<le> k then (noErr, vcb', f, k) else (dskFulErr, vcb', 0, 0))"
    using BlockFindContiguous_search [OF assms(1-6)] by blast
  have used: "block_used vcb' = block_used vcb"
    using result cache_changed_frame(1) by (simp add: search_result_def)
  show ?thesis
  proof (cases "m \<le> k")
    case True
    with result have fit: "fit vcb m n s e f k" by (simp add: search_result_def)
    then have "free_run vcb f (f + m)" "f + m \<le> e" "s \<le> f"
      using True by (auto simp: fit_def free_run_def)
    moreover have "\<forall>g. s \<le> g \<and> g < f \<longrightarrow> \<not> free_run vcb g (g + m)"
      using fit True by (auto simp: fit_def no_fit_def)
    ultimately show ?thesis
      using fit eq used True unfolding fit_def by (intro exI [of _ vcb']) auto
  next
    case False
    with result have "\<not> (\<exists>g. s \<le> g \<and> g + m \<le> e \<and> free_run vcb g (g + m))"
      using assms(5) by (auto simp: search_result_def no_fit_def)
    with eq used False show ?thesis by (intro exI [of _ vcb']) simp
  qed
qed

theorem BlockFindContiguous_first_fit_witness:
  "\<exists>vcb' f k. BlockFindContiguous (\<lambda>_. noErr) small_volume 20 64 3 5 = Some (noErr, vcb', f, k) \<and> 3 \<le> k"
proof -
  have "\<exists>g. 20 \<le> g \<and> g + 3 \<le> 64 \<and> free_run small_volume g (g + 3)"
    by (intro exI [of _ 20]) (simp add: free_run_def small_volume_wf)
  with BlockFindContiguous_first_fit [of small_volume "\<lambda>_. noErr" 20 64 3 5] show ?thesis
    by (auto simp: small_volume_wf)
qed

end
