(* ===== verification/VolAlloc.thy ===== *)
theory VolAlloc
  imports FindContig
begin

text \<open>
  The block allocator of \<^verbatim>\<open>src/hfsplus/hfscommon/Misc/VolumeAllocation.c\<close> as its callers
  see it: \<^verbatim>\<open>BlockAllocate\<close>, \<^verbatim>\<open>BlockDeallocate\<close> and the routines between them and
  the bitmap (\<^verbatim>\<open>BlockAllocateContig\<close>, \<^verbatim>\<open>BlockAllocateKnown\<close>, \<^verbatim>\<open>FileBytesToBlocks\<close>), with
  \<^verbatim>\<open>hfs_freeblks\<close> of \<^verbatim>\<open>src/hfsplus/hfs_vfsutils.c\<close>.

  The volume invariant ties the free block count to the bitmap and says that
  the cached extents are free. Allocation and deallocation keep it, never
  panic on a volume that has it, and hand out only blocks that were free.
\<close>

section \<open>The routines\<close>

definition FileBytesToBlocks :: "int \<Rightarrow> nat \<Rightarrow> nat" where
  "FileBytesToBlocks numerator denominator =
     (let quotient = nat (c_div numerator (int denominator) mod 2 ^ 32)
      in if int ((quotient * denominator) mod 2 ^ 32) \<noteq> numerator then u32_add quotient 1 else quotient)"

definition hfs_freeblks :: "ExtendedVCB \<Rightarrow> bool \<Rightarrow> nat" where
  "hfs_freeblks vcb wantreserve =
     (let freeblks = freeBlocks vcb;
          freeblks =
            (if wantreserve then
               (if freeblks > reserveBlocks vcb then freeblks - reserveBlocks vcb else 0)
             else freeblks)
      in u32_sub freeblks (loanedBlocks vcb))"

definition MarkVCBDirty :: "ExtendedVCB \<Rightarrow> ExtendedVCB" where
  "MarkVCBDirty vcb = vcb\<lparr>vcbFlags := vcbFlags vcb OR 0xFF00\<rparr>"

text \<open>
  The results are the error, the volume and the outputs \<^verbatim>\<open>actualStartBlock\<close> and
  \<^verbatim>\<open>actualNumBlocks\<close>, which \<^verbatim>\<open>BlockAllocate\<close> sets to 0 before it calls the others;
  \<^const>\<open>None\<close> is a panic.
\<close>

definition BlockAllocateContig ::
  "(block_ref \<Rightarrow> OSErr) \<Rightarrow> ExtendedVCB \<Rightarrow> nat \<Rightarrow> nat \<Rightarrow> nat \<Rightarrow>
   (OSErr \<times> ExtendedVCB \<times> nat \<times> nat) option" where
  "BlockAllocateContig bread vcb startingBlock minBlocks maxBlocks =
     (case BlockFindContiguous bread vcb startingBlock (totalBlocks vcb) minBlocks maxBlocks of
        None \<Rightarrow> None
      | Some (err, vcb, s, n) \<Rightarrow>
          (case (if err = dskFulErr \<and> startingBlock \<noteq> 0
                 then BlockFindContiguous bread vcb 0 startingBlock minBlocks maxBlocks
                 else Some (err, vcb, s, n)) of
             None \<Rightarrow> None
           | Some (err, vcb, s, n) \<Rightarrow>
               if err \<noteq> noErr then Some (err, vcb, 0, 0)
               else
                 (case BlockMarkAllocated bread vcb s n of
                    None \<Rightarrow> None
                  | Some (err, vcb) \<Rightarrow>
                      if err \<noteq> noErr then Some (err, vcb, 0, 0) else Some (noErr, vcb, s, n))))"

definition BlockAllocateKnown ::
  "(block_ref \<Rightarrow> OSErr) \<Rightarrow> ExtendedVCB \<Rightarrow> nat \<Rightarrow> (OSErr \<times> ExtendedVCB \<times> nat \<times> nat) option" where
  "BlockAllocateKnown bread vcb maxBlocks =
     (if vcbFreeExtCnt vcb = 0 then Some (dskFulErr, vcb, 0, 0)
      else
        (case FreeExt_take vcb maxBlocks of
           (vcb, s, n) \<Rightarrow>
             (case BlockMarkAllocated bread vcb s n of
                None \<Rightarrow> None
              | Some (err, vcb) \<Rightarrow> Some (err, vcb, s, n))))"

text \<open>The branch of \<^verbatim>\<open>BlockAllocate\<close> for requests that need not be contiguous.\<close>

definition BlockAllocate_any ::
  "(block_ref \<Rightarrow> OSErr) \<Rightarrow> ExtendedVCB \<Rightarrow> nat \<Rightarrow> nat \<Rightarrow> (OSErr \<times> ExtendedVCB \<times> nat \<times> nat) option" where
  "BlockAllocate_any bread vcb startingBlock maxBlocks =
     (case BlockAllocateKnown bread vcb maxBlocks of
        None \<Rightarrow> None
      | Some (err, vcb, s, n) \<Rightarrow>
          (let (err, vcb, s, n) =
                 (if err = dskFulErr
                  then BlockAllocateAny bread vcb startingBlock (totalBlocks vcb) maxBlocks
                  else (err, vcb, s, n));
               (err, vcb, s, n) =
                 (if err = dskFulErr then BlockAllocateAny bread vcb 0 startingBlock maxBlocks
                  else (err, vcb, s, n))
           in Some (err, vcb, s, n)))"

definition BlockAllocate_contig ::
  "(block_ref \<Rightarrow> OSErr) \<Rightarrow> ExtendedVCB \<Rightarrow> nat \<Rightarrow> nat \<Rightarrow> nat \<Rightarrow>
   (OSErr \<times> ExtendedVCB \<times> nat \<times> nat) option" where
  "BlockAllocate_contig bread vcb startingBlock minBlocks maxBlocks =
     (case BlockAllocateContig bread vcb startingBlock minBlocks maxBlocks of
        None \<Rightarrow> None
      | Some (err, vcb, s, n) \<Rightarrow>
          Some (err, if err = noErr \<and> s > startingBlock then vcb\<lparr>nextAllocation := s\<rparr> else vcb, s, n))"

definition BlockAllocate ::
  "(block_ref \<Rightarrow> OSErr) \<Rightarrow> ExtendedVCB \<Rightarrow> nat \<Rightarrow> int \<Rightarrow> int \<Rightarrow> bool \<Rightarrow>
   (OSErr \<times> ExtendedVCB \<times> nat \<times> nat) option" where
  "BlockAllocate bread vcb startingBlock bytesRequested bytesMaximum forceContiguous =
     (let minBlocks = FileBytesToBlocks bytesRequested (blockSize vcb);
          maxBlocks = FileBytesToBlocks bytesMaximum (blockSize vcb)
      in if hfs_freeblks vcb False = 0 then Some (dskFulErr, vcb, 0, 0)
         else if forceContiguous \<and> hfs_freeblks vcb False < minBlocks then Some (dskFulErr, vcb, 0, 0)
         else
           (let updateAllocPtr = (startingBlock = 0);
                startingBlock = (if startingBlock = 0 then nextAllocation vcb else startingBlock)
            in case (if forceContiguous
                     then BlockAllocate_contig bread vcb startingBlock minBlocks maxBlocks
                     else BlockAllocate_any bread vcb startingBlock maxBlocks) of
                 None \<Rightarrow> None
               | Some (err, vcb, s, n) \<Rightarrow>
                   if err = noErr then
                     (let vcb = (if updateAllocPtr then vcb\<lparr>nextAllocation := s\<rparr> else vcb);
                          vcb = vcb\<lparr>freeBlocks := u32_sub (freeBlocks vcb) n\<rparr>
                      in Some (noErr, MarkVCBDirty vcb, s, n))
                   else Some (err, vcb, s, n)))"

definition BlockDeallocate ::
  "(block_ref \<Rightarrow> OSErr) \<Rightarrow> ExtendedVCB \<Rightarrow> nat \<Rightarrow> nat \<Rightarrow> (OSErr \<times> ExtendedVCB) option" where
  "BlockDeallocate bread vcb firstBlock numBlocks =
     (if numBlocks = 0 then Some (noErr, vcb)
      else
        (case BlockMarkFree bread vcb firstBlock numBlocks of
           None \<Rightarrow> None
         | Some (err, vcb) \<Rightarrow>
             if err \<noteq> noErr then Some (err, vcb)
             else
               (let vcb = vcb\<lparr>freeBlocks := u32_add (freeBlocks vcb) numBlocks\<rparr>;
                    vcb =
                      (if nextAllocation vcb = u32_add firstBlock numBlocks
                       then vcb\<lparr>nextAllocation := u32_sub (nextAllocation vcb) numBlocks\<rparr> else vcb)
                in Some (noErr, MarkVCBDirty vcb))))"

section \<open>Rounding up to blocks\<close>

lemma div_round_up:
  assumes "0 < (d :: int)"
  shows "(n + d - 1) div d = (if n mod d = 0 then n div d else n div d + 1)"
proof -
  have r: "0 \<le> n mod d" "n mod d < d" using assms by simp_all
  have "n + d - 1 = (n mod d + d - 1) + n div d * d"
    using div_mult_mod_eq [of n d] by linarith
  then have "(n + d - 1) div d = (n mod d + d - 1) div d + n div d"
    using assms by (metis div_mult_self3 less_irrefl add.commute)
  moreover have "(n mod d + d - 1) div d = (if n mod d = 0 then 0 else 1)"
    using r by (auto intro!: div_pos_pos_trivial int_div_pos_eq [of _ _ 1 "n mod d - 1"])
  ultimately show ?thesis by simp
qed

lemma FileBytesToBlocks_eq:
  assumes "0 \<le> n" "0 < d" "n div int d < 2 ^ 32 - 1"
  shows "FileBytesToBlocks n d =
           nat (if n < 2 ^ 32 then (n + int d - 1) div int d else n div int d + 1)"
proof -
  let ?q = "nat (n div int d)"
  have q: "nat (c_div n (int d) mod 2 ^ 32) = ?q" "?q + 1 < 2 ^ 32"
    using assms by (simp_all add: pos_imp_zdiv_nonneg_iff)
  have prod: "int (?q * d) = n - n mod int d"
    using assms by (simp add: pos_imp_zdiv_nonneg_iff minus_mod_eq_div_mult)
  then have "int (?q * d) \<le> n" using assms by simp
  show ?thesis
  proof (cases "n < 2 ^ 32")
    case True
    with \<open>int (?q * d) \<le> n\<close> have "int (?q * d) < int (2 ^ 32)"
      by (simp only: of_nat_power of_nat_numeral le_less_trans)
    then have "?q * d < 2 ^ 32" by (simp only: of_nat_less_iff)
    then have "int ((?q * d) mod 2 ^ 32) = n - n mod int d" using prod by simp
    moreover note div_round_up [of "int d" n]
    ultimately show ?thesis
      using True q assms by (auto simp: FileBytesToBlocks_def Let_def nat_add_distrib pos_imp_zdiv_nonneg_iff)
  next
    case False
    have "int ((?q * d) mod 2 ^ 32) < 2 ^ 32" by simp
    with False have "int ((?q * d) mod 2 ^ 32) \<noteq> n" by linarith
    with False q assms show ?thesis
      by (simp add: FileBytesToBlocks_def Let_def nat_add_distrib pos_imp_zdiv_nonneg_iff)
  qed
qed

section \<open>Taking a run of blocks\<close>

definition alloc_frame :: "ExtendedVCB \<Rightarrow> ExtendedVCB \<Rightarrow> bool" where
  "alloc_frame vcb vcb' \<longleftrightarrow>
     (\<exists>exts cnt bufs. vcb' = vcb\<lparr>vcbFreeExt := exts, vcbFreeExtCnt := cnt, vcb_buffers := bufs\<rparr>)"

lemma alloc_frameI [intro]:
  "cache_changed vcb vcb' \<Longrightarrow> alloc_frame vcb vcb'"
  "bitmap_updated vcb vcb' s n v \<Longrightarrow> alloc_frame vcb vcb'"
proof -
  assume "cache_changed vcb vcb'"
  then obtain exts cnt where "vcb' = vcb\<lparr>vcbFreeExt := exts, vcbFreeExtCnt := cnt\<rparr>"
    by (auto simp: cache_changed_def)
  then have "vcb' = vcb\<lparr>vcbFreeExt := exts, vcbFreeExtCnt := cnt, vcb_buffers := vcb_buffers vcb\<rparr>"
    by simp
  then show "alloc_frame vcb vcb'" unfolding alloc_frame_def by blast
next
  assume "bitmap_updated vcb vcb' s n v"
  then obtain bufs where "vcb' = vcb\<lparr>vcb_buffers := bufs\<rparr>"
    by (auto simp: bitmap_updated_def)
  then have "vcb' = vcb\<lparr>vcbFreeExt := vcbFreeExt vcb, vcbFreeExtCnt := vcbFreeExtCnt vcb, vcb_buffers := bufs\<rparr>"
    by simp
  then show "alloc_frame vcb vcb'" unfolding alloc_frame_def by blast
qed

lemma alloc_frame_trans: "alloc_frame a b \<Longrightarrow> alloc_frame b c \<Longrightarrow> alloc_frame a c"
  unfolding alloc_frame_def by clarsimp blast

lemma alloc_frame_fields:
  assumes "alloc_frame vcb vcb'"
  shows "totalBlocks vcb' = totalBlocks vcb" "freeBlocks vcb' = freeBlocks vcb"
    "nextAllocation vcb' = nextAllocation vcb" "bitsPerBlock vcb' = bitsPerBlock vcb"
    "bitmap_block_ref vcb' = bitmap_block_ref vcb" "readable_to bread vcb' e \<longleftrightarrow> readable_to bread vcb e"
    "bitmap_readable bread vcb' \<longleftrightarrow> bitmap_readable bread vcb"
  using assms
  by (auto simp: alloc_frame_def bitsPerBlock_def bitmap_block_ref_def bitmap_vp_def readable_to_def
      bitmap_readable_def fun_eq_iff)

definition run_gained :: "ExtendedVCB \<Rightarrow> ExtendedVCB \<Rightarrow> nat \<Rightarrow> nat \<Rightarrow> bool" where
  "run_gained vcb vcb' s k \<longleftrightarrow>
     s + k \<le> totalBlocks vcb \<and> free_run vcb s (s + k) \<and>
     (\<forall>b. block_used vcb' b \<longleftrightarrow> s \<le> b \<and> b < s + k \<or> block_used vcb b)"

text \<open>
  What the allocating routines promise: no panic, and either a run of \<open>1 .. n\<close>
  blocks that was free and is now used, or \<^verbatim>\<open>dskFulErr\<close> with the bitmap untouched.
\<close>

definition alloc_result ::
  "ExtendedVCB \<Rightarrow> nat \<Rightarrow> (OSErr \<times> ExtendedVCB \<times> nat \<times> nat) option \<Rightarrow> bool" where
  "alloc_result vcb n r \<longleftrightarrow>
     (\<exists>err vcb' s k. r = Some (err, vcb', s, k) \<and>
        alloc_frame vcb vcb' \<and> bitmap_wf vcb' \<and> cache_free vcb' \<and>
        (if err = noErr then 0 < k \<and> k \<le> n \<and> run_gained vcb vcb' s k
         else err = dskFulErr \<and> s = 0 \<and> k = 0 \<and> block_used vcb' = block_used vcb))"

lemma dskFulErr_neq [simp]: "dskFulErr \<noteq> noErr" "noErr \<noteq> dskFulErr"
  by (simp_all add: oserr_defs)

lemma readable_to_readable:
  assumes "bitmap_wf vcb" "readable_to bread vcb (totalBlocks vcb)"
  shows "bitmap_readable bread vcb"
  unfolding bitmap_readable_def
proof (intro allI impI)
  fix k
  assume "k * bitsPerBlock vcb < totalBlocks vcb"
  moreover have "k * bitsPerBlock vcb div bitsPerBlock vcb = k"
    using bitmap_geometry [OF assms(1)] by simp
  ultimately show "bread (bitmap_block_ref vcb k) = noErr"
    using assms(2) unfolding readable_to_def by (metis less_imp_le)
qed

lemma cache_free_blocks:
  "cache_free vcb \<longleftrightarrow>
     cache_wf vcb \<and> (\<forall>x \<in> set (free_exts vcb). \<forall>b \<in> ext_blocks x. b < totalBlocks vcb \<and> \<not> block_used vcb b)"
proof -
  have "startBlock x + blockCount x \<le> totalBlocks vcb \<and>
        free_run vcb (startBlock x) (startBlock x + blockCount x) \<longleftrightarrow>
      (\<forall>b \<in> ext_blocks x. b < totalBlocks vcb \<and> \<not> block_used vcb b)" if "0 < blockCount x" for x
  proof -
    have "startBlock x + blockCount x - 1 \<in> ext_blocks x" using that by (auto simp: ext_blocks_def)
    then have "startBlock x + blockCount x \<le> totalBlocks vcb" if "\<forall>b \<in> ext_blocks x. b < totalBlocks vcb"
      using that by fastforce
    moreover have "(\<forall>b \<in> ext_blocks x. \<not> block_used vcb b) \<longleftrightarrow>
        free_run vcb (startBlock x) (startBlock x + blockCount x)"
      by (auto simp: ext_blocks_def free_run_def)
    moreover have "b < startBlock x + blockCount x" if "b \<in> ext_blocks x" for b
      using that by (simp add: ext_blocks_def)
    ultimately show ?thesis by (meson less_le_trans)
  qed
  then show ?thesis unfolding cache_free_def cache_wf_def by blast
qed

lemma cache_free_marked:
  assumes "cache_free vcb" "cache_clear vcb s (s + k)" "bitmap_updated vcb vcb' s k v"
  shows "cache_free vcb'"
proof -
  obtain bufs where vcb': "vcb' = vcb\<lparr>vcb_buffers := bufs\<rparr>"
    using assms(3) by (auto simp: bitmap_updated_def)
  then have same: "free_exts vcb' = free_exts vcb" "cache_wf vcb' \<longleftrightarrow> cache_wf vcb"
    "totalBlocks vcb' = totalBlocks vcb"
    by (simp_all add: free_exts_def cache_wf_def)
  have "block_used vcb' b \<longleftrightarrow> block_used vcb b" if "x \<in> set (free_exts vcb)" "b \<in> ext_blocks x" for x b
  proof -
    have "b \<notin> {s ..< s + k}" using that assms(2) unfolding cache_clear_def by blast
    then show ?thesis using assms(3) by (auto simp: bitmap_updated_def)
  qed
  then show ?thesis
    using assms(1) unfolding cache_free_blocks same by blast
qed

lemma mark_free_run:
  assumes "bitmap_wf vcb" "bitmap_readable bread vcb" "s + k \<le> totalBlocks vcb" "0 < k"
    and "free_run vcb s (s + k)" "cache_free vcb" "cache_clear vcb s (s + k)"
  shows "\<exists>vcb'. BlockMarkAllocated bread vcb s k = Some (noErr, vcb') \<and> alloc_frame vcb vcb' \<and>
           bitmap_wf vcb' \<and> cache_free vcb' \<and> run_gained vcb vcb' s k"
proof -
  have "mark_expected MarkAllocated vcb s k"
    using assms(5) by (simp add: mark_expected_def free_run_def)
  then obtain vcb' where vcb': "BlockMarkAllocated bread vcb s k = Some (noErr, vcb')" "bitmap_wf vcb'"
    and upd: "bitmap_updated vcb vcb' s k True"
    using BlockMark_ok [of vcb bread s k MarkAllocated] assms(1-4)
    by (auto simp: BlockMarkAllocated_def)
  then have "run_gained vcb vcb' s k"
    using assms(3,5) by (auto simp: run_gained_def bitmap_updated_def)
  with vcb' upd cache_free_marked [OF assms(6,7) upd] show ?thesis by blast
qed

section \<open>The routines keep their promise\<close>

lemma BlockAllocateKnown_result:
  assumes "bitmap_wf vcb" "bitmap_readable bread vcb" "cache_free vcb" "0 < n" "vcbFreeExtCnt vcb \<noteq> 0"
  obtains vcb' s k where "BlockAllocateKnown bread vcb n = Some (noErr, vcb', s, k)"
    and "alloc_result vcb n (Some (noErr, vcb', s, k))"
proof -
  have wf: "cache_wf vcb" using assms(3) by (simp add: cache_free_def)
  then have "free_exts vcb \<noteq> []"
    using assms(5) by (auto simp: free_exts_def cache_wf_def kMaxFreeExtents_def)
  then obtain c rest where exts: "free_exts vcb = c # rest" by (cases "free_exts vcb") auto
  then have c: "startBlock c + blockCount c \<le> totalBlocks vcb" "0 < blockCount c"
    "free_run vcb (startBlock c) (startBlock c + blockCount c)"
    using assms(3) by (simp_all add: cache_free_def cache_wf_def)
  have lim: "startBlock c + blockCount c < 2 ^ 32"
    using c(1) assms(1) by (simp add: bitmap_wf_def)
  obtain vcb1 s k where take: "FreeExt_take vcb n = (vcb1, s, k)" by (cases "FreeExt_take vcb n") auto
  note t = FreeExt_take_wf [OF wf exts lim take]
  have chg: "cache_changed vcb vcb1" using t(4) by (simp add: cache_changed_def)
  note frame = cache_changed_frame [OF chg]
  have k: "0 < k" "k \<le> n" "s + k \<le> totalBlocks vcb" and run: "free_run vcb s (s + k)"
    using t(1,2) c assms(4) by (auto simp: free_run_def)
  have "cache_free vcb1"
    using t(3,5) assms(3) unfolding cache_free_blocks frame by blast
  moreover have "cache_clear vcb1 s (s + k)"
    using t(5) by (simp add: cache_clear_def)
  ultimately obtain vcb' where "BlockMarkAllocated bread vcb1 s k = Some (noErr, vcb')"
    "alloc_frame vcb1 vcb'" "bitmap_wf vcb'" "cache_free vcb'" "run_gained vcb1 vcb' s k"
    using mark_free_run [of vcb1 bread s k] assms(1,2) k run by (auto simp: frame)
  moreover from this(5) have "run_gained vcb vcb' s k" by (simp add: run_gained_def frame)
  ultimately show ?thesis
    using that [of vcb' s k] k assms(5) alloc_frame_trans [OF alloc_frameI(1) [OF chg]]
    by (simp add: BlockAllocateKnown_def take alloc_result_def)
qed

lemma cache_free_empty:
  "length (vcbFreeExt vcb) = kMaxFreeExtents \<Longrightarrow> vcbFreeExtCnt vcb = 0 \<Longrightarrow> cache_free vcb"
  by (simp add: cache_free_def cache_wf_def free_exts_def)

text \<open>\<^verbatim>\<open>BlockAllocateAny\<close> runs only when the cache is empty.\<close>

lemma BlockAllocateAny_result:
  assumes "bitmap_wf vcb" "readable_to bread vcb e" "s \<le> e" "e \<le> totalBlocks vcb" "0 < n"
    and "cache_free vcb" "vcbFreeExtCnt vcb = 0"
  shows "(\<exists>vcb' f k. BlockAllocateAny bread vcb s e n = (noErr, vcb', f, k) \<and>
            alloc_result vcb n (Some (noErr, vcb', f, k))) \<or>
         BlockAllocateAny bread vcb s e n = (dskFulErr, vcb, 0, 0) \<and> used_run vcb s e"
proof (cases "used_run vcb s e")
  case True
  then show ?thesis
    using BlockAllocateAny_first_run [OF assms(1-5)] by (simp add: first_run_taken_def used_run_def)
next
  case False
  then obtain vcb' f k where any: "BlockAllocateAny bread vcb s e n = (noErr, vcb', f, k)"
    and k: "0 < k" "k \<le> n" "f + k \<le> e" and run: "\<forall>x. f \<le> x \<and> x < f + k \<longrightarrow> \<not> block_used vcb x"
    and upd: "bitmap_updated vcb vcb' f k True"
    using BlockAllocateAny_first_run [OF assms(1-5)]
    unfolding first_run_taken_def used_run_def by (simp only: if_False) blast
  have "cache_clear vcb f (f + k)" using assms(7) by (simp add: cache_clear_def free_exts_def)
  with cache_free_marked [OF assms(6) _ upd] have "cache_free vcb'" .
  moreover have "run_gained vcb vcb' f k"
    using k run upd assms(4) by (auto simp: run_gained_def free_run_def bitmap_updated_def)
  moreover have "bitmap_wf vcb'" using upd by (simp add: bitmap_updated_def)
  ultimately show ?thesis
    using any k alloc_frameI(2) [OF upd] by (simp add: alloc_result_def)
qed

lemma BlockAllocate_any_outcome:
  assumes "bitmap_wf vcb" "readable_to bread vcb (totalBlocks vcb)" "cache_free vcb" "0 < n"
    and "s \<le> totalBlocks vcb"
  shows "(\<exists>vcb' f k. BlockAllocate_any bread vcb s n = Some (noErr, vcb', f, k) \<and>
            alloc_result vcb n (Some (noErr, vcb', f, k))) \<or>
         BlockAllocate_any bread vcb s n = Some (dskFulErr, vcb, 0, 0) \<and> used_run vcb 0 (totalBlocks vcb)"
proof (cases "vcbFreeExtCnt vcb = 0")
  case False
  then obtain vcb' f k where "BlockAllocateKnown bread vcb n = Some (noErr, vcb', f, k)"
    "alloc_result vcb n (Some (noErr, vcb', f, k))"
    using BlockAllocateKnown_result [OF assms(1) readable_to_readable [OF assms(1,2)] assms(3,4)] by blast
  then show ?thesis by (simp add: BlockAllocate_any_def)
next
  case True
  then have known: "BlockAllocateKnown bread vcb n = Some (dskFulErr, vcb, 0, 0)"
    by (simp add: BlockAllocateKnown_def)
  have "readable_to bread vcb s" using assms(2,5) by (simp add: readable_to_def)
  note high = BlockAllocateAny_result [OF assms(1,2,5) order_refl assms(4,3) True]
    and low = BlockAllocateAny_result [OF assms(1) this le0 assms(5,4,3) True]
  show ?thesis
  proof (cases "\<exists>vcb' f k. BlockAllocateAny bread vcb s (totalBlocks vcb) n = (noErr, vcb', f, k)")
    case True
    with high show ?thesis by (fastforce simp: BlockAllocate_any_def known)
  next
    case False
    with high have full: "BlockAllocateAny bread vcb s (totalBlocks vcb) n = (dskFulErr, vcb, 0, 0)"
      "used_run vcb s (totalBlocks vcb)" by blast+
    have "BlockAllocate_any bread vcb s n = Some (BlockAllocateAny bread vcb 0 s n)"
      by (simp add: BlockAllocate_any_def known full(1) split: prod.split)
    with low show ?thesis using run_trans(1) [OF _ full(2)] by metis
  qed
qed

lemma BlockAllocate_any_result:
  assumes "bitmap_wf vcb" "readable_to bread vcb (totalBlocks vcb)" "cache_free vcb" "0 < n"
    and "s \<le> totalBlocks vcb"
  shows "alloc_result vcb n (BlockAllocate_any bread vcb s n)"
proof -
  have "alloc_result vcb n (Some (dskFulErr, vcb, 0, 0))"
    using assms(1,3) alloc_frameI(1) [of vcb vcb] by (simp add: alloc_result_def)
  with BlockAllocate_any_outcome [OF assms] show ?thesis by metis
qed


text \<open>
  The contiguous search starts with an empty cache; the second search, below the
  starting block, cannot meet the extents the first one left in it.
\<close>

lemma mark_found:
  assumes "bitmap_wf vcb" "bitmap_readable bread vcb" "cache_changed vcb vcb1" "cache_free vcb1"
    and "fit vcb m n a e f k" "e \<le> totalBlocks vcb" "0 < m" "cache_clear vcb1 f e"
  shows "\<exists>vcb'. BlockMarkAllocated bread vcb1 f k = Some (noErr, vcb') \<and> m \<le> k \<and>
           alloc_result vcb n (Some (noErr, vcb', f, k))"
proof -
  note frame = cache_changed_frame [OF assms(3)]
  have f: "f + k \<le> e" "m \<le> k" "k \<le> n" "free_run vcb f (f + k)"
    using assms(5) by (simp_all add: fit_def)
  then have "cache_clear vcb1 f (f + k)" using assms(8) by (fastforce simp: cache_clear_def)
  then obtain vcb' where "BlockMarkAllocated bread vcb1 f k = Some (noErr, vcb')"
    "alloc_frame vcb1 vcb'" "bitmap_wf vcb'" "cache_free vcb'" "run_gained vcb1 vcb' f k"
    using mark_free_run [of vcb1 bread f k] assms(1,2,4,6,7) f by (auto simp: frame)
  moreover from this(5) have "run_gained vcb vcb' f k" by (simp add: run_gained_def frame)
  ultimately show ?thesis
    using f assms(7) alloc_frame_trans [OF alloc_frameI(1) [OF assms(3)]] by (simp add: alloc_result_def)
qed

lemma cache_empty_clear: "vcbFreeExtCnt vcb = 0 \<Longrightarrow> cache_clear vcb a b"
  by (simp add: cache_clear_def free_exts_def)

lemma cache_gained_clear:
  assumes "cache_clear vcb a' b" "cache_gained vcb vcb' a e" "b \<le> a"
  shows "cache_clear vcb' a' b"
  using assms unfolding cache_clear_def cache_gained_def by fastforce

lemma BlockAllocateContig_outcome:
  assumes "bitmap_wf vcb" "bitmap_readable bread vcb" "cache_free vcb" "vcbFreeExtCnt vcb = 0"
    and "0 < m" "m \<le> n" "s \<le> totalBlocks vcb"
  shows "(\<exists>vcb' f k. BlockAllocateContig bread vcb s m n = Some (noErr, vcb', f, k) \<and> m \<le> k \<and>
            alloc_result vcb n (Some (noErr, vcb', f, k))) \<or>
         (\<exists>vcb'. BlockAllocateContig bread vcb s m n = Some (dskFulErr, vcb', 0, 0) \<and>
            alloc_result vcb n (Some (dskFulErr, vcb', 0, 0)) \<and>
            no_fit vcb m (totalBlocks vcb) s (totalBlocks vcb) \<and> no_fit vcb m s 0 s)"
proof -
  let ?t = "totalBlocks vcb"
  obtain vcb1 f1 k1 where r1: "search_result vcb m n s ?t vcb1 f1 k1"
    and eq1: "BlockFindContiguous bread vcb s ?t m n =
      Some (if m \<le> k1 then (noErr, vcb1, f1, k1) else (dskFulErr, vcb1, 0, 0))"
    using BlockFindContiguous_search [OF assms(1,2,7) order_refl assms(5,6)] by blast
  then have chg1: "cache_changed vcb vcb1" and free1: "cache_free vcb1"
    and gained1: "cache_gained vcb vcb1 s ?t"
    using assms(3) cache_empty_clear [OF assms(4)] by (simp_all add: search_result_def)
  note frame = cache_changed_frame [OF chg1]
  show ?thesis
  proof (cases "m \<le> k1")
    case True
    then have "fit vcb m n s ?t f1 k1" "cache_clear vcb1 f1 ?t"
      using r1 assms(3) cache_empty_clear [OF assms(4)] by (simp_all add: search_result_def)
    with mark_found [OF assms(1,2) chg1 free1 _ order_refl assms(5)] True eq1 show ?thesis
      by (fastforce simp: BlockAllocateContig_def)
  next
    case False
    then have none1: "no_fit vcb m ?t s ?t" using r1 by (simp add: search_result_def)
    show ?thesis
    proof (cases "s = 0")
      case True
      have "alloc_result vcb n (Some (dskFulErr, vcb1, 0, 0))"
        using alloc_frameI(1) [OF chg1] assms(1) free1 by (simp add: alloc_result_def frame)
      with True False eq1 none1 show ?thesis by (simp add: BlockAllocateContig_def no_fit_def)
    next
      case s: False
      obtain vcb2 f2 k2 where r2: "search_result vcb1 m n 0 s vcb2 f2 k2"
        and eq2: "BlockFindContiguous bread vcb1 0 s m n =
          Some (if m \<le> k2 then (noErr, vcb2, f2, k2) else (dskFulErr, vcb2, 0, 0))"
        using BlockFindContiguous_search [of vcb1 bread 0 s m n] assms by (auto simp: frame)
      have clear: "cache_clear vcb1 0 s"
        using cache_gained_clear [OF cache_empty_clear [OF assms(4)] gained1] by simp
      then have chg2: "cache_changed vcb1 vcb2" and free2: "cache_free vcb2"
        using r2 free1 by (simp_all add: search_result_def)
      note chg = cache_changed_trans [OF chg1 chg2] and frame2 = cache_changed_frame [OF chg2]
      have code: "BlockAllocateContig bread vcb s m n =
          (if m \<le> k2 then
             (case BlockMarkAllocated bread vcb2 f2 k2 of
                None \<Rightarrow> None
              | Some (err, vcb) \<Rightarrow> if err \<noteq> noErr then Some (err, vcb, 0, 0) else Some (noErr, vcb, f2, k2))
           else Some (dskFulErr, vcb2, 0, 0))"
        using False s by (simp add: BlockAllocateContig_def eq1 eq2)
      show ?thesis
      proof (cases "m \<le> k2")
        case True
        then have "fit vcb m n 0 s f2 k2" "cache_clear vcb2 f2 s"
          using r2 free1 clear by (simp_all add: search_result_def fit_def no_fit_def free_run_def frame)
        with mark_found [OF assms(1,2) chg free2 _ assms(7,5)] True code show ?thesis by fastforce
      next
        case False
        then have "no_fit vcb m s 0 s"
          using r2 by (simp add: search_result_def no_fit_def free_run_def frame)
        moreover have "alloc_result vcb n (Some (dskFulErr, vcb2, 0, 0))"
          using alloc_frameI(1) [OF chg] assms(1) free2 by (simp add: alloc_result_def frame frame2)
        ultimately show ?thesis using none1 False code by simp
      qed
    qed
  qed
qed


section \<open>The volume invariant\<close>

definition free_blocks :: "ExtendedVCB \<Rightarrow> nat set" where
  "free_blocks vcb = {b. b < totalBlocks vcb \<and> \<not> block_used vcb b}"

text \<open>
  The invariant asks for a readable bitmap: the blocks that hold a bit of the volume can be read.
  The search of \<^verbatim>\<open>BlockAllocateAny\<close> asks for one block more when the volume ends where a bitmap
  block ends; theorems about it name that as a condition of their own.
\<close>

definition past_end_readable :: "(block_ref \<Rightarrow> OSErr) \<Rightarrow> ExtendedVCB \<Rightarrow> bool" where
  "past_end_readable bread vcb \<longleftrightarrow>
     bread (bitmap_block_ref vcb (totalBlocks vcb div bitsPerBlock vcb)) = noErr"

definition vol_inv :: "(block_ref \<Rightarrow> OSErr) \<Rightarrow> ExtendedVCB \<Rightarrow> bool" where
  "vol_inv bread vcb \<longleftrightarrow>
     bitmap_wf vcb \<and> bitmap_readable bread vcb \<and> cache_free vcb \<and>
     0 < blockSize vcb \<and> nextAllocation vcb \<le> totalBlocks vcb \<and>
     totalBlocks vcb + kBitsPerWord \<le> 2 ^ 32 \<and>
     freeBlocks vcb = card (free_blocks vcb)"

lemma free_blocks_finite [simp]: "finite (free_blocks vcb)"
  by (simp add: free_blocks_def)

lemma free_blocks_bound:
  assumes "bitmap_wf vcb"
  shows "card (free_blocks vcb) \<le> totalBlocks vcb" "totalBlocks vcb < 2 ^ 32"
proof -
  have "card (free_blocks vcb) \<le> card {..<totalBlocks vcb}"
    by (rule card_mono) (auto simp: free_blocks_def)
  then show "card (free_blocks vcb) \<le> totalBlocks vcb" by simp
qed (use assms in \<open>simp add: bitmap_wf_def\<close>)

lemma vol_inv_fields:
  fixes vcb bread
  defines "upd next free flags \<equiv> vcb\<lparr>nextAllocation := next, freeBlocks := free, vcbFlags := flags\<rparr>"
  shows "bitmap_wf (upd next free flags) \<longleftrightarrow> bitmap_wf vcb"
    "bitmap_readable bread (upd next free flags) \<longleftrightarrow> bitmap_readable bread vcb"
    "cache_free (upd next free flags) \<longleftrightarrow> cache_free vcb"
    "block_used (upd next free flags) b \<longleftrightarrow> block_used vcb b"
    "free_blocks (upd next free flags) = free_blocks vcb"
  by (simp_all add: upd_def bitmap_wf_def bitmap_readable_def cache_free_def cache_wf_def free_exts_def
      free_run_def free_blocks_def block_used_def bitmap_word_def bitsPerBlock_def wordsPerBlock_def
      bitmap_block_ref_def bitmap_vp_def Let_def)

lemma vol_inv_loaned: "vol_inv bread (vcb\<lparr>loanedBlocks := n\<rparr>) \<longleftrightarrow> vol_inv bread vcb"
proof -
  let ?v = "vcb\<lparr>loanedBlocks := n\<rparr>"
  have "bitmap_wf ?v \<longleftrightarrow> bitmap_wf vcb" "bitmap_readable bread ?v \<longleftrightarrow> bitmap_readable bread vcb"
    "cache_free ?v \<longleftrightarrow> cache_free vcb" "free_blocks ?v = free_blocks vcb"
    by (simp_all add: bitmap_wf_def bitmap_readable_def cache_free_def cache_wf_def free_exts_def
        free_run_def free_blocks_def block_used_def bitmap_word_def bitsPerBlock_def wordsPerBlock_def
        bitmap_block_ref_def bitmap_vp_def Let_def)
  then show ?thesis by (simp add: vol_inv_def)
qed

text \<open>Updates of the volume header fields alone, as the callers of the bitmap make them.\<close>

lemma vol_inv_update:
  assumes "bitmap_wf vcb" "bitmap_readable bread vcb" "cache_free vcb" "0 < blockSize vcb"
    and "totalBlocks vcb + kBitsPerWord \<le> 2 ^ 32" "next \<le> totalBlocks vcb" "free = card (free_blocks vcb)"
  shows "vol_inv bread (vcb\<lparr>nextAllocation := next, freeBlocks := free, vcbFlags := flags\<rparr>)"
  using assms unfolding vol_inv_def vol_inv_fields by simp

lemma run_gained_free_blocks:
  assumes "run_gained vcb vcb' s k" "totalBlocks vcb' = totalBlocks vcb"
  shows "{s ..< s + k} \<subseteq> free_blocks vcb" "free_blocks vcb' = free_blocks vcb - {s ..< s + k}"
  using assms by (auto simp: run_gained_def free_blocks_def free_run_def)

lemma FileBytesToBlocks_mono:
  assumes "0 < m" "m \<le> n" "0 < d" "n div int d < 2 ^ 32 - 1"
  shows "0 < FileBytesToBlocks m d" "FileBytesToBlocks m d \<le> FileBytesToBlocks n d"
proof -
  have le: "m div int d \<le> n div int d" "(m + int d - 1) div int d \<le> (n + int d - 1) div int d"
    using assms by (auto intro: zdiv_mono1)
  have up: "(n + int d - 1) div int d \<le> n div int d + 1" "0 \<le> m div int d"
    using assms by (simp_all add: div_round_up pos_imp_zdiv_nonneg_iff)
  have "0 < (m + int d - 1) div int d" using assms by (simp add: pos_imp_zdiv_pos_iff)
  moreover note FileBytesToBlocks_eq [of m d] FileBytesToBlocks_eq [of n d]
  ultimately show "0 < FileBytesToBlocks m d" "FileBytesToBlocks m d \<le> FileBytesToBlocks n d"
    using assms le up by (simp_all split: if_splits)
qed


section \<open>Allocation and deallocation keep the invariant\<close>

definition alloc_branch ::
  "(block_ref \<Rightarrow> OSErr) \<Rightarrow> ExtendedVCB \<Rightarrow> nat \<Rightarrow> nat \<Rightarrow> nat \<Rightarrow> bool \<Rightarrow>
   (OSErr \<times> ExtendedVCB \<times> nat \<times> nat) option" where
  "alloc_branch bread vcb s m n force =
     (if force then BlockAllocateContig bread vcb s m n else BlockAllocate_any bread vcb s n)"

text \<open>
  \<^verbatim>\<open>BlockAllocate\<close> passes on what its branch found and then touches only the roving
  pointer, the free block count and the dirty flag.
\<close>

lemma BlockAllocate_branch:
  fixes bread vcb s0 req most force
  defines "m \<equiv> FileBytesToBlocks req (blockSize vcb)" and "n \<equiv> FileBytesToBlocks most (blockSize vcb)"
    and "s \<equiv> if s0 = 0 then nextAllocation vcb else s0"
  assumes "hfs_freeblks vcb False \<noteq> 0" "\<not> (force \<and> hfs_freeblks vcb False < m)"
    and "alloc_branch bread vcb s m n force = Some (err, v1, f, k)"
  shows "if err = noErr
         then \<exists>next flags. next \<in> {f, nextAllocation v1} \<and>
                BlockAllocate bread vcb s0 req most force =
                  Some (noErr, v1\<lparr>nextAllocation := next, freeBlocks := u32_sub (freeBlocks v1) k,
                    vcbFlags := flags\<rparr>, f, k)
         else BlockAllocate bread vcb s0 req most force = Some (err, v1, f, k)"
proof -
  have "(if force then BlockAllocate_contig bread vcb s m n else BlockAllocate_any bread vcb s n) =
      Some (err, if force \<and> err = noErr \<and> f > s then v1\<lparr>nextAllocation := f\<rparr> else v1, f, k)"
    using assms(6) by (cases force) (simp_all add: alloc_branch_def BlockAllocate_contig_def)
  then have eq: "BlockAllocate bread vcb s0 req most force =
      (if err = noErr
       then Some (noErr, v1\<lparr>nextAllocation := (if s0 = 0 \<or> force \<and> f > s then f else nextAllocation v1),
              freeBlocks := u32_sub (freeBlocks v1) k, vcbFlags := vcbFlags v1 OR 0xFF00\<rparr>, f, k)
       else Some (err, v1, f, k))"
    using assms(4,5) unfolding BlockAllocate_def
    by (simp add: m_def [symmetric] n_def [symmetric] s_def [symmetric] Let_def MarkVCBDirty_def) blast
  show ?thesis
  proof (cases "err = noErr")
    case True
    then show ?thesis
      unfolding eq if_P [OF True]
      by (intro exI [of _ "if s0 = 0 \<or> force \<and> f > s then f else nextAllocation v1"]
          exI [of _ "vcbFlags v1 OR 0xFF00"] conjI refl) simp
  next
    case False
    then show ?thesis unfolding eq by simp
  qed
qed

lemma alloc_finish:
  assumes "vol_inv bread vcb" "alloc_result vcb n (Some (noErr, v1, f, k))"
    and "next \<in> {f, nextAllocation v1}"
    and "vcb' = v1\<lparr>nextAllocation := next, freeBlocks := u32_sub (freeBlocks v1) k, vcbFlags := flags\<rparr>"
  shows "vol_inv bread vcb'" "0 < k" "k \<le> n" "{f ..< f + k} \<subseteq> free_blocks vcb"
    "free_blocks vcb' = free_blocks vcb - {f ..< f + k}"
proof -
  have v1: "alloc_frame vcb v1" "bitmap_wf v1" "cache_free v1" "run_gained vcb v1 f k"
    and k: "0 < k" "k \<le> n" using assms(2) by (simp_all add: alloc_result_def)
  note frame = alloc_frame_fields [OF v1(1)]
  note run = run_gained_free_blocks [OF v1(4) frame(1)]
  have size: "blockSize v1 = blockSize vcb" using v1(1) by (auto simp: alloc_frame_def)
  have "card (free_blocks v1) = card (free_blocks vcb) - k" "k \<le> card (free_blocks vcb)"
    using run card_Diff_subset [of "{f ..< f + k}" "free_blocks vcb"]
      card_mono [OF free_blocks_finite [of vcb] run(1)] by simp_all
  moreover have "card (free_blocks vcb) < 2 ^ 32"
    using free_blocks_bound [of vcb] assms(1) by (simp add: vol_inv_def)
  ultimately have "u32_sub (freeBlocks v1) k = card (free_blocks v1)"
    using assms(1) by (simp add: vol_inv_def frame u32_sub_exact)
  moreover have "next \<le> totalBlocks v1"
    using assms(1,3) v1(4) by (auto simp: vol_inv_def frame run_gained_def)
  ultimately show "vol_inv bread vcb'"
    unfolding assms(4) using assms(1) v1(2,3)
    by (intro vol_inv_update) (simp_all add: vol_inv_def frame size)
  show "free_blocks vcb' = free_blocks vcb - {f ..< f + k}"
    unfolding assms(4) vol_inv_fields by (rule run(2))
  show "0 < k" "k \<le> n" "{f ..< f + k} \<subseteq> free_blocks vcb" using k run(1) by simp_all
qed

lemma alloc_failed:
  assumes "vol_inv bread vcb" "alloc_result vcb n (Some (dskFulErr, v1, f, k))"
  shows "vol_inv bread v1" "free_blocks v1 = free_blocks vcb" "f = 0" "k = 0"
proof -
  have v1: "alloc_frame vcb v1" "bitmap_wf v1" "cache_free v1" "block_used v1 = block_used vcb"
    and z: "f = 0" "k = 0" using assms(2) by (simp_all add: alloc_result_def)
  note frame = alloc_frame_fields [OF v1(1)]
  have "blockSize v1 = blockSize vcb" using v1(1) by (auto simp: alloc_frame_def)
  then show "vol_inv bread v1" "free_blocks v1 = free_blocks vcb" "f = 0" "k = 0"
    using assms(1) v1 z by (simp_all add: vol_inv_def frame free_blocks_def)
qed

text \<open>What a request needs: a start inside the volume and a sane byte count.\<close>

definition alloc_request :: "ExtendedVCB \<Rightarrow> nat \<Rightarrow> int \<Rightarrow> int \<Rightarrow> bool" where
  "alloc_request vcb s0 req most \<longleftrightarrow>
     s0 \<le> totalBlocks vcb \<and> 0 < req \<and> req \<le> most \<and> most div int (blockSize vcb) < 2 ^ 32 - 1"

lemma alloc_branch_outcome:
  fixes bread vcb s0 req most force
  defines "m \<equiv> FileBytesToBlocks req (blockSize vcb)" and "n \<equiv> FileBytesToBlocks most (blockSize vcb)"
    and "s \<equiv> if s0 = 0 then nextAllocation vcb else s0"
  assumes "vol_inv bread vcb" "alloc_request vcb s0 req most"
    and "force \<longrightarrow> vcbFreeExtCnt vcb = 0" "\<not> force \<longrightarrow> past_end_readable bread vcb"
  obtains (found) v1 f k where "alloc_branch bread vcb s m n force = Some (noErr, v1, f, k)"
      and "alloc_result vcb n (Some (noErr, v1, f, k))" and "force \<Longrightarrow> m \<le> k"
  | (full) v1 where "alloc_branch bread vcb s m n force = Some (dskFulErr, v1, 0, 0)"
      and "alloc_result vcb n (Some (dskFulErr, v1, 0, 0))"
      and "if force then no_fit vcb m (totalBlocks vcb) s (totalBlocks vcb) \<and> no_fit vcb m s 0 s
           else free_blocks vcb = {}"
proof -
  have inv: "bitmap_wf vcb" "bitmap_readable bread vcb" "cache_free vcb"
    and s: "s \<le> totalBlocks vcb" and mn: "0 < m" "m \<le> n"
    using assms(4,5) FileBytesToBlocks_mono [of req most "blockSize vcb"]
    by (auto simp: vol_inv_def alloc_request_def s_def m_def n_def)
  show thesis
  proof (cases force)
    case True
    then have "vcbFreeExtCnt vcb = 0" using assms(6) by simp
    note contig = BlockAllocateContig_outcome [OF inv this mn s]
    have "alloc_branch bread vcb s m n force = BlockAllocateContig bread vcb s m n"
      using True by (simp add: alloc_branch_def)
    with contig found full True show ?thesis by metis
  next
    case False
    then have all: "readable_to bread vcb (totalBlocks vcb)"
      using readable_to_bitmap [OF inv(2)] assms(7) by (simp add: past_end_readable_def)
    have "alloc_branch bread vcb s m n force = BlockAllocate_any bread vcb s n"
      using False by (simp add: alloc_branch_def)
    moreover have "0 < n" using mn by simp
    moreover have "free_blocks vcb = {}" if "used_run vcb 0 (totalBlocks vcb)"
      using that by (auto simp: used_run_def free_blocks_def)
    ultimately show ?thesis
      using BlockAllocate_any_outcome [OF inv(1) all inv(3) _ s] BlockAllocate_any_result [OF inv(1) all inv(3) _ s]
        found full False
      by metis
  qed
qed


section \<open>Properties\<close>

lemma hfs_freeblks_count:
  assumes "loanedBlocks vcb \<le> freeBlocks vcb" "freeBlocks vcb < 2 ^ 32"
  shows "hfs_freeblks vcb False = freeBlocks vcb - loanedBlocks vcb"
  using assms by (simp add: hfs_freeblks_def u32_sub_exact)

lemma small_volume_inv: "vol_inv (\<lambda>_. noErr) small_volume"
proof -
  have "free_blocks small_volume = {..<64}" by (auto simp: free_blocks_def small_volume_wf)
  moreover have "cache_free small_volume"
    by (rule cache_free_empty) (simp_all add: small_volume_def kMaxFreeExtents_def)
  ultimately show ?thesis
    using small_volume_wf by (simp add: vol_inv_def) (simp add: small_volume_def)
qed

lemma small_volume_request:
  "alloc_request small_volume 20 3000 5000" "True \<longrightarrow> vcbFreeExtCnt small_volume = 0"
  "\<not> True \<longrightarrow> past_end_readable bread small_volume"
  by (simp_all add: alloc_request_def small_volume_def)

lemma BlockAllocate_outcome:
  assumes "vol_inv bread vcb" "alloc_request vcb s0 req most"
    and "force \<longrightarrow> vcbFreeExtCnt vcb = 0" "\<not> force \<longrightarrow> past_end_readable bread vcb"
  shows "\<exists>err vcb' f k. BlockAllocate bread vcb s0 req most force = Some (err, vcb', f, k) \<and>
           vol_inv bread vcb' \<and> totalBlocks vcb' = totalBlocks vcb \<and>
           (if err = noErr
            then 0 < k \<and> k \<le> FileBytesToBlocks most (blockSize vcb) \<and>
                 (force \<longrightarrow> FileBytesToBlocks req (blockSize vcb) \<le> k) \<and>
                 {f ..< f + k} \<subseteq> free_blocks vcb \<and> free_blocks vcb' = free_blocks vcb - {f ..< f + k}
            else err = dskFulErr \<and> f = 0 \<and> k = 0 \<and> free_blocks vcb' = free_blocks vcb)"
proof (cases "hfs_freeblks vcb False = 0 \<or>
    force \<and> hfs_freeblks vcb False < FileBytesToBlocks req (blockSize vcb)")
  case True
  then have "BlockAllocate bread vcb s0 req most force = Some (dskFulErr, vcb, 0, 0)"
    by (auto simp: BlockAllocate_def Let_def)
  with assms(1) show ?thesis by simp
next
  case False
  then have enough: "hfs_freeblks vcb False \<noteq> 0"
    "\<not> (force \<and> hfs_freeblks vcb False < FileBytesToBlocks req (blockSize vcb))" by simp_all
  from assms show ?thesis
  proof (cases rule: alloc_branch_outcome)
    case (found v1 f k)
    from BlockAllocate_branch [OF enough found(1)] obtain "next" flags where
      "next \<in> {f, nextAllocation v1}" and "BlockAllocate bread vcb s0 req most force =
        Some (noErr, v1\<lparr>nextAllocation := next, freeBlocks := u32_sub (freeBlocks v1) k, vcbFlags := flags\<rparr>, f, k)"
      by auto
    moreover have "totalBlocks v1 = totalBlocks vcb"
      using found(2) alloc_frame_fields(1) [of vcb v1] by (simp add: alloc_result_def)
    ultimately show ?thesis
      using alloc_finish [OF assms(1) found(2) _ refl] found(3) by auto
  next
    case (full v1)
    from BlockAllocate_branch [OF enough full(1)]
    have "BlockAllocate bread vcb s0 req most force = Some (dskFulErr, v1, 0, 0)" by simp
    moreover have "totalBlocks v1 = totalBlocks vcb"
      using full(2) alloc_frame_fields(1) [of vcb v1] by (simp add: alloc_result_def)
    ultimately show ?thesis using alloc_failed [OF assms(1) full(2)] by simp
  qed
qed

text \<open>
  C9: on a volume with the invariant, \<^verbatim>\<open>BlockAllocate\<close> never panics and keeps the
  invariant, under two conditions. A contiguous request needs an empty cache of free extents,
  which its caller \<^verbatim>\<open>ExtendFileC\<close> sees to by clearing \<^verbatim>\<open>vcbFreeExtCnt\<close> first: the contiguous search
  does not look at the cache, and could hand out blocks that stay listed there as free. A request
  that need not be contiguous needs the bitmap block of the first block behind the volume to be
  readable. On success it hands out a run of blocks that were all free, at most
  as many as asked for and, when the request is contiguous, at least the minimum;
  the free blocks lose exactly this run. Otherwise the disk is reported full and
  no block changes hands.
\<close>

theorem BlockAllocate_safe:
  assumes "vol_inv bread vcb" "alloc_request vcb s0 req most"
    and "force \<longrightarrow> vcbFreeExtCnt vcb = 0" "\<not> force \<longrightarrow> past_end_readable bread vcb"
  shows "\<exists>err vcb' f k. BlockAllocate bread vcb s0 req most force = Some (err, vcb', f, k) \<and>
           vol_inv bread vcb' \<and>
           (if err = noErr
            then 0 < k \<and> k \<le> FileBytesToBlocks most (blockSize vcb) \<and>
                 (force \<longrightarrow> FileBytesToBlocks req (blockSize vcb) \<le> k) \<and>
                 {f ..< f + k} \<subseteq> free_blocks vcb \<and> free_blocks vcb' = free_blocks vcb - {f ..< f + k}
            else err = dskFulErr \<and> f = 0 \<and> k = 0 \<and> free_blocks vcb' = free_blocks vcb)"
  using BlockAllocate_outcome [OF assms] by blast

theorem BlockAllocate_safe_witness:
  "\<exists>err vcb' f k. BlockAllocate (\<lambda>_. noErr) small_volume 20 3000 5000 True = Some (err, vcb', f, k) \<and>
     vol_inv (\<lambda>_. noErr) vcb'"
  using BlockAllocate_safe [OF small_volume_inv small_volume_request] by blast

lemma BlockAllocate_granted:
  assumes "vol_inv bread vcb" "alloc_request vcb s0 req most"
    and "force \<longrightarrow> vcbFreeExtCnt vcb = 0" "\<not> force \<longrightarrow> past_end_readable bread vcb"
    and "loanedBlocks vcb < freeBlocks vcb"
    and "s = (if s0 = 0 then nextAllocation vcb else s0)" "m = FileBytesToBlocks req (blockSize vcb)"
    and "force \<longrightarrow> loanedBlocks vcb + m \<le> freeBlocks vcb \<and>
           (\<exists>g. free_run vcb g (g + m) \<and> (s \<le> g \<and> g + m \<le> totalBlocks vcb \<or> g + m \<le> s))"
  shows "\<exists>vcb' f k. BlockAllocate bread vcb s0 req most force = Some (noErr, vcb', f, k) \<and> 0 < k"
proof -
  have "hfs_freeblks vcb False = freeBlocks vcb - loanedBlocks vcb"
    using assms(1,5) free_blocks_bound [of vcb] by (intro hfs_freeblks_count) (auto simp: vol_inv_def)
  then have enough: "hfs_freeblks vcb False \<noteq> 0"
    "\<not> (force \<and> hfs_freeblks vcb False < FileBytesToBlocks req (blockSize vcb))"
    using assms(5,7,8) by auto
  have m: "0 < m"
    using assms(1,2,7) FileBytesToBlocks_mono(1) [of req most "blockSize vcb"]
    by (simp add: vol_inv_def alloc_request_def)
  from assms(1-4) show ?thesis
  proof (cases rule: alloc_branch_outcome)
    case (found v1 f k)
    moreover from this(2) have "0 < k" by (simp add: alloc_result_def)
    ultimately show ?thesis using BlockAllocate_branch [OF enough found(1)] by auto
  next
    case (full v1)
    have "free_blocks vcb \<noteq> {}" using assms(1,5) by (auto simp: vol_inv_def)
    moreover have "False" if "no_fit vcb m (totalBlocks vcb) s (totalBlocks vcb)" "no_fit vcb m s 0 s"
      "free_run vcb g (g + m)" "s \<le> g \<and> g + m \<le> totalBlocks vcb \<or> g + m \<le> s" for g
      using that m by (auto simp: no_fit_def)
    ultimately show ?thesis
      using full(3) assms(8) unfolding assms(6,7) [symmetric] by (auto split: if_splits)
  qed
qed

lemma BlockAllocate_succeeds_small:
  "\<exists>vcb' f k. BlockAllocate (\<lambda>_. noErr) small_volume 20 3000 5000 True = Some (noErr, vcb', f, k) \<and> 0 < k"
  by (rule BlockAllocate_granted [OF small_volume_inv small_volume_request _ refl refl])
    (auto simp: small_volume_def free_run_def small_volume_wf [unfolded small_volume_def]
      FileBytesToBlocks_def c_div_nonneg u32_add_def intro!: exI [of _ 30])

text \<open>
  C10: on a volume with the invariant and fewer blocks on loan than free, \<^verbatim>\<open>BlockAllocate\<close>
  succeeds. A request that need not be contiguous is always granted a run, provided the bitmap
  block of the first block behind the volume can be read. A contiguous one is granted when the
  cache of free extents is empty, at least the minimum of blocks is free and not on loan, and some
  free run of the minimum length lies wholly at or above, or wholly below, the starting block.
\<close>

theorem BlockAllocate_succeeds:
  assumes "vol_inv bread vcb" "alloc_request vcb s0 req most"
    and "force \<longrightarrow> vcbFreeExtCnt vcb = 0" "\<not> force \<longrightarrow> past_end_readable bread vcb"
    and "loanedBlocks vcb < freeBlocks vcb"
    and "s = (if s0 = 0 then nextAllocation vcb else s0)" "m = FileBytesToBlocks req (blockSize vcb)"
    and "force \<longrightarrow> loanedBlocks vcb + m \<le> freeBlocks vcb \<and>
           (\<exists>g. free_run vcb g (g + m) \<and> (s \<le> g \<and> g + m \<le> totalBlocks vcb \<or> g + m \<le> s))"
  shows "\<exists>vcb' f k. BlockAllocate bread vcb s0 req most force = Some (noErr, vcb', f, k) \<and> 0 < k"
  by (rule BlockAllocate_granted [OF assms])

theorem BlockAllocate_succeeds_witness:
  "\<exists>vcb' f k. BlockAllocate (\<lambda>_. noErr) small_volume 20 3000 5000 True = Some (noErr, vcb', f, k) \<and> 0 < k"
  by (rule BlockAllocate_succeeds [OF small_volume_inv small_volume_request _ refl refl])
    (auto simp: small_volume_def free_run_def small_volume_wf [unfolded small_volume_def]
      FileBytesToBlocks_def c_div_nonneg u32_add_def intro!: exI [of _ 30])


lemma used_run_clear:
  assumes "cache_free vcb" "used_run vcb a b"
  shows "cache_clear vcb a b"
  using assms unfolding cache_free_blocks cache_clear_def used_run_def by fastforce

lemma BlockDeallocate_outcome:
  assumes "vol_inv bread vcb" "f + k \<le> totalBlocks vcb" "used_run vcb f (f + k)"
  shows "\<exists>vcb'. BlockDeallocate bread vcb f k = Some (noErr, vcb') \<and> vol_inv bread vcb' \<and>
           free_blocks vcb' = free_blocks vcb \<union> {f ..< f + k} \<and> totalBlocks vcb' = totalBlocks vcb"
proof (cases "k = 0")
  case True
  with assms(1) show ?thesis by (simp add: BlockDeallocate_def)
next
  case False
  have inv: "bitmap_wf vcb" "bitmap_readable bread vcb" "cache_free vcb"
    using assms(1) by (simp_all add: vol_inv_def)
  have lim: "f + k < 2 ^ 32" using assms(2) inv(1) by (simp add: bitmap_wf_def)
  have "mark_expected MarkFree vcb f k" using assms(3) by (simp add: mark_expected_def used_run_def)
  then obtain v1 where v1: "BlockMarkFree bread vcb f k = Some (noErr, v1)" "bitmap_wf v1"
    and upd: "bitmap_updated vcb v1 f k False"
    using BlockMark_ok [of vcb bread f k MarkFree] inv(1,2) assms(2) False
    by (auto simp: BlockMarkFree_def)
  note frame = alloc_frame_fields [OF alloc_frameI(2) [OF upd]]
  have size: "blockSize v1 = blockSize vcb" using upd by (auto simp: bitmap_updated_def)
  have free: "free_blocks v1 = free_blocks vcb \<union> {f ..< f + k}"
    using upd assms(2) by (auto simp: bitmap_updated_def free_blocks_def frame)
  have "free_blocks vcb \<inter> {f ..< f + k} = {}" using assms(3) by (auto simp: used_run_def free_blocks_def)
  then have card: "card (free_blocks v1) = freeBlocks vcb + k"
    using assms(1) unfolding free by (simp add: card_Un_disjoint vol_inv_def)
  define nxt where "nxt = (if nextAllocation v1 = u32_add f k then f else nextAllocation v1)"
  define v2 where "v2 = v1\<lparr>nextAllocation := nxt, freeBlocks := u32_add (freeBlocks v1) k,
      vcbFlags := vcbFlags v1 OR 0xFF00\<rparr>"
  have "u32_sub (u32_add f k) k = f" using lim by (simp add: u32_add_exact u32_sub_exact)
  then have "BlockDeallocate bread vcb f k = Some (noErr, v2)"
    using False v1(1) by (simp add: BlockDeallocate_def v2_def nxt_def Let_def MarkVCBDirty_def)
  moreover have "vol_inv bread v2"
    unfolding v2_def
  proof (rule vol_inv_update)
    show "cache_free v1" by (rule cache_free_marked [OF inv(3) used_run_clear [OF inv(3) assms(3)] upd])
    show "nxt \<le> totalBlocks v1" using assms(1,2) by (simp add: nxt_def frame vol_inv_def)
    show "u32_add (freeBlocks v1) k = card (free_blocks v1)"
      using card free_blocks_bound [OF v1(2)] by (simp add: u32_add_exact frame)
  qed (use v1(2) inv(2) assms(1) size in \<open>simp_all add: frame vol_inv_def\<close>)
  moreover have "free_blocks v2 = free_blocks v1" unfolding v2_def vol_inv_fields ..
  moreover have "totalBlocks v2 = totalBlocks vcb" by (simp add: v2_def frame)
  ultimately show ?thesis using free by blast
qed

text \<open>
  C11: \<^verbatim>\<open>BlockDeallocate\<close> of a run of used blocks succeeds, keeps the volume
  invariant and adds exactly the run to the free blocks; if a block of the
  run is free already, it panics.
\<close>

theorem BlockDeallocate_exact:
  assumes "vol_inv bread vcb" "f + k \<le> totalBlocks vcb"
  shows "if \<forall>b. f \<le> b \<and> b < f + k \<longrightarrow> block_used vcb b
         then \<exists>vcb'. BlockDeallocate bread vcb f k = Some (noErr, vcb') \<and> vol_inv bread vcb' \<and>
                free_blocks vcb' = free_blocks vcb \<union> {f ..< f + k}
         else BlockDeallocate bread vcb f k = None"
proof (cases "used_run vcb f (f + k)")
  case True
  with BlockDeallocate_outcome [OF assms] show ?thesis by (auto simp: used_run_def)
next
  case False
  then have "0 < k" by (rule contrapos_np) (simp add: used_run_def)
  have inv: "bitmap_wf vcb" "bitmap_readable bread vcb"
    using assms(1) by (simp_all add: vol_inv_def)
  have "\<not> mark_expected MarkFree vcb f k" using False by (simp add: mark_expected_def used_run_def)
  then have "BlockMarkFree bread vcb f k = None"
    using BlockMark_marked [of vcb bread f k MarkFree] inv assms(2) \<open>0 < k\<close>
    by (simp add: BlockMarkFree_def marked_def)
  with False \<open>0 < k\<close> show ?thesis by (auto simp: BlockDeallocate_def used_run_def)
qed

theorem BlockDeallocate_exact_witness:
  "BlockDeallocate (\<lambda>_. noErr) small_volume 20 5 = None"
  using BlockDeallocate_exact [OF small_volume_inv, of 20 5] by (auto simp: small_volume_wf split: if_splits)

text \<open>
  C12: under the conditions of the safety of \<^verbatim>\<open>BlockAllocate\<close>, giving back what it handed out on
  success is possible, keeps the invariant and restores the free blocks and their count.
\<close>

theorem BlockAllocate_Deallocate:
  assumes "vol_inv bread vcb" "alloc_request vcb s0 req most"
    and "force \<longrightarrow> vcbFreeExtCnt vcb = 0" "\<not> force \<longrightarrow> past_end_readable bread vcb"
    and "BlockAllocate bread vcb s0 req most force = Some (noErr, vcb1, f, k)"
  shows "\<exists>vcb2. BlockDeallocate bread vcb1 f k = Some (noErr, vcb2) \<and> vol_inv bread vcb2 \<and>
           free_blocks vcb2 = free_blocks vcb \<and> freeBlocks vcb2 = freeBlocks vcb"
proof -
  have v1: "vol_inv bread vcb1" "totalBlocks vcb1 = totalBlocks vcb"
    and run: "0 < k" "{f ..< f + k} \<subseteq> free_blocks vcb" "free_blocks vcb1 = free_blocks vcb - {f ..< f + k}"
    using BlockAllocate_outcome [OF assms(1-4)] assms(5) by auto
  have "f + k - 1 \<in> free_blocks vcb" using run(1,2) by fastforce
  then have "f + k \<le> totalBlocks vcb1" using run(1) by (auto simp: free_blocks_def v1(2))
  moreover have "block_used vcb1 b" if "b \<in> {f ..< f + k}" for b
  proof -
    have "b \<in> free_blocks vcb" "b \<notin> free_blocks vcb1" using that run(2,3) by blast+
    then show ?thesis by (simp add: free_blocks_def v1(2))
  qed
  then have "used_run vcb1 f (f + k)" by (simp add: used_run_def)
  ultimately obtain vcb2 where vcb2: "BlockDeallocate bread vcb1 f k = Some (noErr, vcb2)"
    "vol_inv bread vcb2" "free_blocks vcb2 = free_blocks vcb1 \<union> {f ..< f + k}"
    using BlockDeallocate_outcome [OF v1(1)] by blast
  then have "free_blocks vcb2 = free_blocks vcb" using run(2,3) by blast
  with vcb2 assms(1) show ?thesis by (simp add: vol_inv_def)
qed

theorem BlockAllocate_Deallocate_witness:
  "\<exists>vcb1 f k vcb2. BlockAllocate (\<lambda>_. noErr) small_volume 20 3000 5000 True = Some (noErr, vcb1, f, k) \<and>
     BlockDeallocate (\<lambda>_. noErr) vcb1 f k = Some (noErr, vcb2) \<and> freeBlocks vcb2 = 64"
proof -
  obtain vcb1 f k where "BlockAllocate (\<lambda>_. noErr) small_volume 20 3000 5000 True = Some (noErr, vcb1, f, k)"
    using BlockAllocate_succeeds_small by blast
  with BlockAllocate_Deallocate [OF small_volume_inv small_volume_request this] show ?thesis
    by (auto simp: small_volume_def)
qed

text \<open>
  C16: \<^verbatim>\<open>FileBytesToBlocks\<close> rounds byte counts below 4 GiB up to whole blocks. From
  4 GiB on, the product it compares with has wrapped around at 32 bits, so it adds a block
  also when the count is a multiple of the block size.
\<close>

theorem FileBytesToBlocks_rounds:
  assumes "0 \<le> n" "0 < d" "n div int d < 2 ^ 32 - 1"
  shows "int (FileBytesToBlocks n d) =
           (if n < 2 ^ 32 \<or> n mod int d \<noteq> 0 then (n + int d - 1) div int d else n div int d + 1)"
proof -
  have "0 \<le> n div int d" using assms by (simp add: pos_imp_zdiv_nonneg_iff)
  moreover have "0 \<le> (n + int d - 1) div int d" using assms by (simp add: pos_imp_zdiv_nonneg_iff)
  ultimately show ?thesis
    unfolding FileBytesToBlocks_eq [OF assms] using div_round_up [of "int d" n] assms(2) by simp
qed

theorem FileBytesToBlocks_rounds_witness:
  "FileBytesToBlocks 4097 4096 = 2 \<and> FileBytesToBlocks (2 ^ 32) 4096 = 2 ^ 20 + 1"
  using FileBytesToBlocks_rounds [of 4097 4096] FileBytesToBlocks_rounds [of "2 ^ 32" 4096] by simp

lemma hfs_freeblks_wraps:
  assumes "freeBlocks vcb < loanedBlocks vcb" "loanedBlocks vcb < 2 ^ 32"
  shows "hfs_freeblks vcb False = 2 ^ 32 - (loanedBlocks vcb - freeBlocks vcb)"
  using assms u32_sub_cases [of "freeBlocks vcb" "loanedBlocks vcb"]
  by (simp add: hfs_freeblks_def Let_def)

text \<open>
  C18: blocks on loan are promised to data that has no place on disk yet, and \<^verbatim>\<open>BlockAllocate\<close> is
  to leave them alone: when all free blocks are on loan it reports a full disk. But once more
  blocks are on loan than are free, the 32-bit difference in \<^verbatim>\<open>hfs_freeblks\<close> wraps around, the
  check passes, and every request that need not be contiguous is granted free blocks as long as
  one is left.
\<close>

theorem BlockAllocate_gives_away_loans:
  assumes "vol_inv bread vcb" "alloc_request vcb s0 req most" "past_end_readable bread vcb"
    and "0 < freeBlocks vcb" "loanedBlocks vcb < 2 ^ 32"
  shows "(loanedBlocks vcb = freeBlocks vcb \<longrightarrow>
            BlockAllocate bread vcb s0 req most False = Some (dskFulErr, vcb, 0, 0)) \<and>
         (freeBlocks vcb < loanedBlocks vcb \<longrightarrow>
            (\<exists>vcb' f k. BlockAllocate bread vcb s0 req most False = Some (noErr, vcb', f, k) \<and> 0 < k \<and>
               {f ..< f + k} \<subseteq> free_blocks vcb))"
proof (intro conjI impI)
  assume "loanedBlocks vcb = freeBlocks vcb"
  then have "hfs_freeblks vcb False = 0" using assms(5) by (simp add: hfs_freeblks_def)
  then show "BlockAllocate bread vcb s0 req most False = Some (dskFulErr, vcb, 0, 0)"
    by (simp add: BlockAllocate_def Let_def)
next
  assume "freeBlocks vcb < loanedBlocks vcb"
  then have "hfs_freeblks vcb False \<noteq> 0" using hfs_freeblks_wraps [OF _ assms(5)] assms(5) by simp
  then have enough: "hfs_freeblks vcb False \<noteq> 0"
    "\<not> (False \<and> hfs_freeblks vcb False < FileBytesToBlocks req (blockSize vcb))" by simp_all
  have free: "free_blocks vcb \<noteq> {}" using assms(1,4) by (auto simp: vol_inv_def)
  have "False \<longrightarrow> vcbFreeExtCnt vcb = 0" "\<not> False \<longrightarrow> past_end_readable bread vcb"
    using assms(3) by simp_all
  with assms(1,2) show "\<exists>vcb' f k. BlockAllocate bread vcb s0 req most False = Some (noErr, vcb', f, k) \<and>
      0 < k \<and> {f ..< f + k} \<subseteq> free_blocks vcb"
  proof (cases rule: alloc_branch_outcome)
    case (found v1 f k)
    then have "0 < k" "{f ..< f + k} \<subseteq> free_blocks vcb"
      by (auto simp: alloc_result_def run_gained_def free_run_def free_blocks_def)
    then show ?thesis using BlockAllocate_branch [OF enough found(1)] by auto
  next
    case (full v1)
    with free show ?thesis by simp
  qed
qed

theorem BlockAllocate_gives_away_loans_witness:
  "\<exists>vcb' f k. BlockAllocate (\<lambda>_. noErr) (small_volume\<lparr>loanedBlocks := 66\<rparr>) 20 3000 5000 False =
     Some (noErr, vcb', f, k) \<and> 0 < k"
proof -
  let ?v = "small_volume\<lparr>loanedBlocks := 66\<rparr>"
  have "vol_inv (\<lambda>_. noErr) ?v"
    using small_volume_inv by (simp add: vol_inv_loaned)
  moreover have "alloc_request ?v 20 3000 5000" by (simp add: alloc_request_def small_volume_def)
  moreover have "freeBlocks ?v = 64" "loanedBlocks ?v = 66" by (simp_all add: small_volume_def)
  ultimately show ?thesis
    using BlockAllocate_gives_away_loans [of "\<lambda>_. noErr" ?v 20 3000 5000] by (auto simp: past_end_readable_def)
qed

end
