(* ===== verification/NodeBytes.thy ===== *)
theory NodeBytes
  imports Prelude "HOL-Library.Word" "HOL-Library.Monad_Syntax"
begin

text \<open>
  Buffers of bytes as the B-tree code uses them: a node is a list of bytes and
  every access names an offset. An access outside the buffer, which C leaves
  undefined, is \<^const>\<open>None\<close>; an operation that is shown to return \<^const>\<open>Some\<close> stays
  inside its buffer.

  Integers in a node are in the byte order of the host, which swaps a node when
  it is read (\<^verbatim>\<open>src/hfsplus/hfs_endian.c\<close>); the model takes the little-endian
  order of the i386 and amd64 hosts.
\<close>

section \<open>Accesses\<close>

type_synonym byte = "8 word"

definition u16_add :: "nat \<Rightarrow> nat \<Rightarrow> nat" where
  "u16_add a b = (a + b) mod 2 ^ 16"

definition u16_sub :: "nat \<Rightarrow> nat \<Rightarrow> nat" where
  "u16_sub a b = (a mod 2 ^ 16 + (2 ^ 16 - b mod 2 ^ 16)) mod 2 ^ 16"

definition slice :: "byte list \<Rightarrow> nat \<Rightarrow> nat \<Rightarrow> byte list" where
  "slice m i n = take n (drop i m)"

definition le_nat :: "byte list \<Rightarrow> nat" where
  "le_nat bs = foldr (\<lambda>b v. unat b + 256 * v) bs 0"

primrec le_bytes :: "nat \<Rightarrow> nat \<Rightarrow> byte list" where
  "le_bytes 0 v = []"
| "le_bytes (Suc n) v = of_nat v # le_bytes n (v div 256)"

definition load :: "nat \<Rightarrow> byte list \<Rightarrow> nat \<Rightarrow> nat option" where
  "load n m i = (if i + n \<le> length m then Some (le_nat (slice m i n)) else None)"

abbreviation "load8 \<equiv> load 1"
abbreviation "load16 \<equiv> load 2"
abbreviation "load32 \<equiv> load 4"

definition overwrite :: "byte list \<Rightarrow> nat \<Rightarrow> byte list \<Rightarrow> byte list" where
  "overwrite m i bs = take i m @ bs @ drop (i + length bs) m"

definition copy_in :: "byte list \<Rightarrow> nat \<Rightarrow> byte list \<Rightarrow> byte list option" where
  "copy_in m i bs = (if i + length bs \<le> length m then Some (overwrite m i bs) else None)"

abbreviation "store16 m i v \<equiv> copy_in m i (le_bytes 2 v)"
abbreviation "store32 m i v \<equiv> copy_in m i (le_bytes 4 v)"

text \<open>\<^verbatim>\<open>bcopy\<close> inside one buffer, whatever the overlap, and \<^verbatim>\<open>bzero\<close>.\<close>

definition bcopy :: "byte list \<Rightarrow> nat \<Rightarrow> nat \<Rightarrow> nat \<Rightarrow> byte list option" where
  "bcopy m src dst n = (if src + n \<le> length m then copy_in m dst (slice m src n) else None)"

definition ClearMemory :: "byte list \<Rightarrow> nat \<Rightarrow> nat \<Rightarrow> byte list option" where
  "ClearMemory m i n = copy_in m i (replicate n 0)"

section \<open>Laws of the accesses\<close>

lemma u16_exact:
  "a + b < 65536 \<Longrightarrow> u16_add a b = a + b"
  "b \<le> a \<Longrightarrow> a < 65536 \<Longrightarrow> u16_sub a b = a - b"
proof -
  show "a + b < 65536 \<Longrightarrow> u16_add a b = a + b" by (simp add: u16_add_def)
  assume "b \<le> a" "a < 65536"
  then have "a mod 2 ^ 16 + (2 ^ 16 - b mod 2 ^ 16) = (a - b) + 2 ^ 16" by simp
  then show "u16_sub a b = a - b"
    using \<open>a < 65536\<close> unfolding u16_sub_def by (simp add: less_imp_diff_less)
qed

lemma u16_bound [simp]: "u16_add a b < 65536" "u16_sub a b < 65536"
  by (simp_all add: u16_add_def u16_sub_def)

lemma le_nat_simps [simp]: "le_nat [] = 0" "le_nat (b # bs) = unat b + 256 * le_nat bs"
  by (simp_all add: le_nat_def)

lemma le_nat_zeros [simp]: "le_nat (replicate n 0) = 0"
  by (induction n) simp_all

lemma length_le_bytes [simp]: "length (le_bytes n v) = n"
  by (induction n arbitrary: v) simp_all

lemma unat_byte: "unat (b :: byte) < 256"
  using unsigned_less [of b, where ?'a = nat] by simp

lemma le_nat_bound: "le_nat bs < 256 ^ length bs"
proof (induction bs)
  case (Cons b bs)
  have "unat b < 256" by (rule unat_byte)
  with Cons show ?case by simp
qed simp

lemma le_nat_le_bytes: "le_nat (le_bytes n v) = v mod 256 ^ n"
proof (induction n arbitrary: v)
  case (Suc n)
  have "v mod 256 ^ Suc n = v mod 256 + 256 * (v div 256 mod 256 ^ n)"
    by (metis mod_mult2_eq power_Suc add.commute)
  with Suc show ?case by (simp add: unat_of_nat)
qed simp

lemma le_bytes_le_nat: "le_bytes (length bs) (le_nat bs) = bs"
proof (induction bs)
  case (Cons b bs)
  have b: "unat b < 256" by (rule unat_byte)
  have "of_nat (unat b + 256 * le_nat bs) = b + of_nat 256 * of_nat (le_nat bs)" by simp
  also have "(of_nat 256 :: byte) = 0" by simp
  finally have "of_nat (unat b + 256 * le_nat bs) = b" by simp
  moreover have "(unat b + 256 * le_nat bs) div 256 = le_nat bs" using b by simp
  ultimately show ?case using Cons by simp
qed simp

lemma length_slice [simp]: "i + n \<le> length m \<Longrightarrow> length (slice m i n) = n"
  by (simp add: slice_def)

lemma length_overwrite [simp]: "i + length bs \<le> length m \<Longrightarrow> length (overwrite m i bs) = length m"
  by (simp add: overwrite_def)

lemma overwrite_Nil [simp]: "overwrite m i [] = m"
  by (simp add: overwrite_def)

lemma slice_0 [simp]: "slice m i 0 = []"
  by (simp add: slice_def)

lemma slice_append: "slice m i (a + b) = slice m i a @ slice m (i + a) b"
  by (simp add: slice_def take_add add.commute)

lemma slice_overwrite:
  assumes "i + length bs \<le> length m"
  shows "j + n \<le> i \<Longrightarrow> slice (overwrite m i bs) j n = slice m j n"
    and "i + length bs \<le> j \<Longrightarrow> slice (overwrite m i bs) j n = slice m j n"
    and "slice (overwrite m i bs) i (length bs) = bs"
    and "take i (overwrite m i bs) = take i m"
proof -
  have len: "length (take i m) = i" using assms by simp
  show "slice (overwrite m i bs) j n = slice m j n" if "j + n \<le> i"
  proof -
    have "slice (overwrite m i bs) j n = slice (take i m) j n"
      using that len by (simp add: overwrite_def slice_def)
    also have "\<dots> = slice m j n" using that by (simp add: slice_def drop_take min_def)
    finally show ?thesis .
  qed
  show "slice (overwrite m i bs) j n = slice m j n" if "i + length bs \<le> j"
    using that len by (simp add: overwrite_def slice_def)
  show "slice (overwrite m i bs) i (length bs) = bs" "take i (overwrite m i bs) = take i m"
    using len by (simp_all add: overwrite_def slice_def)
qed

lemma slice_overwrite_other:
  "i + length bs \<le> length m \<Longrightarrow> j + n \<le> i \<or> i + length bs \<le> j \<Longrightarrow>
     slice (overwrite m i bs) j n = slice m j n"
  using slice_overwrite(1,2) by blast

lemma le_nat_slice: "le_nat (slice m i n) < 256 ^ n"
proof -
  have "length (slice m i n) \<le> n" by (simp add: slice_def)
  then have "(256 :: nat) ^ length (slice m i n) \<le> 256 ^ n" by (simp add: power_increasing)
  with le_nat_bound [of "slice m i n"] show ?thesis by (rule less_le_trans)
qed

lemma load_Some: "load n m i = Some v \<longleftrightarrow> i + n \<le> length m \<and> v = le_nat (slice m i n)"
  by (auto simp: load_def)

lemma copy_in_Some: "copy_in m i bs = Some m' \<longleftrightarrow> i + length bs \<le> length m \<and> m' = overwrite m i bs"
  by (auto simp: copy_in_def)

lemma copy_in_ok: "i + length bs \<le> length m \<Longrightarrow> copy_in m i bs = Some (overwrite m i bs)"
  by (simp add: copy_in_def)

lemma load_overwrite:
  assumes "i + length bs \<le> length m"
  shows "j + n \<le> i \<Longrightarrow> load n (overwrite m i bs) j = load n m j"
    and "i + length bs \<le> j \<Longrightarrow> load n (overwrite m i bs) j = load n m j"
    and "load (length bs) (overwrite m i bs) i = Some (le_nat bs)"
  using assms by (simp_all add: load_def slice_overwrite)

lemma load_bound: "load n m i = Some v \<Longrightarrow> v < 256 ^ n"
  using le_nat_bound [of "slice m i n"] by (auto simp: load_Some)

lemma slice_slice: "a + b \<le> n \<Longrightarrow> slice (slice m i n) a b = slice m (i + a) b"
  by (simp add: slice_def drop_take min_def add.commute)


lemma overwrite_append:
  assumes "a + length x + length y \<le> length m"
  shows "overwrite (overwrite m a x) (a + length x) y = overwrite m a (x @ y)"
  using assms by (simp add: overwrite_def ac_simps)

lemma overwrite_again:
  assumes "a + length y \<le> length m" "length x \<le> length y"
  shows "overwrite (overwrite m a x) a y = overwrite m a y"
  using assms by (simp add: overwrite_def add.commute)

end
