(* ===== verification/BTreeNode.thy ===== *)
theory BTreeNode
  imports NodeBytes
begin

unbundle bit_operations_syntax

text \<open>
  B-tree nodes, after \<^verbatim>\<open>src/hfsplus/hfscommon/BTree/BTreeNodeOps.c\<close>. A node is a buffer
  of \<^verbatim>\<open>nodeSize\<close> bytes: a descriptor of 14 bytes, the records one after another, free
  space, and at the end, growing downwards, a table of 16-bit record offsets with one
  more entry for the free space.

  The operations work on the bytes. \<open>node_rep\<close> says which list of records a buffer
  holds; the lemmas give each operation as one on that list. A result \<^const>\<open>None\<close> is an
  access outside the node.
\<close>

section \<open>The control block and the descriptor\<close>

type_synonym KeyPtr = "byte list"

record BTreeControlBlock =
  treeDepth :: nat
  keyCompareProc :: "KeyPtr \<Rightarrow> KeyPtr \<Rightarrow> int option"
  rootNode :: nat
  leafRecords :: nat
  firstLeafNode :: nat
  lastLeafNode :: nat
  nodeSize :: nat
  maxKeyLength :: nat
  totalNodes :: nat
  freeNodes :: nat
  btflags :: nat
  attributes :: nat
  writeCount :: nat
  lastfsync :: nat
  btreeType :: nat

definition kBTBigKeysMask :: nat where "kBTBigKeysMask = 2"
definition kBTVariableIndexKeysMask :: nat where "kBTVariableIndexKeysMask = 4"
definition kBTHeaderDirty :: nat where "kBTHeaderDirty = 1"
definition kBTLeafNode :: int where "kBTLeafNode = - 1"
definition kBTIndexNode :: int where "kBTIndexNode = 0"
definition kBTHeaderNode :: int where "kBTHeaderNode = 1"
definition kBTMapNode :: int where "kBTMapNode = 2"

definition fsBTInvalidNodeErr :: OSErr where "fsBTInvalidNodeErr = btBadNode"
definition fsBTRecordNotFoundErr :: OSErr where "fsBTRecordNotFoundErr = btNotFound"

text \<open>The fields of \<^verbatim>\<open>BTNodeDescriptor\<close>, 14 bytes.\<close>

definition node_fLink :: "byte list \<Rightarrow> nat option" where "node_fLink node = load32 node 0"
definition node_bLink :: "byte list \<Rightarrow> nat option" where "node_bLink node = load32 node 4"
definition node_kind :: "byte list \<Rightarrow> int option" where
  "node_kind node = (if 8 < length node then Some (sint (node ! 8)) else None)"
definition node_height :: "byte list \<Rightarrow> nat option" where "node_height node = load8 node 9"
definition node_numRecords :: "byte list \<Rightarrow> nat option" where "node_numRecords node = load16 node 10"

abbreviation (input) sizeof_BTNodeDescriptor :: nat where "sizeof_BTNodeDescriptor \<equiv> 14"
abbreviation (input) kOffsetSize :: nat where "kOffsetSize \<equiv> 2"

definition BigKeys :: "BTreeControlBlock \<Rightarrow> bool" where
  "BigKeys bt \<longleftrightarrow> attributes bt AND kBTBigKeysMask \<noteq> 0"

definition KeyLength :: "BTreeControlBlock \<Rightarrow> KeyPtr \<Rightarrow> nat option" where
  "KeyLength bt key = (if BigKeys bt then load16 key 0 else load8 key 0)"

definition CalcKeySize :: "BTreeControlBlock \<Rightarrow> KeyPtr \<Rightarrow> nat option" where
  "CalcKeySize bt key =
     (if BigKeys bt then map_option (\<lambda>n. n + 2) (load16 key 0) else map_option (\<lambda>n. n + 1) (load8 key 0))"

section \<open>Record offsets\<close>

text \<open>
  Offsets are 16-bit. As a pointer, \<^verbatim>\<open>GetRecordAddress\<close> adds a signed short to the
  node, so an offset of \<open>2 ^ 15\<close> or more would point before the node.
\<close>

definition GetOffsetAddress :: "BTreeControlBlock \<Rightarrow> nat \<Rightarrow> nat option" where
  "GetOffsetAddress bt index =
     (if 2 * index + 2 \<le> nodeSize bt then Some (nodeSize bt - 2 * index - 2) else None)"

definition GetRecordOffset :: "BTreeControlBlock \<Rightarrow> byte list \<Rightarrow> nat \<Rightarrow> nat option" where
  "GetRecordOffset bt node index = do { a \<leftarrow> GetOffsetAddress bt index; load16 node a }"

definition GetRecordAddress :: "BTreeControlBlock \<Rightarrow> byte list \<Rightarrow> nat \<Rightarrow> nat option" where
  "GetRecordAddress bt node index = do {
     a \<leftarrow> GetRecordOffset bt node index;
     if a < 2 ^ 15 then Some a else None
   }"

definition GetRecordSize :: "BTreeControlBlock \<Rightarrow> byte list \<Rightarrow> nat \<Rightarrow> nat option" where
  "GetRecordSize bt node index = do {
     a \<leftarrow> GetRecordOffset bt node index;
     b \<leftarrow> GetRecordOffset bt node (index + 1);
     Some (u16_sub b a)
   }"

definition GetNodeDataSize :: "BTreeControlBlock \<Rightarrow> byte list \<Rightarrow> nat option" where
  "GetNodeDataSize bt node = do {
     n \<leftarrow> node_numRecords node;
     freeOffset \<leftarrow> GetRecordOffset bt node n;
     Some (u16_sub (u16_add freeOffset (2 * n)) sizeof_BTNodeDescriptor)
   }"

definition GetNodeFreeSize :: "BTreeControlBlock \<Rightarrow> byte list \<Rightarrow> nat option" where
  "GetNodeFreeSize bt node = do {
     n \<leftarrow> node_numRecords node;
     freeOffset \<leftarrow> GetRecordOffset bt node n;
     Some (u16_sub (u16_sub (u16_sub (nodeSize bt) freeOffset) (2 * n)) kOffsetSize)
   }"

definition GetRecordByIndex ::
  "BTreeControlBlock \<Rightarrow> byte list \<Rightarrow> nat \<Rightarrow> (OSErr + nat \<times> nat \<times> nat) option" where
  "GetRecordByIndex bt node index = do {
     n \<leftarrow> node_numRecords node;
     if index \<ge> n then Some (Inl fsBTRecordNotFoundErr)
     else do {
       offset \<leftarrow> GetRecordOffset bt node index;
       keySize \<leftarrow> CalcKeySize bt (drop offset node);
       let keySize = keySize mod 2 ^ 16;
       let keySize = (if odd keySize then u16_add keySize 1 else keySize);
       let data = u16_add offset keySize;
       nextOffset \<leftarrow> GetRecordOffset bt node (index + 1);
       Some (Inr (offset, data, u16_sub nextOffset data))
     }
   }"

definition GetChildNodeNum :: "BTreeControlBlock \<Rightarrow> byte list \<Rightarrow> nat \<Rightarrow> nat option" where
  "GetChildNodeNum bt node index = do {
     pos \<leftarrow> GetRecordAddress bt node index;
     keySize \<leftarrow> CalcKeySize bt (drop pos node);
     load32 node (pos + keySize)
   }"

text \<open>The loops over the offset table: \<open>k\<close> is \<^verbatim>\<open>numOffsets\<close>.\<close>

fun InsertOffset_loop :: "byte list \<Rightarrow> nat \<Rightarrow> nat \<Rightarrow> nat \<Rightarrow> nat \<Rightarrow> byte list option" where
  "InsertOffset_loop node src dst delta k = do {
     v \<leftarrow> load16 node src;
     node \<leftarrow> store16 node dst (u16_add v delta);
     if k = 0 then Some node else InsertOffset_loop node (src + 2) (dst + 2) delta (k - 1)
   }"

definition InsertOffset :: "BTreeControlBlock \<Rightarrow> byte list \<Rightarrow> nat \<Rightarrow> nat \<Rightarrow> byte list option" where
  "InsertOffset bt node index delta = do {
     n \<leftarrow> node_numRecords node;
     src \<leftarrow> GetOffsetAddress bt n;
     dst \<leftarrow> GetOffsetAddress bt (n + 1);
     node \<leftarrow> store16 node 10 (u16_add n 1);
     InsertOffset_loop node src dst delta (u16_sub n index)
   }"

fun DeleteOffset_loop :: "byte list \<Rightarrow> nat \<Rightarrow> nat \<Rightarrow> nat \<Rightarrow> nat \<Rightarrow> byte list option" where
  "DeleteOffset_loop node src dst delta 0 = Some node"
| "DeleteOffset_loop node src dst delta (Suc k) =
     (if src < 2 \<or> dst < 2 then None
      else do {
        v \<leftarrow> load16 node (src - 2);
        node \<leftarrow> store16 node (dst - 2) (u16_sub v delta);
        DeleteOffset_loop node (src - 2) (dst - 2) delta k
      })"

definition DeleteOffset :: "BTreeControlBlock \<Rightarrow> byte list \<Rightarrow> nat \<Rightarrow> byte list option" where
  "DeleteOffset bt node index = do {
     dst \<leftarrow> GetOffsetAddress bt index;
     src \<leftarrow> GetOffsetAddress bt (index + 1);
     a \<leftarrow> load16 node dst;
     b \<leftarrow> load16 node src;
     n \<leftarrow> node_numRecords node;
     node \<leftarrow> store16 node 10 (u16_sub n 1);
     DeleteOffset_loop node src dst (u16_sub b a) (u16_sub (u16_sub n 1) index)
   }"


section \<open>Inserting and deleting records\<close>

definition InsertRecord ::
  "BTreeControlBlock \<Rightarrow> byte list \<Rightarrow> nat \<Rightarrow> byte list \<Rightarrow> nat \<Rightarrow> (bool \<times> byte list) option" where
  "InsertRecord bt node index recPtr recSize = do {
     freeSpace \<leftarrow> GetNodeFreeSize bt node;
     if freeSpace < recSize + 2 then Some (False, node)
     else do {
       indexOffset \<leftarrow> GetRecordOffset bt node index;
       n \<leftarrow> node_numRecords node;
       freeOffset \<leftarrow> GetRecordOffset bt node n;
       node \<leftarrow> bcopy node indexOffset (indexOffset + recSize) (u16_sub freeOffset indexOffset);
       node \<leftarrow> InsertOffset bt node index recSize;
       if length recPtr < recSize then None
       else do {
         node \<leftarrow> copy_in node indexOffset (take recSize recPtr);
         Some (True, node)
       }
     }
   }"

definition key_size :: "BTreeControlBlock \<Rightarrow> nat \<Rightarrow> nat" where
  "key_size bt keyLength =
     (let keySize = u16_add keyLength (if BigKeys bt then 2 else 1)
      in if odd keySize then u16_add keySize 1 else keySize)"

definition InsertKeyRecord ::
  "BTreeControlBlock \<Rightarrow> byte list \<Rightarrow> nat \<Rightarrow> KeyPtr \<Rightarrow> nat \<Rightarrow> byte list \<Rightarrow> nat \<Rightarrow>
   (bool \<times> byte list) option" where
  "InsertKeyRecord bt node index keyPtr keyLength recPtr recSize = do {
     let keySize = key_size bt keyLength;
     freeSpace \<leftarrow> GetNodeFreeSize bt node;
     if freeSpace < keySize + recSize + 2 then Some (False, node)
     else do {
       indexOffset \<leftarrow> GetRecordOffset bt node index;
       n \<leftarrow> node_numRecords node;
       freeOffset \<leftarrow> GetRecordOffset bt node n;
       node \<leftarrow> bcopy node indexOffset (indexOffset + keySize + recSize) (u16_sub freeOffset indexOffset);
       node \<leftarrow> InsertOffset bt node index ((keySize + recSize) mod 2 ^ 16);
       let sizeOfLength = (if BigKeys bt then 2 else 1);
       node \<leftarrow> copy_in node indexOffset (le_bytes sizeOfLength keyLength);
       let dst = indexOffset + sizeOfLength;
       rawKeyLength \<leftarrow> KeyLength bt keyPtr;
       if length keyPtr < sizeOfLength + rawKeyLength then None
       else do {
         node \<leftarrow> copy_in node dst (slice keyPtr sizeOfLength rawKeyLength);
         node \<leftarrow> ClearMemory node (dst + rawKeyLength) (u16_sub keySize rawKeyLength);
         if length recPtr < recSize then None
         else do {
           node \<leftarrow> copy_in node (indexOffset + keySize) (take recSize recPtr);
           Some (True, node)
         }
       }
     }
   }"

text \<open>
  \<^verbatim>\<open>DeleteRecord\<close> keeps its offsets in signed shorts; one of \<open>2 ^ 15\<close> or more, or a
  negative length, takes \<^verbatim>\<open>bcopy\<close> or \<^verbatim>\<open>bzero\<close> outside the node.
\<close>

definition DeleteRecord :: "BTreeControlBlock \<Rightarrow> byte list \<Rightarrow> nat \<Rightarrow> byte list option" where
  "DeleteRecord bt node index = do {
     indexOffset \<leftarrow> GetRecordAddress bt node index;
     nextOffset \<leftarrow> GetRecordAddress bt node (index + 1);
     n \<leftarrow> node_numRecords node;
     freeOffset \<leftarrow> GetRecordAddress bt node n;
     if freeOffset < nextOffset then None
     else do {
       node \<leftarrow> bcopy node nextOffset indexOffset (freeOffset - nextOffset);
       node \<leftarrow> DeleteOffset bt node index;
       n \<leftarrow> node_numRecords node;
       a \<leftarrow> GetRecordAddress bt node n;
       if nextOffset < indexOffset then None
       else ClearMemory node a (nextOffset - indexOffset)
     }
   }"

definition ClearNode :: "BTreeControlBlock \<Rightarrow> byte list \<Rightarrow> byte list option" where
  "ClearNode bt node = ClearMemory node 0 (nodeSize bt)"

text \<open>The part of \<^verbatim>\<open>GetNewNode\<close> that sets up the node in the buffer it got.\<close>

definition GetNewNode_init :: "BTreeControlBlock \<Rightarrow> byte list \<Rightarrow> byte list option" where
  "GetNewNode_init bt node = do {
     node \<leftarrow> ClearNode bt node;
     pos \<leftarrow> GetOffsetAddress bt 0;
     store16 node pos sizeof_BTNodeDescriptor
   }"

section \<open>Checking a node\<close>

fun CheckNode_loop ::
  "BTreeControlBlock \<Rightarrow> byte list \<Rightarrow> int \<Rightarrow> nat \<Rightarrow> nat \<Rightarrow> nat \<Rightarrow> (OSErr + nat) option" where
  "CheckNode_loop bt node kind n index prevOffset = do {
     offset \<leftarrow> GetRecordOffset bt node index;
     if odd offset then Some (Inl fsBTInvalidNodeErr)
     else if offset \<ge> prevOffset then Some (Inl fsBTInvalidNodeErr)
     else do {
       bad \<leftarrow> (if kind = kBTLeafNode \<and> index < n
               then map_option (\<lambda>k. k > prevOffset - offset) (CalcKeySize bt (drop offset node))
               else Some False);
       if bad then Some (Inl fsBTInvalidNodeErr)
       else if index = 0 then Some (Inr offset)
       else CheckNode_loop bt node kind n (index - 1) offset
     }
   }"

definition CheckNode :: "BTreeControlBlock \<Rightarrow> int \<Rightarrow> byte list \<Rightarrow> OSErr option" where
  "CheckNode bt fcbEOF node = do {
     let maxNode = (fcbEOF div int (nodeSize bt) - 1) mod 2 ^ 32;
     fLink \<leftarrow> node_fLink node;
     bLink \<leftarrow> node_bLink node;
     kind \<leftarrow> node_kind node;
     height \<leftarrow> node_height node;
     n \<leftarrow> node_numRecords node;
     if int fLink > maxNode \<or> int bLink > maxNode then Some fsBTInvalidNodeErr
     else if kind < kBTLeafNode \<or> kind > kBTMapNode then Some fsBTInvalidNodeErr
     else if height > treeDepth bt then Some fsBTInvalidNodeErr
     else if n = 0 \<or> n > (nodeSize bt - sizeof_BTNodeDescriptor) div 8 then Some fsBTInvalidNodeErr
     else do {
       r \<leftarrow> CheckNode_loop bt node kind n n (u16_sub (nodeSize bt) (2 * n));
       case r of
         Inl err \<Rightarrow> Some err
       | Inr offset \<Rightarrow> Some (if offset < sizeof_BTNodeDescriptor then fsBTInvalidNodeErr else noErr)
     }
   }"

section \<open>Searching a node\<close>

function SearchNode_loop ::
  "BTreeControlBlock \<Rightarrow> byte list \<Rightarrow> KeyPtr \<Rightarrow> int \<Rightarrow> int \<Rightarrow> (bool \<times> nat) option" where
  "SearchNode_loop bt node searchKey lowerBound upperBound =
     (if lowerBound \<le> upperBound then do {
        let index = (lowerBound + upperBound) div 2;
        offset \<leftarrow> GetRecordOffset bt node (nat index);
        result \<leftarrow> keyCompareProc bt searchKey (drop offset node);
        if result < 0 then SearchNode_loop bt node searchKey lowerBound (index - 1)
        else if result > 0 then SearchNode_loop bt node searchKey (index + 1) upperBound
        else Some (True, nat index)
      }
      else Some (False, nat lowerBound))"
  by pat_completeness auto
termination
  by (relation "measure (\<lambda>(bt, node, k, lo, hi). nat (hi - lo + 1))") auto

definition SearchNode :: "BTreeControlBlock \<Rightarrow> byte list \<Rightarrow> KeyPtr \<Rightarrow> (bool \<times> nat) option" where
  "SearchNode bt node searchKey = do {
     n \<leftarrow> node_numRecords node;
     SearchNode_loop bt node searchKey 0 (int n - 1)
   }"

declare InsertOffset_loop.simps [simp del] CheckNode_loop.simps [simp del] SearchNode_loop.simps [simp del]


section \<open>The offset table\<close>

definition entry :: "nat \<Rightarrow> nat \<Rightarrow> nat" where
  "entry sz i = sz - 2 * i - 2"

definition offs :: "nat \<Rightarrow> byte list \<Rightarrow> nat \<Rightarrow> nat" where
  "offs sz node i = le_nat (slice node (entry sz i) 2)"

lemma entry_room: "2 * i + 2 \<le> sz \<Longrightarrow> entry sz i + 2 \<le> sz"
  by (simp add: entry_def)

lemma entry_step: "2 * i + 4 \<le> sz \<Longrightarrow> entry sz (Suc i) + 2 = entry sz i"
  by (simp add: entry_def)

lemma entry_apart: "2 * i + 2 \<le> sz \<Longrightarrow> j < i \<Longrightarrow> entry sz i + 2 \<le> entry sz j"
  by (simp add: entry_def)

lemma entry_le: "i \<le> j \<Longrightarrow> entry sz j \<le> entry sz i"
  by (simp add: entry_def diff_le_mono2)

lemma GetOffsetAddress_entry: "2 * i + 2 \<le> nodeSize bt \<Longrightarrow> GetOffsetAddress bt i = Some (entry (nodeSize bt) i)"
  by (simp add: GetOffsetAddress_def entry_def)

lemma load_offs:
  "length node = sz \<Longrightarrow> 2 * i + 2 \<le> sz \<Longrightarrow> load16 node (entry sz i) = Some (offs sz node i)"
  using entry_room [of i sz] by (simp add: load_def offs_def)

lemma store_offs:
  "length node = sz \<Longrightarrow> 2 * i + 2 \<le> sz \<Longrightarrow>
     store16 node (entry sz i) v = Some (overwrite node (entry sz i) (le_bytes 2 v))"
  using entry_room [of i sz] by (simp add: copy_in_def)

lemma GetRecordOffset_offs:
  "length node = nodeSize bt \<Longrightarrow> 2 * i + 2 \<le> nodeSize bt \<Longrightarrow>
     GetRecordOffset bt node i = Some (offs (nodeSize bt) node i)"
  by (simp add: GetRecordOffset_def GetOffsetAddress_entry load_offs)

lemma offs_bound: "offs sz node i < 65536"
  using le_nat_slice [of node "entry sz i" 2] by (simp add: offs_def)

lemma offs_overwrite:
  assumes "a + length bs \<le> length node" "a + length bs \<le> entry sz i \<or> entry sz i + 2 \<le> a"
  shows "offs sz (overwrite node a bs) i = offs sz node i"
  using assms slice_overwrite_other [of a bs node "entry sz i" 2] by (auto simp: offs_def)

lemma offs_store:
  assumes "length node = sz" "2 * i + 2 \<le> sz" "2 * j + 2 \<le> sz" "v < 65536"
  shows "offs sz (overwrite node (entry sz i) (le_bytes 2 v)) j = (if j = i then v else offs sz node j)"
proof (cases "j = i")
  case True
  have "slice (overwrite node (entry sz i) (le_bytes 2 v)) (entry sz i) 2 = le_bytes 2 v"
    using assms entry_room [of i sz] slice_overwrite(3) [of "entry sz i" "le_bytes 2 v" node] by simp
  with True assms(4) show ?thesis by (simp add: offs_def le_nat_le_bytes)
next
  case False
  then show ?thesis
    using assms entry_room [of i sz] entry_apart [of i sz j] entry_apart [of j sz i]
    by (subst offs_overwrite) (auto simp: linorder_neq_iff)
qed

text \<open>
  Two nodes that agree below \<open>lim\<close>, outside the record count.
\<close>

definition node_same :: "nat \<Rightarrow> byte list \<Rightarrow> byte list \<Rightarrow> bool" where
  "node_same lim node node' \<longleftrightarrow>
     length node' = length node \<and> lim \<le> length node \<and>
     (\<forall>a k. a + k \<le> lim \<and> (a + k \<le> 10 \<or> 12 \<le> a) \<longrightarrow> slice node' a k = slice node a k)"

lemma node_same_refl: "lim \<le> length node \<Longrightarrow> node_same lim node node"
  by (simp add: node_same_def)

lemma node_same_trans:
  "node_same lim node node1 \<Longrightarrow> node_same lim node1 node2 \<Longrightarrow> node_same lim node node2"
  by (simp add: node_same_def)

lemma node_same_mono: "node_same lim node node' \<Longrightarrow> lim' \<le> lim \<Longrightarrow> node_same lim' node node'"
  by (auto simp: node_same_def)

lemma node_same_above:
  assumes "a + length bs \<le> length node" "lim \<le> a"
  shows "node_same lim node (overwrite node a bs)"
  using assms by (auto simp: node_same_def slice_overwrite)

lemma node_same_count:
  assumes "length bs = 2" "12 \<le> length node" "lim \<le> length node"
  shows "node_same lim node (overwrite node 10 bs)"
  using assms by (auto simp: node_same_def slice_overwrite)

lemma InsertOffset_loop_shift:
  assumes "length node = sz" "2 * i + 4 \<le> sz" "k \<le> i" "12 \<le> lim" "lim \<le> entry sz (Suc i)"
  shows "\<exists>node'. InsertOffset_loop node (entry sz i) (entry sz (Suc i)) delta k = Some node' \<and>
           node_same lim node node' \<and> slice node' 10 2 = slice node 10 2 \<and>
           (\<forall>j. 2 * j + 2 \<le> sz \<longrightarrow>
              offs sz node' j = (if i + 1 - k \<le> j \<and> j \<le> i + 1 then u16_add (offs sz node (j - 1)) delta
                                 else offs sz node j))"
  using assms
proof (induction k arbitrary: node i)
  case (0 node i)
  let ?v = "u16_add (offs sz node i) delta"
  let ?n = "overwrite node (entry sz (Suc i)) (le_bytes 2 ?v)"
  have "InsertOffset_loop node (entry sz i) (entry sz (Suc i)) delta 0 = Some ?n"
    using 0 by (subst InsertOffset_loop.simps) (simp add: load_offs store_offs)
  moreover have "node_same lim node ?n"
    using 0 entry_room [of "Suc i" sz] by (intro node_same_above) auto
  moreover have "slice ?n 10 2 = slice node 10 2"
    using 0 entry_room [of "Suc i" sz] by (intro slice_overwrite_other) auto
  moreover have "offs sz ?n j = (if j = Suc i then ?v else offs sz node j)" if "2 * j + 2 \<le> sz" for j
    using 0 that by (intro offs_store) auto
  ultimately show ?case by (intro exI [of _ ?n]) auto
next
  case (Suc k node i)
  let ?v = "u16_add (offs sz node i) delta"
  let ?n = "overwrite node (entry sz (Suc i)) (le_bytes 2 ?v)"
  obtain i' where i: "i = Suc i'" using Suc.prems by (cases i) auto
  have room: "entry sz (Suc i) + 2 \<le> sz" using Suc.prems by (intro entry_room) simp
  then have len: "length ?n = sz" using Suc.prems by simp
  have "InsertOffset_loop node (entry sz i) (entry sz (Suc i)) delta (Suc k) =
      InsertOffset_loop ?n (entry sz i') (entry sz (Suc i')) delta k"
    using Suc.prems entry_step [of i sz] entry_step [of i' sz]
    by (subst InsertOffset_loop.simps) (simp add: load_offs store_offs i)
  moreover obtain node' where "InsertOffset_loop ?n (entry sz i') (entry sz (Suc i')) delta k = Some node'"
    and same: "node_same lim ?n node'" "slice node' 10 2 = slice ?n 10 2"
    and tab: "\<forall>j. 2 * j + 2 \<le> sz \<longrightarrow> offs sz node' j = (if i' + 1 - k \<le> j \<and> j \<le> i' + 1
        then u16_add (offs sz ?n (j - 1)) delta else offs sz ?n j)"
    using Suc.IH [OF len, of i'] Suc.prems i entry_le [of "Suc i'" "Suc i" sz] by auto
  moreover have n: "offs sz ?n j = (if j = Suc i then ?v else offs sz node j)" if "2 * j + 2 \<le> sz" for j
    using Suc.prems that by (intro offs_store) auto
  moreover have "node_same lim node node'"
    using Suc.prems room by (intro node_same_trans [OF node_same_above same(1)]) auto
  moreover have "slice node' 10 2 = slice node 10 2"
    unfolding same(2) using Suc.prems room by (intro slice_overwrite_other) auto
  moreover have "offs sz node' j = (if i + 1 - Suc k \<le> j \<and> j \<le> i + 1 then u16_add (offs sz node (j - 1)) delta
      else offs sz node j)" if "2 * j + 2 \<le> sz" for j
    using tab that i Suc.prems n [of j] n [of "j - 1"] by auto
  ultimately show ?case by (intro exI [of _ node']) simp
qed


lemma count_stored:
  assumes "12 \<le> length node" "n < 65536"
  shows "store16 node 10 n = Some (overwrite node 10 (le_bytes 2 n))"
    "slice (overwrite node 10 (le_bytes 2 n)) 10 2 = le_bytes 2 n"
    "length (overwrite node 10 (le_bytes 2 n)) = length node"
    "12 \<le> entry sz j \<Longrightarrow> offs sz (overwrite node 10 (le_bytes 2 n)) j = offs sz node j"
  using assms slice_overwrite(3) [of 10 "le_bytes 2 n" node] by (auto simp: copy_in_def offs_overwrite)

lemma numRecords_slice:
  "length node' = length node \<Longrightarrow> slice node' 10 2 = slice node 10 2 \<Longrightarrow>
     node_numRecords node' = node_numRecords node"
  by (simp add: node_numRecords_def load_def)

lemma numRecords_count:
  assumes "length node' = length node" "12 \<le> length node" "slice node' 10 2 = le_bytes 2 n" "n < 65536"
  shows "node_numRecords node' = Some n"
  using assms by (simp add: node_numRecords_def load_def le_nat_le_bytes)

lemma InsertOffset_shift:
  assumes "length node = nodeSize bt" "node_numRecords node = Some n" "index \<le> n" "n + 1 < 65536"
    and "2 * n + 4 \<le> nodeSize bt" "12 \<le> lim" "lim \<le> entry (nodeSize bt) (Suc n)"
  shows "\<exists>node'. InsertOffset bt node index delta = Some node' \<and>
           node_same lim node node' \<and> node_numRecords node' = Some (n + 1) \<and>
           (\<forall>j \<le> Suc n. offs (nodeSize bt) node' j =
              (if index < j then u16_add (offs (nodeSize bt) node (j - 1)) delta
               else offs (nodeSize bt) node j))"
proof -
  let ?sz = "nodeSize bt" and ?n1 = "overwrite node 10 (le_bytes 2 (n + 1))"
  have low: "12 \<le> entry ?sz j" if "j \<le> Suc n" for j
    using that assms(6,7) entry_le [of j "Suc n" ?sz] by simp
  have sz: "12 \<le> length node" using low [of 0] entry_room [of 0 ?sz] assms(1,5) by simp
  note cs = count_stored [OF sz assms(4)]
  obtain node' where loop: "InsertOffset_loop ?n1 (entry ?sz n) (entry ?sz (Suc n)) delta (n - index) = Some node'"
    and same: "node_same lim ?n1 node'" "slice node' 10 2 = slice ?n1 10 2"
    and tab: "\<forall>j. 2 * j + 2 \<le> ?sz \<longrightarrow> offs ?sz node' j = (if n + 1 - (n - index) \<le> j \<and> j \<le> n + 1
        then u16_add (offs ?sz ?n1 (j - 1)) delta else offs ?sz ?n1 j)"
    using InsertOffset_loop_shift [of ?n1 ?sz n "n - index" lim delta] assms cs(3) by auto
  have "u16_sub n index = n - index" "u16_add n 1 = n + 1" using assms(3,4) by (simp_all add: u16_exact)
  then have "InsertOffset bt node index delta = Some node'"
    using assms(2,5) cs(1) loop by (simp add: InsertOffset_def GetOffsetAddress_entry)
  moreover have "node_same lim node node'"
    using assms(1,7) sz entry_room [of "Suc n" ?sz] assms(5)
    by (intro node_same_trans [OF node_same_count same(1)]) simp_all
  moreover have "node_numRecords node' = Some (n + 1)"
    using same cs(2,3) sz assms(4) by (intro numRecords_count [of node' node]) (simp_all add: node_same_def)
  moreover have "offs ?sz node' j = (if index < j then u16_add (offs ?sz node (j - 1)) delta else offs ?sz node j)"
    if "j \<le> Suc n" for j
  proof -
    have "2 * j + 2 \<le> ?sz" using that assms(5) by simp
    then have "offs ?sz node' j = (if index < j then u16_add (offs ?sz ?n1 (j - 1)) delta else offs ?sz ?n1 j)"
      using tab that assms(3) by auto
    then show ?thesis using cs(4) [OF low] that by simp
  qed
  ultimately show ?thesis by blast
qed

lemma DeleteOffset_loop_shift:
  assumes "length node = sz" "2 * (i + 1 + k) + 2 \<le> sz" "12 \<le> lim" "lim \<le> entry sz (i + k)"
  shows "\<exists>node'. DeleteOffset_loop node (entry sz (Suc i)) (entry sz i) delta k = Some node' \<and>
           node_same lim node node' \<and> slice node' 10 2 = slice node 10 2 \<and>
           (\<forall>j. 2 * j + 2 \<le> sz \<longrightarrow>
              offs sz node' j = (if i < j \<and> j \<le> i + k then u16_sub (offs sz node (j + 1)) delta
                                 else offs sz node j))"
  using assms
proof (induction k arbitrary: node i)
  case (0 node i)
  then show ?case using entry_room [of i sz] by (auto simp: node_same_refl)
next
  case (Suc k node i)
  let ?v = "u16_sub (offs sz node (Suc (Suc i))) delta"
  let ?n = "overwrite node (entry sz (Suc i)) (le_bytes 2 ?v)"
  have room: "entry sz (Suc i) + 2 \<le> sz" using Suc.prems by (intro entry_room) simp
  then have len: "length ?n = sz" using Suc.prems by simp
  have steps: "entry sz (Suc i) + 2 = entry sz i" "entry sz (Suc (Suc i)) + 2 = entry sz (Suc i)"
    using Suc.prems by (intro entry_step; simp)+
  then have "entry sz i - 2 = entry sz (Suc i)" "entry sz (Suc i) - 2 = entry sz (Suc (Suc i))"
    "\<not> (entry sz (Suc i) < 2 \<or> entry sz i < 2)" by linarith+
  then have "DeleteOffset_loop node (entry sz (Suc i)) (entry sz i) delta (Suc k) =
      DeleteOffset_loop ?n (entry sz (Suc (Suc i))) (entry sz (Suc i)) delta k"
    using Suc.prems by (simp add: load_offs store_offs)
  moreover have lim: "lim \<le> entry sz (Suc i)"
    using Suc.prems entry_le [of "Suc i" "i + Suc k" sz] by simp
  moreover obtain node' where "DeleteOffset_loop ?n (entry sz (Suc (Suc i))) (entry sz (Suc i)) delta k = Some node'"
    and same: "node_same lim ?n node'" "slice node' 10 2 = slice ?n 10 2"
    and tab: "\<forall>j. 2 * j + 2 \<le> sz \<longrightarrow> offs sz node' j = (if Suc i < j \<and> j \<le> Suc i + k
        then u16_sub (offs sz ?n (j + 1)) delta else offs sz ?n j)"
    using Suc.IH [OF len, of "Suc i"] Suc.prems by auto
  moreover have n: "offs sz ?n j = (if j = Suc i then ?v else offs sz node j)" if "2 * j + 2 \<le> sz" for j
    using Suc.prems that by (intro offs_store) auto
  moreover have "node_same lim node node'"
    using Suc.prems room lim by (intro node_same_trans [OF node_same_above same(1)]) auto
  moreover have "slice node' 10 2 = slice node 10 2"
    unfolding same(2) using Suc.prems room lim by (intro slice_overwrite_other) auto
  moreover have "offs sz node' j = (if i < j \<and> j \<le> i + Suc k then u16_sub (offs sz node (j + 1)) delta
      else offs sz node j)" if "2 * j + 2 \<le> sz" for j
    using tab that Suc.prems n [of j] n [of "j + 1"] by auto
  ultimately show ?case by (intro exI [of _ node']) simp
qed


lemma DeleteOffset_shift:
  assumes "length node = nodeSize bt" "node_numRecords node = Some n" "index < n" "n < 65536"
    and "2 * n + 2 \<le> nodeSize bt" "12 \<le> lim" "lim \<le> entry (nodeSize bt) n"
  shows "\<exists>node'. DeleteOffset bt node index = Some node' \<and>
           node_same lim node node' \<and> node_numRecords node' = Some (n - 1) \<and>
           (\<forall>j < n. offs (nodeSize bt) node' j =
              (if index < j
               then u16_sub (offs (nodeSize bt) node (j + 1))
                      (u16_sub (offs (nodeSize bt) node (index + 1)) (offs (nodeSize bt) node index))
               else offs (nodeSize bt) node j))"
proof -
  let ?sz = "nodeSize bt" and ?n1 = "overwrite node 10 (le_bytes 2 (n - 1))"
  let ?d = "u16_sub (offs ?sz node (index + 1)) (offs ?sz node index)"
  have low: "12 \<le> entry ?sz j" if "j \<le> n" for j
    using that assms(6,7) entry_le [of j n ?sz] by simp
  have sz: "12 \<le> length node" using low [of 0] entry_room [of 0 ?sz] assms(1,5) by simp
  have "n - 1 < 65536" using assms(4) by simp
  note cs = count_stored [OF sz this]
  obtain node' where loop: "DeleteOffset_loop ?n1 (entry ?sz (Suc index)) (entry ?sz index) ?d (n - 1 - index) = Some node'"
    and same: "node_same lim ?n1 node'" "slice node' 10 2 = slice ?n1 10 2"
    and tab: "\<forall>j. 2 * j + 2 \<le> ?sz \<longrightarrow> offs ?sz node' j = (if index < j \<and> j \<le> index + (n - 1 - index)
        then u16_sub (offs ?sz ?n1 (j + 1)) ?d else offs ?sz ?n1 j)"
    using DeleteOffset_loop_shift [of ?n1 ?sz index "n - 1 - index" lim ?d] assms cs(3)
      entry_le [of "index + (n - 1 - index)" n ?sz] by auto
  have "u16_sub n 1 = n - 1" "u16_sub (n - 1) index = n - 1 - index"
    using assms(3,4) u16_exact(2) [of 1 n] u16_exact(2) [of index "n - 1"] by auto
  then have "DeleteOffset bt node index = Some node'"
    using assms(1-3,5) cs(1) loop by (simp add: DeleteOffset_def GetOffsetAddress_entry load_offs)
  moreover have "node_same lim node node'"
    using assms(1,7) sz entry_room [of n ?sz] assms(5)
    by (intro node_same_trans [OF node_same_count same(1)]) simp_all
  moreover have "node_numRecords node' = Some (n - 1)"
    using same cs(2,3) sz assms(4) by (intro numRecords_count [of node' node]) (simp_all add: node_same_def)
  moreover have "offs ?sz node' j = (if index < j then u16_sub (offs ?sz node (j + 1)) ?d else offs ?sz node j)"
    if "j < n" for j
  proof -
    have "2 * j + 2 \<le> ?sz" using that assms(5) by simp
    then have "offs ?sz node' j = (if index < j then u16_sub (offs ?sz ?n1 (j + 1)) ?d else offs ?sz ?n1 j)"
      using tab that assms(3) by auto
    then show ?thesis using cs(4) [OF low] that by simp
  qed
  ultimately show ?thesis by blast
qed

section \<open>The records of a node\<close>

definition rec_off :: "nat \<Rightarrow> byte list list \<Rightarrow> nat \<Rightarrow> nat" where
  "rec_off base recs i = base + length (concat (take i recs))"

definition node_rep :: "BTreeControlBlock \<Rightarrow> nat \<Rightarrow> byte list list \<Rightarrow> byte list \<Rightarrow> bool" where
  "node_rep bt base recs node \<longleftrightarrow>
     length node = nodeSize bt \<and> nodeSize bt \<le> 32768 \<and> sizeof_BTNodeDescriptor \<le> base \<and>
     node_numRecords node = Some (length recs) \<and>
     (\<forall>i \<le> length recs. offs (nodeSize bt) node i = rec_off base recs i) \<and>
     slice node base (length (concat recs)) = concat recs \<and>
     2 * length recs + 2 \<le> nodeSize bt \<and>
     rec_off base recs (length recs) \<le> entry (nodeSize bt) (length recs)"

definition insert_at :: "nat \<Rightarrow> 'a \<Rightarrow> 'a list \<Rightarrow> 'a list" where
  "insert_at i x xs = take i xs @ x # drop i xs"

definition delete_at :: "nat \<Rightarrow> 'a list \<Rightarrow> 'a list" where
  "delete_at i xs = take i xs @ drop (Suc i) xs"

lemma length_insert_at [simp]: "i \<le> length xs \<Longrightarrow> length (insert_at i x xs) = Suc (length xs)"
  by (simp add: insert_at_def)

lemma length_delete_at [simp]: "i < length xs \<Longrightarrow> length (delete_at i xs) = length xs - 1"
  by (simp add: delete_at_def)

lemma delete_insert_at: "i \<le> length xs \<Longrightarrow> delete_at i (insert_at i x xs) = xs"
  by (simp add: insert_at_def delete_at_def min_def)

lemma rec_off_mono: "i \<le> j \<Longrightarrow> rec_off base recs i \<le> rec_off base recs j"
  unfolding rec_off_def by (metis add_le_cancel_left concat_append le_Suc_ex length_append le_add1 take_add)

lemma rec_off_Suc: "i < length recs \<Longrightarrow> rec_off base recs (Suc i) = rec_off base recs i + length (recs ! i)"
  by (simp add: rec_off_def take_Suc_conv_app_nth)

lemma rec_off_0 [simp]: "rec_off base recs 0 = base"
  by (simp add: rec_off_def)

lemma rec_off_rest:
  assumes "i \<le> length recs"
  shows "rec_off base recs (length recs) = rec_off base recs i + length (concat (drop i recs))"
  unfolding rec_off_def by (metis append_take_drop_id concat_append length_append order_refl take_all add.assoc)

lemma rec_off_insert:
  assumes "i \<le> length recs" "j \<le> Suc (length recs)"
  shows "rec_off base (insert_at i r recs) j =
           (if i < j then rec_off base recs (j - 1) + length r else rec_off base recs j)"
proof (cases "i < j")
  case True
  then obtain d where j: "j = Suc (i + d)" using less_imp_Suc_add by blast
  have "take j (insert_at i r recs) = take i recs @ r # take d (drop i recs)"
    using assms(1) j by (simp add: insert_at_def min_def)
  moreover have "take (i + d) recs = take i recs @ take d (drop i recs)" by (rule take_add)
  ultimately show ?thesis using j by (simp add: rec_off_def)
next
  case False
  then show ?thesis using assms by (simp add: rec_off_def insert_at_def min_def)
qed

lemma rec_off_delete:
  assumes "i < length recs" "j < length recs"
  shows "rec_off base (delete_at i recs) j =
           (if i < j then rec_off base recs (Suc j) - length (recs ! i) else rec_off base recs j)"
proof (cases "i < j")
  case True
  then obtain d where j: "j = Suc (i + d)" using less_imp_Suc_add by blast
  have "take j (delete_at i recs) = take i recs @ take (Suc d) (drop (Suc i) recs)"
    using assms(1) j by (simp add: delete_at_def min_def)
  moreover have "take (Suc (i + Suc d)) recs = take i recs @ recs ! i # take (Suc d) (drop (Suc i) recs)"
    using assms(1) take_add [of "Suc i" "Suc d" recs] by (simp add: take_Suc_conv_app_nth)
  ultimately show ?thesis using j True by (simp add: rec_off_def)
next
  case False
  then show ?thesis using assms by (simp add: rec_off_def delete_at_def min_def)
qed

lemma node_rep_offset:
  assumes "node_rep bt base recs node" "i \<le> length recs"
  shows "GetRecordOffset bt node i = Some (rec_off base recs i)"
    and "GetRecordAddress bt node i = Some (rec_off base recs i)"
    and "rec_off base recs i + 2 * length recs + 2 \<le> nodeSize bt"
proof -
  have le: "rec_off base recs i \<le> rec_off base recs (length recs)" using assms(2) by (rule rec_off_mono)
  show off: "GetRecordOffset bt node i = Some (rec_off base recs i)"
    using assms by (subst GetRecordOffset_offs) (auto simp: node_rep_def)
  show room: "rec_off base recs i + 2 * length recs + 2 \<le> nodeSize bt"
    using assms(1) le by (auto simp: node_rep_def entry_def)
  show "GetRecordAddress bt node i = Some (rec_off base recs i)"
    using off room assms(1) by (simp add: GetRecordAddress_def node_rep_def)
qed

lemma node_rep_slice:
  assumes "node_rep bt base recs node" "i + k \<le> length recs"
  shows "slice node (rec_off base recs i) (length (concat (take k (drop i recs)))) = concat (take k (drop i recs))"
proof -
  let ?a = "concat (take i recs)" and ?b = "concat (take k (drop i recs))" and ?c = "concat (drop (i + k) recs)"
  have split: "concat recs = ?a @ ?b @ ?c"
    by (metis append_take_drop_id concat_append drop_drop add.commute)
  have "slice (slice node base (length (concat recs))) (length ?a) (length ?b) = slice node (base + length ?a) (length ?b)"
    by (rule slice_slice) (simp add: split)
  moreover have "slice node base (length (concat recs)) = concat recs" using assms(1) by (simp add: node_rep_def)
  moreover have "slice (concat recs) (length ?a) (length ?b) = ?b" unfolding split by (simp add: slice_def)
  ultimately show ?thesis by (simp add: rec_off_def)
qed


lemma node_rep_count: "node_rep bt base recs node \<Longrightarrow> node_numRecords node = Some (length recs)"
  by (simp add: node_rep_def)

lemma node_rep_free:
  assumes "node_rep bt base recs node"
  shows "GetNodeFreeSize bt node = Some (nodeSize bt - rec_off base recs (length recs) - 2 * length recs - 2)"
proof -
  have room: "rec_off base recs (length recs) + 2 * length recs + 2 \<le> nodeSize bt" "nodeSize bt < 65536"
    using assms node_rep_offset(3) [OF assms order_refl] by (simp_all add: node_rep_def)
  let ?f = "rec_off base recs (length recs)"
  have "u16_sub (nodeSize bt) ?f = nodeSize bt - ?f" using room by (intro u16_exact) auto
  moreover have "u16_sub (nodeSize bt - ?f) (2 * length recs) = nodeSize bt - ?f - 2 * length recs"
    using room by (intro u16_exact) auto
  moreover have "u16_sub (nodeSize bt - ?f - 2 * length recs) 2 = nodeSize bt - ?f - 2 * length recs - 2"
    using room by (intro u16_exact) auto
  ultimately show ?thesis
    using node_rep_count [OF assms] node_rep_offset(1) [OF assms order_refl]
    by (simp add: GetNodeFreeSize_def)
qed

text \<open>
  Both insertions open a hole of \<open>sze\<close> bytes at record \<open>i\<close>: the offsets and the count are
  those of the node to be, and the records stand before and after the hole. Whatever
  record of that size is then written there, the node holds it at position \<open>i\<close>.
\<close>

definition node_hole :: "BTreeControlBlock \<Rightarrow> nat \<Rightarrow> byte list list \<Rightarrow> nat \<Rightarrow> nat \<Rightarrow> byte list \<Rightarrow> bool" where
  "node_hole bt base recs i sze node \<longleftrightarrow>
     length node = nodeSize bt \<and> node_numRecords node = Some (length recs + 1) \<and>
     (\<forall>j \<le> Suc (length recs). offs (nodeSize bt) node j =
        (if i < j then rec_off base recs (j - 1) + sze else rec_off base recs j)) \<and>
     slice node base (length (concat (take i recs))) = concat (take i recs) \<and>
     slice node (rec_off base recs i + sze) (length (concat (drop i recs))) = concat (drop i recs)"

lemma node_hole_filled:
  assumes rep: "node_rep bt base recs node" and i: "i \<le> length recs"
    and fits: "rec_off base recs (length recs) + length r + 2 * length recs + 4 \<le> nodeSize bt"
    and hole: "node_hole bt base recs i (length r) node2"
  defines "a \<equiv> rec_off base recs i"
  shows "node_rep bt base (insert_at i r recs) (overwrite node2 a r)"
    "take 10 (overwrite node2 a r) = take 10 node2"
proof -
  let ?sz = "nodeSize bt" and ?n = "length recs" and ?m = "overwrite node2 a r"
  let ?hd = "concat (take i recs)" and ?tail = "concat (drop i recs)"
  have f: "rec_off base recs ?n = a + length ?tail" unfolding a_def using i by (rule rec_off_rest)
  have a: "14 \<le> a" "a = base + length ?hd" using rep by (simp_all add: a_def rec_off_def node_rep_def)
  have lim: "a + length r \<le> entry ?sz (Suc ?n)" "a + length ?tail + length r \<le> entry ?sz (Suc ?n)"
    using fits f by (simp_all add: entry_def)
  have len2: "length node2 = ?sz" using hole by (simp add: node_hole_def)
  have room: "a + length r \<le> length node2" using fits f len2 by simp
  then have lenm: "length ?m = ?sz" using len2 by simp
  show hdr: "take 10 ?m = take 10 node2"
    using room a slice_overwrite_other [of a r node2 0 10] by (simp add: slice_def)
  have "slice ?m 10 2 = slice node2 10 2" using room a by (intro slice_overwrite_other) auto
  then have "node_numRecords ?m = Some (length (insert_at i r recs))"
    using numRecords_slice [of ?m node2] lenm len2 hole i by (simp add: node_hole_def)
  moreover have "offs ?sz ?m j = rec_off base (insert_at i r recs) j" if "j \<le> length (insert_at i r recs)" for j
  proof -
    have j: "j \<le> Suc ?n" using that i by simp
    have "offs ?sz ?m j = offs ?sz node2 j"
      using room lim(1) entry_le [OF j, of ?sz] by (intro offs_overwrite) auto
    then show ?thesis using hole j rec_off_insert [OF i j, of base r] by (simp add: node_hole_def)
  qed
  moreover have "slice ?m base (length (concat (insert_at i r recs))) = concat (insert_at i r recs)"
  proof -
    have "slice ?m base (length ?hd) = ?hd"
      using room a(2) hole slice_overwrite_other [of a r node2 base "length ?hd"] by (simp add: node_hole_def)
    moreover have "slice ?m a (length r) = r" using room by (rule slice_overwrite(3))
    moreover have "slice ?m (a + length r) (length ?tail) = ?tail"
      using room hole slice_overwrite_other [of a r node2 "a + length r" "length ?tail"]
      by (simp add: node_hole_def a_def)
    moreover have "length (concat (insert_at i r recs)) = length ?hd + (length r + length ?tail)"
      by (simp add: insert_at_def)
    ultimately show ?thesis using a(2) by (simp add: slice_append insert_at_def add.assoc)
  qed
  moreover have "rec_off base (insert_at i r recs) (Suc ?n) \<le> entry ?sz (Suc ?n)"
    using rec_off_insert [OF i order_refl, of base r] i lim(2) f by simp
  ultimately show "node_rep bt base (insert_at i r recs) ?m"
    using lenm rep fits i by (simp add: node_rep_def)
qed

lemma insert_hole:
  assumes rep: "node_rep bt base recs node" and i: "i \<le> length recs"
    and fits: "rec_off base recs (length recs) + sze + 2 * length recs + 4 \<le> nodeSize bt"
  defines "a \<equiv> rec_off base recs i" and "f \<equiv> rec_off base recs (length recs)"
  shows "\<exists>node1 node2. bcopy node a (a + sze) (u16_sub f a) = Some node1 \<and>
           InsertOffset bt node1 i sze = Some node2 \<and> node_hole bt base recs i sze node2 \<and>
           take 10 node2 = take 10 node"
proof -
  let ?sz = "nodeSize bt" and ?n = "length recs" and ?hd = "concat (take i recs)" and ?tail = "concat (drop i recs)"
  have len: "length node = ?sz" "?sz \<le> 32768" "14 \<le> base" using rep by (simp_all add: node_rep_def)
  have f: "f = a + length ?tail" unfolding f_def a_def using i by (rule rec_off_rest)
  have a: "14 \<le> a" "a = base + length ?hd" using len(3) by (simp_all add: a_def rec_off_def)
  have lim: "f + sze \<le> entry ?sz (Suc ?n)" "2 * ?n + 4 \<le> ?sz"
    using fits by (simp_all add: entry_def f_def)
  have sub: "u16_sub f a = length ?tail" using f fits len by (subst u16_exact) (simp_all add: f_def)
  have tail: "slice node a (length ?tail) = ?tail"
    using node_rep_slice [OF rep, of i "length recs - i"] i by (simp add: a_def)
  define node1 where "node1 = overwrite node (a + sze) ?tail"
  have room: "a + sze + length ?tail \<le> length node" using fits f len by (simp add: f_def)
  then have copy: "bcopy node a (a + sze) (u16_sub f a) = Some node1"
    unfolding sub using len by (simp add: bcopy_def copy_in_def node1_def tail)
  have len1: "length node1 = ?sz" using room len by (simp add: node1_def)
  have low: "slice node1 b k = slice node b k" if "b + k \<le> a" for b k
    unfolding node1_def using that room by (intro slice_overwrite_other) auto
  have count1: "node_numRecords node1 = Some ?n"
    using numRecords_slice [of node1 node] low [of 10 2] a len1 len node_rep_count [OF rep] by simp
  obtain node2 where ins: "InsertOffset bt node1 i sze = Some node2"
    and same: "node_same (f + sze) node1 node2" and count2: "node_numRecords node2 = Some (?n + 1)"
    and tab: "\<forall>j \<le> Suc ?n. offs ?sz node2 j = (if i < j then u16_add (offs ?sz node1 (j - 1)) sze else offs ?sz node1 j)"
    using InsertOffset_shift [OF len1 count1 i _ lim(2), of "f + sze" sze] lim a f len by auto
  have keep: "slice node2 b k = slice node1 b k" if "b + k \<le> f + sze" "b + k \<le> 10 \<or> 12 \<le> b" for b k
    using same that by (simp add: node_same_def)
  have offs1: "offs ?sz node1 j = rec_off base recs j" if "j \<le> ?n" for j
    using that rep room lim(1) f entry_le [of j "Suc ?n" ?sz]
    unfolding node1_def by (subst offs_overwrite) (auto simp: node_rep_def)
  have "offs ?sz node2 j = (if i < j then rec_off base recs (j - 1) + sze else rec_off base recs j)"
    if "j \<le> Suc ?n" for j
  proof -
    have "rec_off base recs (j - 1) \<le> f" unfolding f_def using that by (intro rec_off_mono) simp
    then have "u16_add (rec_off base recs (j - 1)) sze = rec_off base recs (j - 1) + sze"
      using fits len by (intro u16_exact) (simp add: f_def)
    then show ?thesis using tab that i offs1 [of j] offs1 [of "j - 1"] by auto
  qed
  moreover have "slice node2 base (length ?hd) = ?hd"
    using keep [of base "length ?hd"] low [of base "length ?hd"] a f len node_rep_slice [OF rep, of 0 i] i by simp
  moreover have "slice node2 (a + sze) (length ?tail) = ?tail"
    using keep [of "a + sze" "length ?tail"] f a slice_overwrite(3) [of "a + sze" ?tail node] room
    by (simp add: node1_def)
  moreover have "take 10 node2 = take 10 node"
    using keep [of 0 10] low [of 0 10] a f by (simp add: slice_def)
  ultimately show ?thesis
    using copy ins same len1 count2 by (auto simp: node_hole_def node_same_def a_def)
qed


lemma node_rep_fits:
  assumes "node_rep bt base recs node" "GetNodeFreeSize bt node = Some free" "\<not> free < k + 2"
  shows "rec_off base recs (length recs) + k + 2 * length recs + 4 \<le> nodeSize bt"
  using assms node_rep_free [OF assms(1)] by simp

lemma InsertRecord_rep:
  assumes "node_rep bt base recs node" "i \<le> length recs"
  shows "if rec_off base recs (length recs) + length r + 2 * length recs + 4 \<le> nodeSize bt
         then \<exists>node'. InsertRecord bt node i r (length r) = Some (True, node') \<and>
                node_rep bt base (insert_at i r recs) node' \<and> take 10 node' = take 10 node
         else InsertRecord bt node i r (length r) = Some (False, node)"
proof (cases "rec_off base recs (length recs) + length r + 2 * length recs + 4 \<le> nodeSize bt")
  case True
  let ?a = "rec_off base recs i" and ?f = "rec_off base recs (length recs)"
  obtain node1 node2 where ops: "bcopy node ?a (?a + length r) (u16_sub ?f ?a) = Some node1"
    "InsertOffset bt node1 i (length r) = Some node2"
    and hole: "node_hole bt base recs i (length r) node2" and hdr: "take 10 node2 = take 10 node"
    using insert_hole [OF assms True] by blast
  have "?a \<le> ?f" using assms(2) by (rule rec_off_mono)
  then have "copy_in node2 ?a r = Some (overwrite node2 ?a r)"
    using hole True by (intro copy_in_ok) (simp add: node_hole_def)
  then have "InsertRecord bt node i r (length r) = Some (True, overwrite node2 ?a r)"
    using True ops node_rep_free [OF assms(1)] node_rep_count [OF assms(1)]
      node_rep_offset(1) [OF assms(1)] assms(2) by (simp add: InsertRecord_def)
  with True hdr node_hole_filled [OF assms True hole] show ?thesis by simp
next
  case False
  have "?thesis \<longleftrightarrow> InsertRecord bt node i r (length r) = Some (False, node)" using False by simp
  moreover have "nodeSize bt - rec_off base recs (length recs) - 2 * length recs - 2 < length r + 2"
    using False by linarith
  ultimately show ?thesis
    using node_rep_free [OF assms(1)] by (simp add: InsertRecord_def)
qed

text \<open>The bytes \<^verbatim>\<open>InsertKeyRecord\<close> builds: the length field, the key, zeros up to the key size, the data.\<close>

definition key_record :: "BTreeControlBlock \<Rightarrow> nat \<Rightarrow> byte list \<Rightarrow> byte list \<Rightarrow> byte list" where
  "key_record bt keyLength key data =
     (let sl = (if BigKeys bt then 2 else 1)
      in le_bytes sl keyLength @ key @ replicate (key_size bt keyLength - sl - length key) 0 @ data)"

lemma key_size_bounds:
  assumes "keyLength + 3 < 65536"
  shows "keyLength + (if BigKeys bt then 2 else 1) \<le> key_size bt keyLength"
    "key_size bt keyLength \<le> keyLength + 3" "even (key_size bt keyLength)"
  using assms by (auto simp: key_size_def Let_def u16_exact)

lemma key_record_written:
  assumes "a + length l + length key + pad + length data \<le> length m" "length l \<le> length data"
  shows "\<exists>m3 m4 m5. copy_in m a l = Some m3 \<and> copy_in m3 (a + length l) key = Some m4 \<and>
           ClearMemory m4 (a + length l + length key) (length l + pad) = Some m5 \<and>
           copy_in m5 (a + length l + length key + pad) data = Some (overwrite m a (l @ key @ replicate pad 0 @ data))"
proof -
  let ?m3 = "overwrite m a l"
  let ?m4 = "overwrite ?m3 (a + length l) key"
  let ?b = "a + length l + length key"
  let ?m5 = "overwrite ?m4 ?b (replicate (length l + pad) 0)"
  let ?p = "overwrite ?m4 ?b (replicate pad 0)"
  have lens: "length ?m3 = length m" "length ?m4 = length m" "length ?m5 = length m" "length ?p = length m"
    using assms by simp_all
  have "?m5 = overwrite ?p (?b + pad) (replicate (length l) 0)"
    using assms lens overwrite_append [of ?b "replicate pad 0" "replicate (length l) 0" ?m4]
    by (simp add: replicate_add [symmetric] add.commute)
  then have "overwrite ?m5 (?b + pad) data = overwrite ?p (?b + pad) data"
    using assms lens overwrite_again [of "?b + pad" data ?p "replicate (length l) 0"] by simp
  also have "\<dots> = overwrite ?m4 ?b (replicate pad 0 @ data)"
    using assms lens overwrite_append [of ?b "replicate pad 0" data ?m4] by simp
  also have "\<dots> = overwrite ?m3 (a + length l) (key @ replicate pad 0 @ data)"
    using assms lens overwrite_append [of "a + length l" key "replicate pad 0 @ data" ?m3] by (simp add: add.assoc)
  also have "\<dots> = overwrite m a (l @ key @ replicate pad 0 @ data)"
    using assms overwrite_append [of a l "key @ replicate pad 0 @ data" m] by (simp add: add.assoc)
  finally have final: "overwrite ?m5 (?b + pad) data = overwrite m a (l @ key @ replicate pad 0 @ data)" .
  have "copy_in ?m5 (?b + pad) data = Some (overwrite ?m5 (?b + pad) data)"
    using assms lens by (intro copy_in_ok) simp
  moreover have "copy_in m a l = Some ?m3" "copy_in ?m3 (a + length l) key = Some ?m4"
    "ClearMemory ?m4 ?b (length l + pad) = Some ?m5"
    using assms lens by (auto simp: ClearMemory_def intro!: copy_in_ok)
  ultimately show ?thesis unfolding final by blast
qed

lemma InsertKeyRecord_rep:
  assumes rep: "node_rep bt base recs node" and i: "i \<le> length recs"
    and key: "KeyLength bt keyPtr = Some (length key)" "slice keyPtr (if BigKeys bt then 2 else 1) (length key) = key"
    and len: "length key \<le> keyLength" "keyLength + 3 < 65536" "(if BigKeys bt then 2 else 1) \<le> length data"
    and fits: "rec_off base recs (length recs) + key_size bt keyLength + length data + 2 * length recs + 4 \<le> nodeSize bt"
  shows "\<exists>node'. InsertKeyRecord bt node i keyPtr keyLength data (length data) = Some (True, node') \<and>
           node_rep bt base (insert_at i (key_record bt keyLength key data) recs) node' \<and>
           take 10 node' = take 10 node"
proof -
  let ?a = "rec_off base recs i" and ?f = "rec_off base recs (length recs)"
  let ?r = "key_record bt keyLength key data"
  define sl where "sl = (if BigKeys bt then 2 else 1 :: nat)"
  define ks where "ks = key_size bt keyLength"
  define pad where "pad = ks - sl - length key"
  have ks: "ks = sl + length key + pad"
    using key_size_bounds(1) [OF len(2), of bt, folded sl_def ks_def] len(1) by (simp add: pad_def)
  have r: "?r = le_bytes sl keyLength @ key @ replicate pad 0 @ data"
    by (simp add: key_record_def Let_def sl_def [symmetric] ks_def [symmetric] pad_def)
  then have len_r: "length ?r = ks + length data" by (simp add: ks)
  have fits_r: "?f + length ?r + 2 * length recs + 4 \<le> nodeSize bt"
    using fits by (simp add: len_r ks_def [symmetric])
  have small: "(ks + length data) mod 65536 = ks + length data" "ks < 65536"
    using fits rep by (simp_all add: node_rep_def ks_def)
  obtain node1 node2 where ops: "bcopy node ?a (?a + length ?r) (u16_sub ?f ?a) = Some node1"
    "InsertOffset bt node1 i (length ?r) = Some node2"
    and hole: "node_hole bt base recs i (length ?r) node2" and hdr: "take 10 node2 = take 10 node"
    using insert_hole [OF rep i fits_r] by blast
  have "?a \<le> ?f" using i by (rule rec_off_mono)
  then have room: "?a + sl + length key + pad + length data \<le> length node2"
    using hole fits_r by (simp add: node_hole_def len_r ks)
  then obtain n3 n4 n5 where copies: "copy_in node2 ?a (le_bytes sl keyLength) = Some n3"
    "copy_in n3 (?a + sl) key = Some n4" "ClearMemory n4 (?a + sl + length key) (sl + pad) = Some n5"
    "copy_in n5 (?a + ks) data = Some (overwrite node2 ?a ?r)"
    using key_record_written [of ?a "le_bytes sl keyLength" key pad data node2] len(3)
    by (auto simp: sl_def [symmetric] r ks add.assoc)
  have clear: "u16_sub ks (length key) = sl + pad"
    using ks small(2) by (subst u16_exact) auto
  have "sl + length key \<le> length keyPtr"
  proof -
    have "length (slice keyPtr sl (length key)) = length key" using key(2) by (simp add: sl_def)
    moreover have "sl \<le> length keyPtr"
      using key(1) by (auto simp: KeyLength_def load_def sl_def split: if_splits)
    ultimately show ?thesis by (simp add: slice_def min_def split: if_splits)
  qed
  then have "InsertKeyRecord bt node i keyPtr keyLength data (length data) = Some (True, overwrite node2 ?a ?r)"
    using fits ops copies node_rep_free [OF rep] node_rep_count [OF rep] node_rep_offset(1) [OF rep] i key clear
    by (simp add: InsertKeyRecord_def Let_def ks_def [symmetric] sl_def [symmetric] small len_r add.assoc)
  with hdr node_hole_filled [OF rep i fits_r hole] show ?thesis by simp
qed


lemma InsertKeyRecord_full:
  assumes "node_rep bt base recs node"
    and "\<not> rec_off base recs (length recs) + key_size bt keyLength + k + 2 * length recs + 4 \<le> nodeSize bt"
  shows "InsertKeyRecord bt node i keyPtr keyLength data k = Some (False, node)"
proof -
  have "nodeSize bt - rec_off base recs (length recs) - 2 * length recs - 2 < key_size bt keyLength + k + 2"
    using assms(2) by linarith
  then show ?thesis using node_rep_free [OF assms(1)] by (simp add: InsertKeyRecord_def Let_def)
qed

lemma rec_off_total: "rec_off base recs (length recs) = base + length (concat recs)"
  by (simp add: rec_off_def)

text \<open>
  \<^verbatim>\<open>DeleteRecord\<close> closes up the records after the deleted one and shifts their offsets;
  the bytes it then clears lie past the last record.
\<close>

definition node_closed :: "BTreeControlBlock \<Rightarrow> nat \<Rightarrow> byte list list \<Rightarrow> byte list \<Rightarrow> bool" where
  "node_closed bt base recs node \<longleftrightarrow>
     length node = nodeSize bt \<and> node_numRecords node = Some (length recs) \<and>
     (\<forall>j \<le> length recs. offs (nodeSize bt) node j = rec_off base recs j) \<and>
     slice node base (length (concat recs)) = concat recs"

lemma delete_closes:
  assumes rep: "node_rep bt base recs node" and i: "i < length recs"
  defines "a \<equiv> rec_off base recs i" and "b \<equiv> rec_off base recs (Suc i)" and "f \<equiv> rec_off base recs (length recs)"
  shows "\<exists>node1 node2. bcopy node b a (f - b) = Some node1 \<and> DeleteOffset bt node1 i = Some node2 \<and>
           node_closed bt base (delete_at i recs) node2 \<and> take 10 node2 = take 10 node"
proof -
  let ?sz = "nodeSize bt" and ?n = "length recs" and ?d = "delete_at i recs"
  let ?hd = "concat (take i recs)" and ?tail = "concat (drop (Suc i) recs)"
  have len: "length node = ?sz" "?sz \<le> 32768" "14 \<le> base" using rep by (simp_all add: node_rep_def)
  have b: "b = a + length (recs ! i)" unfolding a_def b_def using i by (rule rec_off_Suc)
  have f: "f = b + length ?tail" unfolding f_def b_def using i by (intro rec_off_rest) simp
  have a: "14 \<le> a" "a = base + length ?hd" using len(3) by (simp_all add: rec_off_def a_def)
  have lim: "f \<le> entry ?sz ?n" "2 * ?n + 2 \<le> ?sz" using rep by (simp_all add: node_rep_def f_def)
  then have limit: "f + 2 \<le> ?sz" "?n < 65536" using entry_room [of ?n ?sz] len by simp_all
  have tail: "slice node b (length ?tail) = ?tail"
    using node_rep_slice [OF rep, of "Suc i" "?n - Suc i"] i by (simp add: b_def)
  define node1 where "node1 = overwrite node a ?tail"
  have room: "a + length ?tail \<le> length node" using f b len limit by simp
  have copy: "bcopy node b a (f - b) = Some node1"
    using room f limit len by (simp add: bcopy_def copy_in_def node1_def tail)
  have len1: "length node1 = ?sz" using room len by (simp add: node1_def)
  have low: "slice node1 x k = slice node x k" if "x + k \<le> a" for x k
    unfolding node1_def using that room by (intro slice_overwrite_other) auto
  have count1: "node_numRecords node1 = Some ?n"
    using numRecords_slice [of node1 node] low [of 10 2] a len1 len node_rep_count [OF rep] by simp
  have offs1: "offs ?sz node1 j = rec_off base recs j" if "j \<le> ?n" for j
    using that rep room lim(1) f b entry_le [of j ?n ?sz]
    unfolding node1_def by (subst offs_overwrite) (auto simp: node_rep_def)
  obtain node2 where del: "DeleteOffset bt node1 i = Some node2"
    and same: "node_same f node1 node2" and count2: "node_numRecords node2 = Some (?n - 1)"
    and tab: "\<forall>j < ?n. offs ?sz node2 j = (if i < j then u16_sub (offs ?sz node1 (j + 1))
        (u16_sub (offs ?sz node1 (i + 1)) (offs ?sz node1 i)) else offs ?sz node1 j)"
    using DeleteOffset_shift [OF len1 count1 i limit(2) lim(2) _ lim(1)] a f b by auto
  have keep: "slice node2 x k = slice node1 x k" if "x + k \<le> f" "x + k \<le> 10 \<or> 12 \<le> x" for x k
    using same that by (simp add: node_same_def)
  have "offs ?sz node2 j = rec_off base ?d j" if "j < ?n" for j
  proof -
    have "u16_sub b a = length (recs ! i)" using b limit f len by (subst u16_exact) auto
    moreover have "rec_off base recs (Suc j) \<le> f" unfolding f_def using that by (intro rec_off_mono) simp
    moreover have "b \<le> rec_off base recs (Suc j)" if "i < j" unfolding b_def using that by (intro rec_off_mono) simp
    ultimately show ?thesis
      using tab that i offs1 [of j] offs1 [of "Suc j"] offs1 [of i] offs1 [of "Suc i"] b limit len
        rec_off_delete [OF i that, of base]
      by (auto simp: u16_exact a_def [symmetric] b_def [symmetric])
  qed
  moreover have "slice node2 base (length (concat ?d)) = concat ?d"
  proof -
    have "concat ?d = ?hd @ ?tail" by (simp add: delete_at_def)
    moreover have "slice node2 base (length ?hd) = ?hd"
      using keep [of base "length ?hd"] low [of base "length ?hd"] a f b len
        node_rep_slice [OF rep, of 0 i] i by simp
    moreover have "slice node2 a (length ?tail) = ?tail"
      using keep [of a "length ?tail"] a f b slice_overwrite(3) [OF room] by (simp add: node1_def)
    ultimately show ?thesis using a(2) by (simp add: slice_append)
  qed
  moreover have "take 10 node2 = take 10 node" using keep [of 0 10] low [of 0 10] a f b by (simp add: slice_def)
  ultimately show ?thesis
    using copy del same len1 count2 i by (auto simp: node_closed_def node_same_def)
qed

lemma node_closed_cleared:
  assumes "node_closed bt base recs node" "nodeSize bt \<le> 32768" "14 \<le> base"
    and "rec_off base recs (length recs) + length z \<le> entry (nodeSize bt) (Suc (length recs))"
    and "2 * length recs + 4 \<le> nodeSize bt"
  defines "g \<equiv> rec_off base recs (length recs)"
  shows "copy_in node g z = Some (overwrite node g z)" "node_rep bt base recs (overwrite node g z)"
    "take 10 (overwrite node g z) = take 10 node"
proof -
  let ?sz = "nodeSize bt" and ?n = "length recs" and ?m = "overwrite node g z"
  have g: "g = base + length (concat recs)" by (simp add: g_def rec_off_total)
  have len: "length node = ?sz" using assms(1) by (simp add: node_closed_def)
  have room: "g + length z \<le> length node"
    using assms(4,5) entry_room [of "Suc ?n" ?sz] len by (simp add: g_def)
  then show "copy_in node g z = Some ?m" by (rule copy_in_ok)
  have low: "slice ?m x k = slice node x k" if "x + k \<le> g" for x k
    using that room by (intro slice_overwrite_other) auto
  have "node_numRecords ?m = Some ?n"
    using numRecords_slice [of ?m node] low [of 10 2] g assms(1,3) room by (simp add: node_closed_def)
  moreover have "offs ?sz ?m j = rec_off base recs j" if "j \<le> ?n" for j
    using that room assms(1,4) entry_le [of j "Suc ?n" ?sz]
    by (subst offs_overwrite) (auto simp: node_closed_def g_def)
  moreover have "slice ?m base (length (concat recs)) = concat recs"
    using low [of base "length (concat recs)"] g assms(1) by (simp add: node_closed_def)
  moreover have "g \<le> entry ?sz ?n" using assms(4) entry_le [of ?n "Suc ?n" ?sz] by (simp add: g_def)
  ultimately show "node_rep bt base recs ?m"
    using assms(2,3,5) room len by (simp add: node_rep_def g_def)
  show "take 10 ?m = take 10 node" using low [of 0 10] g assms(3) by (simp add: slice_def)
qed

lemma DeleteRecord_rep:
  assumes rep: "node_rep bt base recs node" and i: "i < length recs"
  shows "\<exists>node'. DeleteRecord bt node i = Some node' \<and> node_rep bt base (delete_at i recs) node' \<and>
           take 10 node' = take 10 node"
proof -
  let ?sz = "nodeSize bt" and ?n = "length recs" and ?d = "delete_at i recs"
  let ?a = "rec_off base recs i" and ?b = "rec_off base recs (Suc i)" and ?f = "rec_off base recs (length recs)"
  let ?g = "rec_off base ?d (?n - 1)" and ?z = "replicate (length (recs ! i)) (0 :: byte)"
  have sz: "?sz \<le> 32768" "14 \<le> base" using rep by (simp_all add: node_rep_def)
  have b: "?b = ?a + length (recs ! i)" "?b \<le> ?f" "length ?d = ?n - 1"
    using i rec_off_Suc [OF i] rec_off_mono [of "Suc i" ?n base recs] by simp_all
  have "concat recs = concat (take i recs) @ recs ! i @ concat (drop (Suc i) recs)"
    using i by (metis append_take_drop_id concat.simps(2) concat_append Cons_nth_drop_Suc)
  then have g: "?g + length ?z = ?f" using i by (simp add: rec_off_def delete_at_def)
  have lim: "?f \<le> entry ?sz ?n" "2 * ?n + 2 \<le> ?sz" "?f + 2 \<le> ?sz"
    using rep entry_room [of ?n ?sz] by (simp_all add: node_rep_def)
  obtain node1 node2 where ops: "bcopy node ?b ?a (?f - ?b) = Some node1" "DeleteOffset bt node1 i = Some node2"
    and closed: "node_closed bt base ?d node2" and hdr: "take 10 node2 = take 10 node"
    using delete_closes [OF assms] by blast
  have n: "Suc (?n - 1) = ?n" using i by simp
  note cleared = node_closed_cleared [OF closed sz, of ?z, unfolded b(3)]
  have node': "copy_in node2 ?g ?z = Some (overwrite node2 ?g ?z)" "node_rep bt base ?d (overwrite node2 ?g ?z)"
    "take 10 (overwrite node2 ?g ?z) = take 10 node2"
    using cleared g lim n by simp_all
  have "GetRecordAddress bt node2 (?n - 1) = Some ?g"
    using GetRecordOffset_offs [of node2 bt "?n - 1"] closed b(3) g lim sz n
    by (simp add: GetRecordAddress_def node_closed_def)
  then have "DeleteRecord bt node i = Some (overwrite node2 ?g ?z)"
    using node_rep_offset(2) [OF rep] node_rep_count [OF rep] i b ops node'(1) closed
    by (simp add: DeleteRecord_def ClearMemory_def node_closed_def Suc_leI)
  with node'(2,3) hdr show ?thesis by simp
qed


section \<open>New nodes\<close>

lemma GetNewNode_init_rep:
  assumes "length node = nodeSize bt" "16 \<le> nodeSize bt" "nodeSize bt \<le> 32768"
  shows "\<exists>node'. GetNewNode_init bt node = Some node' \<and> node_rep bt 14 [] node' \<and> take 10 node' = replicate 10 0"
proof -
  let ?sz = "nodeSize bt" and ?z = "replicate (nodeSize bt) (0 :: byte)"
  let ?m = "overwrite ?z (entry ?sz 0) (le_bytes 2 14)"
  have "overwrite node 0 ?z = ?z" using assms(1) by (simp add: overwrite_def)
  then have "ClearNode bt node = Some ?z" using assms(1) by (simp add: ClearNode_def ClearMemory_def copy_in_def)
  then have "GetNewNode_init bt node = Some ?m"
    using assms(2) store_offs [of ?z ?sz 0] by (simp add: GetNewNode_init_def GetOffsetAddress_entry)
  moreover have e: "14 \<le> entry ?sz 0" "entry ?sz 0 + 2 \<le> ?sz" using assms(2) by (simp_all add: entry_def)
  then have low: "slice ?m x k = replicate k 0" if "x + k \<le> 14" for x k
    using that slice_overwrite_other [of "entry ?sz 0" "le_bytes 2 14" ?z x k] by (simp add: slice_def)
  have "node_numRecords ?m = Some 0"
    using low [of 10 2] e by (simp add: node_numRecords_def load_def numeral_2_eq_2)
  moreover have "offs ?sz ?m 0 = 14" using assms(2) by (subst offs_store) simp_all
  ultimately show ?thesis
    using assms e low [of 0 10] by (simp add: node_rep_def slice_def)
qed

definition small_btree :: BTreeControlBlock where
  "small_btree =
     \<lparr>treeDepth = 1, keyCompareProc = (\<lambda>_ _. None), rootNode = 1, leafRecords = 0, firstLeafNode = 1,
      lastLeafNode = 1, nodeSize = 512, maxKeyLength = 10, totalNodes = 8, freeNodes = 6, btflags = 0,
      attributes = 2, writeCount = 0, lastfsync = 0, btreeType = 0\<rparr>"

lemma small_btree_node: "\<exists>node. node_rep small_btree 14 [] node"
  using GetNewNode_init_rep [of "replicate 512 0" small_btree] by (auto simp: small_btree_def)

section \<open>Properties\<close>

text \<open>
  C19: \<^verbatim>\<open>InsertRecord\<close> on a node that holds the records \<open>recs\<close> leaves one that holds them
  with the new record at the given index, and keeps the links, kind and height; when
  the record and its offset do not fit the free space it returns false and changes
  nothing. In either case no byte outside the node is touched.
\<close>

theorem InsertRecord_refines:
  assumes "node_rep bt base recs node" "i \<le> length recs"
    and "GetNodeFreeSize bt node = Some free"
  shows "if length r + 2 \<le> free
         then \<exists>node'. InsertRecord bt node i r (length r) = Some (True, node') \<and>
                node_rep bt base (insert_at i r recs) node' \<and> take 10 node' = take 10 node
         else InsertRecord bt node i r (length r) = Some (False, node)"
proof -
  have free: "free = nodeSize bt - rec_off base recs (length recs) - 2 * length recs - 2"
    using assms(3) node_rep_free [OF assms(1)] by simp
  have "rec_off base recs (length recs) + 2 * length recs + 2 \<le> nodeSize bt"
    using node_rep_offset(3) [OF assms(1) order_refl] .
  then have "length r + 2 \<le> free \<longleftrightarrow>
      rec_off base recs (length recs) + length r + 2 * length recs + 4 \<le> nodeSize bt"
    unfolding free by linarith
  with InsertRecord_rep [OF assms(1,2), of r] show ?thesis by simp
qed

theorem InsertRecord_refines_witness:
  "\<exists>node node'. InsertRecord small_btree node 0 [1, 2, 3, 4] 4 = Some (True, node') \<and>
     node_rep small_btree 14 [[1, 2, 3, 4]] node'"
proof -
  obtain node where rep: "node_rep small_btree 14 [] node" using small_btree_node by blast
  have free: "GetNodeFreeSize small_btree node = Some 496"
    using node_rep_free [OF rep] by (simp add: small_btree_def)
  have "length [1, 2, 3, 4 :: byte] = 4" by simp
  from InsertRecord_refines [OF rep le0 free, of "[1, 2, 3, 4]", unfolded this] show ?thesis
    by (auto simp: insert_at_def)
qed

text \<open>
  C20: \<^verbatim>\<open>InsertKeyRecord\<close> inserts, at the given index, the record made of the length field
  with the key length it was given, the key, zeros up to the even key size, and the data,
  provided the data is at least as long as the length field (the code clears that
  many bytes too many after the key, and only the data written last repairs it).
\<close>

theorem InsertKeyRecord_refines:
  assumes "node_rep bt base recs node" "i \<le> length recs"
    and "KeyLength bt keyPtr = Some (length key)" "slice keyPtr (if BigKeys bt then 2 else 1) (length key) = key"
    and "length key \<le> keyLength" "keyLength + 3 < 65536" "(if BigKeys bt then 2 else 1) \<le> length data"
    and "GetNodeFreeSize bt node = Some free"
  shows "if key_size bt keyLength + length data + 2 \<le> free
         then \<exists>node'. InsertKeyRecord bt node i keyPtr keyLength data (length data) = Some (True, node') \<and>
                node_rep bt base (insert_at i (key_record bt keyLength key data) recs) node' \<and>
                take 10 node' = take 10 node
         else InsertKeyRecord bt node i keyPtr keyLength data (length data) = Some (False, node)"
proof -
  have free: "free = nodeSize bt - rec_off base recs (length recs) - 2 * length recs - 2"
    using assms(8) node_rep_free [OF assms(1)] by simp
  have "rec_off base recs (length recs) + 2 * length recs + 2 \<le> nodeSize bt"
    using node_rep_offset(3) [OF assms(1) order_refl] .
  then have "key_size bt keyLength + length data + 2 \<le> free \<longleftrightarrow>
      rec_off base recs (length recs) + key_size bt keyLength + length data + 2 * length recs + 4 \<le> nodeSize bt"
    unfolding free by linarith
  with InsertKeyRecord_rep [OF assms(1-7)] InsertKeyRecord_full [OF assms(1)] show ?thesis by auto
qed

theorem InsertKeyRecord_refines_witness:
  "\<exists>node node'. InsertKeyRecord small_btree node 0 [3, 0, 7, 8, 9] 3 [1, 2, 3, 4] 4 = Some (True, node') \<and>
     node_rep small_btree 14 [[3, 0, 7, 8, 9, 0, 1, 2, 3, 4]] node'"
proof -
  obtain node where rep: "node_rep small_btree 14 [] node" using small_btree_node by blast
  have free: "GetNodeFreeSize small_btree node = Some 496"
    using node_rep_free [OF rep] by (simp add: small_btree_def)
  have big: "BigKeys small_btree" by (simp add: BigKeys_def small_btree_def kBTBigKeysMask_def)
  then have key: "KeyLength small_btree [3, 0, 7, 8, 9] = Some (length [7, 8, 9 :: byte])"
    by (simp add: KeyLength_def load_def slice_def)
  have "key_size small_btree 3 = 6" using big by (simp add: key_size_def u16_add_def)
  moreover from this have "key_record small_btree 3 [7, 8, 9] [1, 2, 3, 4] = [3, 0, 7, 8, 9, 0, 1, 2, 3, 4]"
    using big by (simp add: key_record_def numeral_2_eq_2)
  moreover have "length [1, 2, 3, 4 :: byte] = 4" by simp
  note InsertKeyRecord_refines [OF rep le0 key, of 3 "[1, 2, 3, 4]" 496, unfolded this]
  ultimately show ?thesis
    using free big by (auto simp: slice_def insert_at_def)
qed

text \<open>
  C21: \<^verbatim>\<open>DeleteRecord\<close> removes exactly the record at the index, keeping the others in
  order and the links, kind and height; it undoes an insertion at that index.
\<close>

theorem DeleteRecord_refines:
  assumes "node_rep bt base recs node" "i < length recs"
  shows "\<exists>node'. DeleteRecord bt node i = Some node' \<and> node_rep bt base (delete_at i recs) node' \<and>
           take 10 node' = take 10 node \<and> (\<forall>r recs0. recs = insert_at i r recs0 \<and> i \<le> length recs0 \<longrightarrow>
             node_rep bt base recs0 node')"
  using DeleteRecord_rep [OF assms] delete_insert_at by metis

theorem DeleteRecord_refines_witness:
  "\<exists>node node'. DeleteRecord small_btree node 0 = Some node' \<and> node_rep small_btree 14 [] node'"
proof -
  obtain node where rep: "node_rep small_btree 14 [] node" using small_btree_node by blast
  obtain node1 where "node_rep small_btree 14 [[1, 2]] node1"
    using InsertRecord_rep [OF rep, of 0 "[1, 2]"] by (auto simp: insert_at_def small_btree_def)
  from DeleteRecord_refines [OF this, of 0] show ?thesis by (auto simp: delete_at_def)
qed

end
