(* ===== verification/BTreeCheck.thy ===== *)
theory BTreeCheck
  imports BTreeNode
begin

text \<open>
  \<^verbatim>\<open>CheckNode\<close> of \<^verbatim>\<open>src/hfsplus/hfscommon/BTree/BTreeNodeOps.c\<close>, which is all that stands between
  a node read from disk and the operations on it. It never reads outside the
  node, and it accepts exactly the buffers that hold a list of records in the sense
  of \<open>node_rep\<close>, each even in length and, in a leaf, large enough for its key.
\<close>

section \<open>The loop over the offsets\<close>

definition next_off :: "nat \<Rightarrow> byte list \<Rightarrow> nat \<Rightarrow> nat \<Rightarrow> nat \<Rightarrow> nat" where
  "next_off sz node index prev i = (if i = index then prev else offs sz node (Suc i))"

definition slot_ok :: "BTreeControlBlock \<Rightarrow> byte list \<Rightarrow> bool \<Rightarrow> nat \<Rightarrow> nat \<Rightarrow> bool" where
  "slot_ok bt node leaf a b \<longleftrightarrow>
     even a \<and> a < b \<and> (leaf \<longrightarrow> the (CalcKeySize bt (drop a node)) \<le> b - a)"

lemma CalcKeySize_total: "2 \<le> length key \<Longrightarrow> \<exists>k. CalcKeySize bt key = Some k"
  by (simp add: CalcKeySize_def load_def)

lemma even_gap: "even a \<Longrightarrow> even b \<Longrightarrow> a < b \<Longrightarrow> a + 2 \<le> (b :: nat)"
  by presburger

lemma CheckNode_loop_decides:
  assumes "length node = nodeSize bt" "2 * index + 2 \<le> nodeSize bt" "prev \<le> nodeSize bt" "even (nodeSize bt)"
  shows "CheckNode_loop bt node kind n index prev =
           Some (if \<forall>i \<le> index. slot_ok bt node (kind = kBTLeafNode \<and> i < n) (offs (nodeSize bt) node i)
                   (next_off (nodeSize bt) node index prev i)
                 then Inr (offs (nodeSize bt) node 0) else Inl fsBTInvalidNodeErr)"
  using assms
proof (induction index arbitrary: prev)
  case 0
  let ?sz = "nodeSize bt" and ?o = "offs (nodeSize bt) node 0"
  have "GetRecordOffset bt node 0 = Some ?o" using 0 by (intro GetRecordOffset_offs) simp_all
  moreover have "\<exists>k. CalcKeySize bt (drop ?o node) = Some k" if "even ?o" "?o < prev"
    using 0 that even_gap [of ?o ?sz] by (intro CalcKeySize_total) simp
  ultimately show ?case
    using 0 by (subst CheckNode_loop.simps) (auto simp: slot_ok_def next_off_def not_less)
next
  case (Suc index)
  let ?sz = "nodeSize bt" and ?o = "offs (nodeSize bt) node (Suc index)"
  let ?leaf = "kind = kBTLeafNode \<and> Suc index < n"
  let ?ok = "slot_ok bt node ?leaf ?o prev"
  let ?P = "\<lambda>index prev. \<forall>i \<le> index. slot_ok bt node (kind = kBTLeafNode \<and> i < n) (offs ?sz node i)
      (next_off ?sz node index prev i)"
  have off: "GetRecordOffset bt node (Suc index) = Some ?o" using Suc.prems by (intro GetRecordOffset_offs) simp_all
  have key: "\<exists>k. CalcKeySize bt (drop ?o node) = Some k" if "even ?o" "?o < prev"
    using Suc.prems that even_gap [of ?o ?sz] by (intro CalcKeySize_total) simp
  have split: "?P (Suc index) prev \<longleftrightarrow> ?ok \<and> ?P index ?o"
    by (auto simp: next_off_def le_Suc_eq)
  show ?case
  proof (cases ?ok)
    case True
    then have "CheckNode_loop bt node kind n (Suc index) prev = CheckNode_loop bt node kind n index ?o"
      using key by (subst CheckNode_loop.simps) (auto simp: off slot_ok_def)
    moreover have "?o \<le> ?sz" using True Suc.prems by (simp add: slot_ok_def)
    ultimately show ?thesis using Suc.IH [of ?o] Suc.prems True split by simp
  next
    case False
    then have "CheckNode_loop bt node kind n (Suc index) prev = Some (Inl fsBTInvalidNodeErr)"
      using key by (subst CheckNode_loop.simps) (auto simp: off slot_ok_def not_less)
    with False split show ?thesis by simp
  qed
qed

section \<open>From offsets to records\<close>

definition node_records :: "BTreeControlBlock \<Rightarrow> byte list \<Rightarrow> nat \<Rightarrow> byte list list" where
  "node_records bt node n =
     map (\<lambda>i. slice node (offs (nodeSize bt) node i)
                (offs (nodeSize bt) node (Suc i) - offs (nodeSize bt) node i)) [0 ..< n]"

lemma node_records_rep:
  assumes "node_rep bt base recs node"
  shows "node_records bt node (length recs) = recs"
proof (rule nth_equalityI)
  fix i
  assume "i < length (node_records bt node (length recs))"
  then have i: "i < length recs" by (simp add: node_records_def)
  have "take 1 (drop i recs) = [recs ! i]" using i by (simp add: take_Suc_conv_app_nth hd_drop_conv_nth take_Suc drop_Suc)
  then have "slice node (rec_off base recs i) (length (recs ! i)) = recs ! i"
    using node_rep_slice [OF assms, of i 1] i by simp
  then show "node_records bt node (length recs) ! i = recs ! i"
    using assms i by (simp add: node_records_def node_rep_def rec_off_Suc)
qed (simp add: node_records_def)

lemma node_records_concat:
  assumes "length node = nodeSize bt" "\<forall>i < n. offs (nodeSize bt) node i \<le> offs (nodeSize bt) node (Suc i)"
    and "offs (nodeSize bt) node n \<le> nodeSize bt" "j \<le> n"
  shows "concat (take j (node_records bt node n)) =
           slice node (offs (nodeSize bt) node 0) (offs (nodeSize bt) node j - offs (nodeSize bt) node 0) \<and>
         offs (nodeSize bt) node 0 \<le> offs (nodeSize bt) node j"
  using assms(4)
proof (induction j)
  case (Suc j)
  let ?o = "offs (nodeSize bt) node"
  have le: "?o j \<le> ?o (Suc j)" "?o 0 \<le> ?o j" using assms(2) Suc by auto
  have "take (Suc j) (node_records bt node n) = take j (node_records bt node n) @
      [slice node (?o j) (?o (Suc j) - ?o j)]"
    using Suc.prems by (subst take_Suc_conv_app_nth) (simp_all add: node_records_def)
  then show ?case
    using Suc le slice_append [of node "?o 0" "?o j - ?o 0" "?o (Suc j) - ?o j"] by simp
qed simp

lemma offs_mono:
  assumes "\<forall>i < n. offs sz node i \<le> offs sz node (Suc i)" "j \<le> n"
  shows "offs sz node j \<le> offs sz node n"
  using assms(2) by (rule inc_induct) (use assms(1) in \<open>auto intro: order_trans\<close>)

lemma node_repI:
  assumes len: "length node = nodeSize bt" "nodeSize bt \<le> 32768" and n: "node_numRecords node = Some n"
    and "2 * n + 2 \<le> nodeSize bt" "14 \<le> offs (nodeSize bt) node 0"
    and up: "\<forall>i < n. offs (nodeSize bt) node i \<le> offs (nodeSize bt) node (Suc i)"
    and top: "offs (nodeSize bt) node n \<le> entry (nodeSize bt) n"
  shows "node_rep bt (offs (nodeSize bt) node 0) (node_records bt node n) node"
proof -
  let ?sz = "nodeSize bt" and ?recs = "node_records bt node n"
  have len_recs: "length ?recs = n" by (simp add: node_records_def)
  have topsz: "offs ?sz node n \<le> ?sz" using top entry_room [OF assms(4)] by simp
  note cc = node_records_concat [OF len(1) up topsz]
  have off: "rec_off (offs ?sz node 0) ?recs i = offs ?sz node i" if "i \<le> n" for i
  proof -
    have "length (slice node (offs ?sz node 0) (offs ?sz node i - offs ?sz node 0)) = offs ?sz node i - offs ?sz node 0"
      using cc [OF that] offs_mono [OF up that] topsz len by (intro length_slice) simp
    then show ?thesis using cc [OF that] by (simp add: rec_off_def)
  qed
  then have "length (concat ?recs) = offs ?sz node n - offs ?sz node 0"
    using len_recs rec_off_total [of "offs ?sz node 0" ?recs] off [of n] by simp
  then have "slice node (offs ?sz node 0) (length (concat ?recs)) = concat ?recs"
    using cc [of n] len_recs by simp
  then show ?thesis
    using assms off len_recs by (simp add: node_rep_def)
qed


section \<open>What \<open>CheckNode\<close> accepts\<close>

definition rec_ok :: "BTreeControlBlock \<Rightarrow> bool \<Rightarrow> byte list \<Rightarrow> bool" where
  "rec_ok bt leaf r \<longleftrightarrow>
     r \<noteq> [] \<and> even (length r) \<and> (leaf \<longrightarrow> (\<exists>k. CalcKeySize bt r = Some k \<and> k \<le> length r))"

lemma load_prefix: "n \<le> k \<Longrightarrow> a + k \<le> length m \<Longrightarrow> load n (slice m a k) 0 = load n (drop a m) 0"
  by (simp add: load_def slice_def min_def)

lemma CalcKeySize_slice:
  "2 \<le> k \<Longrightarrow> a + k \<le> length m \<Longrightarrow> CalcKeySize bt (slice m a k) = CalcKeySize bt (drop a m)"
  by (simp add: CalcKeySize_def load_prefix)

lemma rec_ok_slot:
  assumes "even a" "a + 2 \<le> b" "b \<le> length node" "even b"
  shows "rec_ok bt leaf (slice node a (b - a)) \<longleftrightarrow> slot_ok bt node leaf a b"
proof -
  have "CalcKeySize bt (slice node a (b - a)) = CalcKeySize bt (drop a node)"
    using assms by (intro CalcKeySize_slice) auto
  moreover have "2 \<le> length (drop a node)" using assms by simp
  then obtain k where "CalcKeySize bt (drop a node) = Some k" using CalcKeySize_total by blast
  moreover have "length (slice node a (b - a)) = b - a" using assms by simp
  moreover have "slice node a (b - a) \<noteq> []" using assms by (simp add: slice_def)
  ultimately show ?thesis using assms by (simp add: rec_ok_def slot_ok_def)
qed

lemma node_rep_record:
  assumes "node_rep bt base recs node" "i < length recs"
  shows "slice node (rec_off base recs i) (length (recs ! i)) = recs ! i"
  using arg_cong [OF node_records_rep [OF assms(1)], of "\<lambda>xs. xs ! i"] assms
  by (simp add: node_records_def node_rep_def rec_off_Suc)

lemma rec_off_even:
  assumes "even base" "\<forall>r \<in> set recs. even (length r)"
  shows "i \<le> length recs \<Longrightarrow> even (rec_off base recs i)"
proof (induction i)
  case (Suc i)
  then have "even (length (recs ! i))" using assms(2) by simp
  with Suc show ?case by (simp add: rec_off_Suc)
qed (use assms in simp)

lemma slots_records:
  assumes "length node = nodeSize bt" "nodeSize bt \<le> 32768" "even (nodeSize bt)"
    and "node_numRecords node = Some n" "2 * n + 2 \<le> nodeSize bt"
  shows "(\<forall>i \<le> n. slot_ok bt node (leaf \<and> i < n) (offs (nodeSize bt) node i)
            (next_off (nodeSize bt) node n (nodeSize bt - 2 * n) i)) \<and> 14 \<le> offs (nodeSize bt) node 0 \<longleftrightarrow>
         (\<exists>base recs. node_rep bt base recs node \<and> even base \<and> (\<forall>r \<in> set recs. rec_ok bt leaf r))"
    (is "?slots \<and> ?first \<longleftrightarrow> ?recs")
proof
  let ?sz = "nodeSize bt" and ?o = "offs (nodeSize bt) node"
  assume *: "?slots \<and> ?first"
  then have all: "slot_ok bt node (leaf \<and> i < n) (?o i) (next_off ?sz node n (?sz - 2 * n) i)" if "i \<le> n" for i
    using that by blast
  have slot: "slot_ok bt node leaf (?o i) (?o (Suc i))" if "i < n" for i
    using all [of i] that by (simp add: next_off_def)
  have ev: "even (?o i)" if "i \<le> n" for i using * that by (auto simp: slot_ok_def)
  have "?o n < ?sz - 2 * n" using all [of n] by (simp add: slot_ok_def next_off_def)
  then have lim: "?o n \<le> entry ?sz n"
    using even_gap [OF ev [OF order_refl], of "?sz - 2 * n"] assms(3,5) by (simp add: entry_def)
  have up: "\<forall>i < n. ?o i \<le> ?o (Suc i)" using slot by (auto simp: slot_ok_def dest: less_imp_le)
  have rep: "node_rep bt (?o 0) (node_records bt node n) node"
    using assms * up lim by (intro node_repI) auto
  have "rec_ok bt leaf r" if "r \<in> set (node_records bt node n)" for r
  proof -
    obtain i where i: "i < n" "r = slice node (?o i) (?o (Suc i) - ?o i)"
      using \<open>r \<in> set (node_records bt node n)\<close> by (auto simp: node_records_def)
    have "?o i + 2 \<le> ?o (Suc i)" using slot [OF i(1)] ev i(1) by (intro even_gap) (auto simp: slot_ok_def)
    moreover have "?o (Suc i) \<le> length node"
      using offs_mono [OF up, of "Suc i"] i lim entry_room [OF assms(5)] assms(1) by simp
    ultimately show ?thesis unfolding i(2) using slot [OF i(1)] ev i(1) by (subst rec_ok_slot) auto
  qed
  then show ?recs using rep ev [of 0] by auto
next
  let ?sz = "nodeSize bt" and ?o = "offs (nodeSize bt) node"
  assume ?recs
  then obtain base recs where rep: "node_rep bt base recs node" and ev: "even base"
    and ok: "\<forall>r \<in> set recs. rec_ok bt leaf r" by blast
  have n: "length recs = n" using node_rep_count [OF rep] assms(4) by simp
  have off: "?o i = rec_off base recs i" if "i \<le> n" for i using rep that n by (simp add: node_rep_def)
  have evs: "even (rec_off base recs i)" if "i \<le> n" for i
    using rec_off_even [OF ev] ok that n by (simp add: rec_ok_def)
  have "slot_ok bt node (leaf \<and> i < n) (?o i) (next_off ?sz node n (?sz - 2 * n) i)" if i: "i \<le> n" for i
  proof (cases "i = n")
    case True
    have "rec_off base recs n \<le> entry ?sz n" using rep n by (simp add: node_rep_def)
    then show ?thesis using True evs [OF i] off [OF i] assms(5) by (simp add: slot_ok_def next_off_def entry_def)
  next
    case False
    then have i': "i < n" using i by simp
    let ?a = "rec_off base recs i" and ?b = "rec_off base recs (Suc i)"
    have b: "?b = ?a + length (recs ! i)" using i' n by (intro rec_off_Suc) simp
    have r: "rec_ok bt leaf (recs ! i)" using ok i' n by simp
    then have "?a + 2 \<le> ?b" using b evs i' by (intro even_gap) (auto simp: rec_ok_def)
    moreover have "?b \<le> length node" using node_rep_offset(3) [OF rep, of "Suc i"] i' n assms(1) by simp
    moreover have "slice node ?a (?b - ?a) = recs ! i" using node_rep_record [OF rep] i' n b by simp
    ultimately have "slot_ok bt node leaf ?a ?b"
      using r evs i' rec_ok_slot [of ?a ?b node bt leaf] by (simp add: Suc_leI)
    then show ?thesis using False i' off by (simp add: next_off_def Suc_leI)
  qed
  then show "?slots \<and> ?first" using off [of 0] rep by (simp add: node_rep_def)
qed

lemma CheckNode_decides:
  assumes "length node = nodeSize bt" "16 \<le> nodeSize bt" "nodeSize bt \<le> 32768" "even (nodeSize bt)"
    and "node_fLink node = Some fl" "node_bLink node = Some bl" "node_kind node = Some kind"
    and "node_height node = Some ht" "node_numRecords node = Some n"
  shows "CheckNode bt eof node = Some
           (if int fl \<le> (eof div int (nodeSize bt) - 1) mod 2 ^ 32 \<and>
               int bl \<le> (eof div int (nodeSize bt) - 1) mod 2 ^ 32 \<and>
               kBTLeafNode \<le> kind \<and> kind \<le> kBTMapNode \<and> ht \<le> treeDepth bt \<and>
               0 < n \<and> n \<le> (nodeSize bt - 14) div 8 \<and>
               (\<exists>base recs. node_rep bt base recs node \<and> even base \<and>
                  (\<forall>r \<in> set recs. rec_ok bt (kind = kBTLeafNode) r))
            then noErr else fsBTInvalidNodeErr)"
proof (cases "0 < n \<and> n \<le> (nodeSize bt - 14) div 8")
  case True
  then have n: "2 * n + 2 \<le> nodeSize bt" using assms(2) by linarith
  have "u16_sub (nodeSize bt) (2 * n) = nodeSize bt - 2 * n" using n assms(3) by (intro u16_exact) auto
  then have "CheckNode_loop bt node kind n n (u16_sub (nodeSize bt) (2 * n)) =
      CheckNode_loop bt node kind n n (nodeSize bt - 2 * n)" by simp
  also note CheckNode_loop_decides [OF assms(1) n _ assms(4), of "nodeSize bt - 2 * n" kind n]
  finally have loop: "CheckNode_loop bt node kind n n (u16_sub (nodeSize bt) (2 * n)) = Some
      (if \<forall>i \<le> n. slot_ok bt node (kind = kBTLeafNode \<and> i < n) (offs (nodeSize bt) node i)
            (next_off (nodeSize bt) node n (nodeSize bt - 2 * n) i)
       then Inr (offs (nodeSize bt) node 0) else Inl fsBTInvalidNodeErr)" by simp
  define slots where "slots \<longleftrightarrow> (\<forall>i \<le> n. slot_ok bt node (kind = kBTLeafNode \<and> i < n) (offs (nodeSize bt) node i)
      (next_off (nodeSize bt) node n (nodeSize bt - 2 * n) i))"
  note sr = slots_records [OF assms(1,3,4,9) n, of "kind = kBTLeafNode", folded slots_def]
  show ?thesis
    unfolding sr [symmetric] using True loop [folded slots_def]
    by (cases slots) (simp_all add: CheckNode_def Let_def assms(5-9) not_less not_le)
next
  case False
  then have "CheckNode bt eof node = Some fsBTInvalidNodeErr"
    by (simp add: CheckNode_def Let_def assms(5-9) not_less) blast
  then show ?thesis using False by (subst if_not_P) blast+
qed


section \<open>Properties\<close>

text \<open>The descriptor of a node is sane: its links lie in the file, kind and height are possible.\<close>

definition descriptor_ok :: "BTreeControlBlock \<Rightarrow> int \<Rightarrow> byte list \<Rightarrow> int \<Rightarrow> bool" where
  "descriptor_ok bt eof node kind \<longleftrightarrow>
     (\<exists>fl bl ht. node_fLink node = Some fl \<and> node_bLink node = Some bl \<and> node_kind node = Some kind \<and>
        node_height node = Some ht \<and>
        int fl \<le> (eof div int (nodeSize bt) - 1) mod 2 ^ 32 \<and>
        int bl \<le> (eof div int (nodeSize bt) - 1) mod 2 ^ 32 \<and>
        kBTLeafNode \<le> kind \<and> kind \<le> kBTMapNode \<and> ht \<le> treeDepth bt)"

text \<open>
  C22: \<^verbatim>\<open>CheckNode\<close> reads nothing outside the node, and accepts a node exactly when its
  descriptor is sane and the rest of it holds a non-empty list of records, each of even
  length and, in a leaf node, at least as long as its key.
\<close>

theorem CheckNode_exact:
  assumes "length node = nodeSize bt" "16 \<le> nodeSize bt" "nodeSize bt \<le> 32768" "even (nodeSize bt)"
  shows "CheckNode bt eof node =
           Some (if \<exists>kind base recs. descriptor_ok bt eof node kind \<and> node_rep bt base recs node \<and>
                      even base \<and> recs \<noteq> [] \<and> length recs \<le> (nodeSize bt - 14) div 8 \<and>
                      (\<forall>r \<in> set recs. rec_ok bt (kind = kBTLeafNode) r)
                 then noErr else fsBTInvalidNodeErr)"
proof -
  obtain fl bl kind ht n where fields: "node_fLink node = Some fl" "node_bLink node = Some bl"
    "node_kind node = Some kind" "node_height node = Some ht" "node_numRecords node = Some n"
    using assms(1,2) by (simp add: node_fLink_def node_bLink_def node_kind_def node_height_def
        node_numRecords_def load_def)
  have len: "node_rep bt base recs node \<Longrightarrow> length recs = n" for base recs
    using fields(5) node_rep_count [of bt base recs node] by simp
  have kind: "descriptor_ok bt eof node kind' \<Longrightarrow> kind' = kind" for kind'
    using fields(3) by (auto simp: descriptor_ok_def)
  have "(\<exists>kind base recs. descriptor_ok bt eof node kind \<and> node_rep bt base recs node \<and>
      even base \<and> recs \<noteq> [] \<and> length recs \<le> (nodeSize bt - 14) div 8 \<and>
      (\<forall>r \<in> set recs. rec_ok bt (kind = kBTLeafNode) r)) \<longleftrightarrow>
    (descriptor_ok bt eof node kind \<and> 0 < n \<and> n \<le> (nodeSize bt - 14) div 8 \<and>
      (\<exists>base recs. node_rep bt base recs node \<and> even base \<and>
        (\<forall>r \<in> set recs. rec_ok bt (kind = kBTLeafNode) r)))"
    (is "?L \<longleftrightarrow> ?R")
  proof
    assume ?L
    then obtain kind' base recs where d: "descriptor_ok bt eof node kind'" and rep: "node_rep bt base recs node"
      and rest: "even base" "recs \<noteq> []" "length recs \<le> (nodeSize bt - 14) div 8"
        "\<forall>r \<in> set recs. rec_ok bt (kind' = kBTLeafNode) r" by blast
    then show ?R using kind [OF d] len [OF rep] by auto
  next
    assume ?R
    then obtain base recs where "descriptor_ok bt eof node kind" "node_rep bt base recs node" "even base"
      "\<forall>r \<in> set recs. rec_ok bt (kind = kBTLeafNode) r" "0 < n" "n \<le> (nodeSize bt - 14) div 8" by blast
    moreover from this have "length recs = n" by (intro len)
    moreover from this have "recs \<noteq> []" using \<open>0 < n\<close> by auto
    ultimately show ?L by blast
  qed
  moreover have "descriptor_ok bt eof node kind \<longleftrightarrow>
      int fl \<le> (eof div int (nodeSize bt) - 1) mod 2 ^ 32 \<and> int bl \<le> (eof div int (nodeSize bt) - 1) mod 2 ^ 32 \<and>
      kBTLeafNode \<le> kind \<and> kind \<le> kBTMapNode \<and> ht \<le> treeDepth bt"
    using fields by (simp add: descriptor_ok_def)
  ultimately show ?thesis using CheckNode_decides [OF assms fields, of eof] by simp
qed

theorem CheckNode_exact_witness:
  "CheckNode small_btree 4096 (replicate 512 0) = Some fsBTInvalidNodeErr"
proof -
  have "node_numRecords (replicate 512 0) = Some 0"
    by (simp add: node_numRecords_def load_def slice_def numeral_2_eq_2)
  then have "recs = []" if "node_rep small_btree base recs (replicate 512 0)" for base recs
    using node_rep_count [OF that] by simp
  with CheckNode_exact [of "replicate 512 0" small_btree 4096] show ?thesis
    by (auto simp: small_btree_def [THEN arg_cong, of nodeSize, simplified])
qed

end
