(* ===== verification/NodeSearch.thy ===== *)
theory NodeSearch
  imports BTreeNode "HOL-Library.Product_Lexorder"
begin

text \<open>
  The binary search \<^verbatim>\<open>SearchNode\<close> of \<^verbatim>\<open>src/hfsplus/hfscommon/BTree/BTreeNodeOps.c\<close> and the key
  comparisons of the extents file, \<^verbatim>\<open>CompareExtentKeys\<close> and \<^verbatim>\<open>CompareExtentKeysPlus\<close> of
  \<^verbatim>\<open>src/hfsplus/hfscommon/Misc/FileExtentMapping.c\<close>.

  The search relies on its key comparison through the interface \<open>key_order\<close>: the
  comparison reads only the key, and orders keys by some value in a linear order.
  Both comparisons of the extents file are shown to provide it.
\<close>

section \<open>Extent keys\<close>

text \<open>
  The fields of \<^verbatim>\<open>HFSExtentKey\<close> and \<^verbatim>\<open>HFSPlusExtentKey\<close>, packed to two bytes. A test
  of the key length only prints a message.
\<close>

definition compare_keys :: "nat \<times> nat \<times> nat \<Rightarrow> nat \<times> nat \<times> nat \<Rightarrow> int" where
  "compare_keys s t =
     (case s of (sID, sFork, sBlock) \<Rightarrow> case t of (tID, tFork, tBlock) \<Rightarrow>
        if sID = tID then
          if sFork = tFork then
            if sBlock = tBlock then 0 else if sBlock > tBlock then 1 else - 1
          else if sFork > tFork then 1 else - 1
        else if sID > tID then 1 else - 1)"

definition CompareExtentKeys :: "KeyPtr \<Rightarrow> KeyPtr \<Rightarrow> int option" where
  "CompareExtentKeys searchKey trialKey = do {
     sID \<leftarrow> load32 searchKey 2;
     tID \<leftarrow> load32 trialKey 2;
     sFork \<leftarrow> load8 searchKey 1;
     tFork \<leftarrow> load8 trialKey 1;
     sBlock \<leftarrow> load16 searchKey 6;
     tBlock \<leftarrow> load16 trialKey 6;
     Some (compare_keys (sID, sFork, sBlock) (tID, tFork, tBlock))
   }"

definition CompareExtentKeysPlus :: "KeyPtr \<Rightarrow> KeyPtr \<Rightarrow> int option" where
  "CompareExtentKeysPlus searchKey trialKey = do {
     sID \<leftarrow> load32 searchKey 4;
     tID \<leftarrow> load32 trialKey 4;
     sFork \<leftarrow> load8 searchKey 2;
     tFork \<leftarrow> load8 trialKey 2;
     sBlock \<leftarrow> load32 searchKey 8;
     tBlock \<leftarrow> load32 trialKey 8;
     Some (compare_keys (sID, sFork, sBlock) (tID, tFork, tBlock))
   }"

section \<open>The interface of a key comparison\<close>

locale key_order =
  fixes cmp :: "KeyPtr \<Rightarrow> KeyPtr \<Rightarrow> int option"
    and valid :: "byte list \<Rightarrow> bool"
    and kval :: "byte list \<Rightarrow> 'k :: linorder"
  assumes cmp: "valid s \<Longrightarrow> valid t \<Longrightarrow>
      \<exists>c. cmp s t = Some c \<and> (c < 0 \<longleftrightarrow> kval s < kval t) \<and> (c > 0 \<longleftrightarrow> kval t < kval s)"
    and prefix: "valid t \<Longrightarrow> valid (t @ u) \<and> kval (t @ u) = kval t"
begin

lemma compare_record:
  assumes "node_rep bt base recs node" "i < length recs" "valid (recs ! i)" "valid key"
  shows "\<exists>c. cmp key (drop (rec_off base recs i) node) = Some c \<and>
           (c < 0 \<longleftrightarrow> kval key < kval (recs ! i)) \<and> (c > 0 \<longleftrightarrow> kval (recs ! i) < kval key)"
proof -
  let ?a = "rec_off base recs i"
  have "take 1 (drop i recs) = [recs ! i]"
    using assms(2) by (simp add: take_Suc_conv_app_nth hd_drop_conv_nth take_Suc drop_Suc)
  then have "take (length (recs ! i)) (drop ?a node) = recs ! i"
    using node_rep_slice [OF assms(1), of i 1] assms(2) by (simp add: slice_def)
  then have "drop ?a node = recs ! i @ drop (length (recs ! i)) (drop ?a node)"
    by (metis append_take_drop_id)
  then have "valid (drop ?a node) \<and> kval (drop ?a node) = kval (recs ! i)"
    using prefix [OF assms(3)] by metis
  with cmp [OF assms(4)] show ?thesis by metis
qed

lemma SearchNode_loop_finds:
  assumes "node_rep bt base recs node" "keyCompareProc bt = cmp" "valid key"
    and "\<forall>r \<in> set recs. valid r" "sorted_wrt (<) (map kval recs)"
    and "0 \<le> lo" "hi < int (length recs)"
    and "\<forall>j < nat lo. kval (recs ! j) < kval key"
    and "\<forall>j < length recs. hi < int j \<longrightarrow> kval key < kval (recs ! j)"
    and "lo \<le> hi + 1"
  shows "\<exists>found i. SearchNode_loop bt node key lo hi = Some (found, i) \<and> i \<le> length recs \<and>
           (\<forall>j < i. kval (recs ! j) < kval key) \<and>
           (\<forall>j < length recs. i \<le> j \<longrightarrow> kval key \<le> kval (recs ! j)) \<and>
           (found \<longleftrightarrow> i < length recs \<and> kval (recs ! i) = kval key)"
  using assms(6-)
proof (induction "nat (hi - lo + 1)" arbitrary: lo hi rule: less_induct)
  case less
  have mono: "kval (recs ! i) < kval (recs ! j)" if "i < j" "j < length recs" for i j
    using assms(5) that by (auto simp: sorted_wrt_iff_nth_less)
  show ?case
  proof (cases "lo \<le> hi")
    case False
    then have eq: "hi = lo - 1" using less.prems by simp
    have "SearchNode_loop bt node key lo hi = Some (False, nat lo)"
      using False by (subst SearchNode_loop.simps) simp
    moreover have above: "kval key < kval (recs ! j)" if "j < length recs" "nat lo \<le> j" for j
      using that less.prems eq by auto
    moreover have "\<not> (nat lo < length recs \<and> kval (recs ! nat lo) = kval key)"
      using above [of "nat lo"] by auto
    moreover have "nat lo \<le> length recs" using less.prems eq by linarith
    ultimately show ?thesis using less.prems(3) by (intro exI [of _ False] exI [of _ "nat lo"]) (simp add: less_imp_le)
  next
    case True
    define m where "m = nat ((lo + hi) div 2)"
    have mid: "int m = (lo + hi) div 2" "lo \<le> int m" "int m \<le> hi" using True less.prems by (auto simp: m_def)
    then have m: "m < length recs" using less.prems by linarith
    have off: "GetRecordOffset bt node m = Some (rec_off base recs m)"
      using node_rep_offset(1) [OF assms(1)] m by simp
    obtain c where c: "cmp key (drop (rec_off base recs m) node) = Some c"
      "c < 0 \<longleftrightarrow> kval key < kval (recs ! m)" "c > 0 \<longleftrightarrow> kval (recs ! m) < kval key"
      using compare_record [OF assms(1) m] assms(3,4) m by (meson nth_mem)
    have step: "SearchNode_loop bt node key lo hi =
        (if c < 0 then SearchNode_loop bt node key lo (int m - 1)
         else if c > 0 then SearchNode_loop bt node key (int m + 1) hi else Some (True, m))"
      using True by (subst SearchNode_loop.simps) (simp add: Let_def mid(1) [symmetric] off assms(2) c(1))
    consider "c < 0" | "c > 0" | "c = 0" by linarith
    then show ?thesis
    proof cases
      case 1
      have "\<forall>j < length recs. int m - 1 < int j \<longrightarrow> kval key < kval (recs ! j)"
      proof (intro allI impI)
        fix j assume j: "j < length recs" "int m - 1 < int j"
        then have "j = m \<or> m < j" by linarith
        then show "kval key < kval (recs ! j)" using 1 c(2) mono [of m j] j by auto
      qed
      then show ?thesis using less.hyps [of "int m - 1" lo] less.prems mid 1 step by simp
    next
      case 2
      have "\<forall>j < nat (int m + 1). kval (recs ! j) < kval key"
      proof (intro allI impI)
        fix j assume "j < nat (int m + 1)"
        then have "j = m \<or> j < m" by linarith
        then show "kval (recs ! j) < kval key" using 2 c(3) mono [of j m] m by auto
      qed
      then show ?thesis using less.hyps [of hi "int m + 1"] less.prems mid 2 step by simp
    next
      case 3
      then have eq: "kval (recs ! m) = kval key" using c by simp
      moreover have "kval (recs ! j) < kval key" if "j < m" for j using mono [OF that m] eq by simp
      moreover have "kval key \<le> kval (recs ! j)" if "j < length recs" "m \<le> j" for j
        using mono [of m j] that eq by (cases "j = m") auto
      ultimately show ?thesis using 3 step m by (auto intro!: exI [of _ m])
    qed
  qed
qed

end

lemma SearchNode_finds:
  fixes kval :: "byte list \<Rightarrow> 'k :: linorder"
  assumes "key_order cmp valid kval" "keyCompareProc bt = cmp"
    and "node_rep bt base recs node" "valid key" "\<forall>r \<in> set recs. valid r" "sorted_wrt (<) (map kval recs)"
  shows "\<exists>found i. SearchNode bt node key = Some (found, i) \<and> i \<le> length recs \<and>
           (\<forall>j < i. kval (recs ! j) < kval key) \<and>
           (\<forall>j < length recs. i \<le> j \<longrightarrow> kval key \<le> kval (recs ! j)) \<and>
           (found \<longleftrightarrow> i < length recs \<and> kval (recs ! i) = kval key)"
  using key_order.SearchNode_loop_finds [OF assms(1,3,2,4-6), of 0 "int (length recs) - 1"]
  by (simp add: SearchNode_def node_rep_count [OF assms(3)])

section \<open>The extents file provides it\<close>

definition extent_kval :: "byte list \<Rightarrow> nat \<times> nat \<times> nat" where
  "extent_kval key = (le_nat (slice key 2 4), le_nat (slice key 1 1), le_nat (slice key 6 2))"

definition extent_kval_plus :: "byte list \<Rightarrow> nat \<times> nat \<times> nat" where
  "extent_kval_plus key = (le_nat (slice key 4 4), le_nat (slice key 2 1), le_nat (slice key 8 4))"

lemma compare_keys_order: "compare_keys s t < 0 \<longleftrightarrow> s < t" "compare_keys s t > 0 \<longleftrightarrow> t < s"
  by (auto simp: compare_keys_def less_prod_def' split: prod.splits)

lemma slice_prefix: "i + n \<le> length t \<Longrightarrow> slice (t @ u) i n = slice t i n"
  by (simp add: slice_def)

interpretation extent_keys: key_order CompareExtentKeys "\<lambda>key. 8 \<le> length key" extent_kval
proof
  fix s t u :: "byte list"
  assume t: "8 \<le> length t"
  then show "8 \<le> length (t @ u) \<and> extent_kval (t @ u) = extent_kval t"
    by (simp add: extent_kval_def slice_prefix)
  assume "8 \<le> length s"
  with t have "CompareExtentKeys s t = Some (compare_keys (extent_kval s) (extent_kval t))"
    by (simp add: CompareExtentKeys_def load_def extent_kval_def)
  then show "\<exists>c. CompareExtentKeys s t = Some c \<and> (c < 0 \<longleftrightarrow> extent_kval s < extent_kval t) \<and>
      (c > 0 \<longleftrightarrow> extent_kval t < extent_kval s)"
    by (simp add: compare_keys_order)
qed

interpretation extent_keys_plus: key_order CompareExtentKeysPlus "\<lambda>key. 12 \<le> length key" extent_kval_plus
proof
  fix s t u :: "byte list"
  assume t: "12 \<le> length t"
  then show "12 \<le> length (t @ u) \<and> extent_kval_plus (t @ u) = extent_kval_plus t"
    by (simp add: extent_kval_plus_def slice_prefix)
  assume "12 \<le> length s"
  with t have "CompareExtentKeysPlus s t = Some (compare_keys (extent_kval_plus s) (extent_kval_plus t))"
    by (simp add: CompareExtentKeysPlus_def load_def extent_kval_plus_def)
  then show "\<exists>c. CompareExtentKeysPlus s t = Some c \<and> (c < 0 \<longleftrightarrow> extent_kval_plus s < extent_kval_plus t) \<and>
      (c > 0 \<longleftrightarrow> extent_kval_plus t < extent_kval_plus s)"
    by (simp add: compare_keys_order)
qed


section \<open>Properties\<close>

text \<open>
  C23: on a node whose records are in strictly increasing key order, \<^verbatim>\<open>SearchNode\<close> ends,
  reads nothing outside the node, and returns the number of records below the search
  key; it reports success exactly when the record at that index has the search key.
  This holds for every comparison that orders keys by a value in a linear order.
\<close>

theorem SearchNode_correct:
  fixes kval :: "byte list \<Rightarrow> 'k :: linorder"
  assumes "key_order cmp valid kval" "keyCompareProc bt = cmp"
    and "node_rep bt base recs node" "valid key" "\<forall>r \<in> set recs. valid r" "sorted_wrt (<) (map kval recs)"
  shows "\<exists>found i. SearchNode bt node key = Some (found, i) \<and> i = length (filter (\<lambda>r. kval r < kval key) recs) \<and>
           (found \<longleftrightarrow> (\<exists>r \<in> set recs. kval r = kval key)) \<and> (found \<longrightarrow> i < length recs \<and> kval (recs ! i) = kval key)"
proof -
  obtain found i where r: "SearchNode bt node key = Some (found, i)" "i \<le> length recs"
    and below: "\<forall>j < i. kval (recs ! j) < kval key"
    and above: "\<forall>j < length recs. i \<le> j \<longrightarrow> kval key \<le> kval (recs ! j)"
    and found: "found \<longleftrightarrow> i < length recs \<and> kval (recs ! i) = kval key"
    using SearchNode_finds [OF assms] by blast
  have "\<forall>r \<in> set (take i recs). kval r < kval key"
    using below r(2) by (auto simp: in_set_conv_nth)
  moreover have "\<forall>r \<in> set (drop i recs). \<not> kval r < kval key"
    using above by (auto simp: in_set_conv_nth not_less)
  ultimately have "filter (\<lambda>r. kval r < kval key) (take i recs @ drop i recs) = take i recs"
    by (simp only: filter_append filter_True filter_False append_Nil2)
  then have len: "i = length (filter (\<lambda>r. kval r < kval key) recs)" using r(2) by simp
  have "j = i" if "j < length recs" "kval (recs ! j) = kval key" for j
  proof (rule ccontr)
    assume "j \<noteq> i"
    then have "i < j" using below that by (metis linorder_neqE less_irrefl)
    then have "kval (recs ! i) < kval (recs ! j)" using assms(6) that(1) by (simp add: sorted_wrt_iff_nth_less)
    then show False using above that \<open>i < j\<close> by (metis leD less_imp_le order.strict_trans order_refl)
  qed
  then have "found \<longleftrightarrow> (\<exists>r \<in> set recs. kval r = kval key)"
    unfolding found by (metis in_set_conv_nth)
  with r(1) len found show ?thesis by blast
qed

text \<open>A node of the extents file with one record, for file 16, data fork, block 5.\<close>

definition extents_btree :: BTreeControlBlock where
  "extents_btree = small_btree\<lparr>keyCompareProc := CompareExtentKeysPlus\<rparr>"

definition extents_record :: "byte list" where
  "extents_record = [10, 0, 0, 0, 16, 0, 0, 0, 5, 0, 0, 0] @ replicate 64 0"

lemma extents_btree_size: "nodeSize extents_btree = 512"
  by (simp add: extents_btree_def small_btree_def)

lemma extents_node: "\<exists>node. node_rep extents_btree 14 [extents_record] node"
proof -
  obtain node where "node_rep extents_btree 14 [] node"
    using GetNewNode_init_rep [of "replicate 512 0" extents_btree] by (auto simp: extents_btree_size)
  from InsertRecord_rep [OF this, of 0 extents_record] show ?thesis
    by (auto simp: extents_btree_size extents_record_def insert_at_def)
qed

theorem SearchNode_correct_witness:
  "\<exists>node. SearchNode extents_btree node [10, 0, 0, 0, 16, 0, 0, 0, 5, 0, 0, 0] = Some (True, 0)"
proof -
  obtain node where rep: "node_rep extents_btree 14 [extents_record] node" using extents_node by blast
  let ?key = "[10, 0, 0, 0, 16, 0, 0, 0, 5, 0, 0, 0] :: byte list"
  have "extent_kval_plus extents_record = extent_kval_plus ?key"
    unfolding extents_record_def by (rule conjunct2 [OF extent_keys_plus.prefix]) simp
  moreover have "keyCompareProc extents_btree = CompareExtentKeysPlus" by (simp add: extents_btree_def)
  ultimately show ?thesis
    using SearchNode_correct [OF extent_keys_plus.key_order_axioms _ rep, of ?key]
    by (auto simp: extents_record_def)
qed

end
