(* ===== verification/BTreeRotate.thy ===== *)
theory BTreeRotate
  imports BTreeNode
begin

text \<open>
  Moving records between neighbouring nodes: \<^verbatim>\<open>RotateLeft\<close>, \<^verbatim>\<open>RotateRecordLeft\<close> and
  \<^verbatim>\<open>GetKeyLength\<close> of \<^verbatim>\<open>src/hfsplus/hfscommon/BTree/BTreeTreeOps.c\<close>. \<^verbatim>\<open>RotateLeft\<close> makes room for
  a new record by moving records from a node to its left neighbour, the new record
  among them; it serves both plain rotation and the split of a node, whose left
  neighbour is then new and empty.

  No record is lost, duplicated or put out of order, and a split always succeeds as
  long as no record takes more than half a node.
\<close>

section \<open>The routines\<close>

definition fsBTBadRotateErr :: OSErr where "fsBTBadRotateErr = - 32767 + 64"

definition GetKeyLength :: "BTreeControlBlock \<Rightarrow> KeyPtr \<Rightarrow> bool \<Rightarrow> nat option" where
  "GetKeyLength bt key forLeafNode =
     (if forLeafNode \<or> attributes bt AND kBTVariableIndexKeysMask \<noteq> 0 then KeyLength bt key
      else Some (maxKeyLength bt))"

definition RotateRecordLeft ::
  "BTreeControlBlock \<Rightarrow> byte list \<Rightarrow> byte list \<Rightarrow> (bool \<times> byte list \<times> byte list) option" where
  "RotateRecordLeft bt leftNode rightNode = do {
     recSize \<leftarrow> GetRecordSize bt rightNode 0;
     recPtr \<leftarrow> GetRecordAddress bt rightNode 0;
     n \<leftarrow> node_numRecords leftNode;
     (recordFit, leftNode) \<leftarrow> InsertRecord bt leftNode n (drop recPtr rightNode) recSize;
     if \<not> recordFit then Some (False, leftNode, rightNode)
     else do {
       rightNode \<leftarrow> DeleteRecord bt rightNode 0;
       Some (True, leftNode, rightNode)
     }
   }"

text \<open>
  The loop that finds the balance point: \<open>ins\<close> is \<^verbatim>\<open>rightInsertIndex\<close>. The sizes it
  moves are positive, but that it ends is a property of the nodes.
\<close>

partial_function (option) RotateLeft_balance ::
  "BTreeControlBlock \<Rightarrow> byte list \<Rightarrow> nat \<Rightarrow> int \<Rightarrow> int \<Rightarrow> int \<Rightarrow> int \<Rightarrow> nat \<Rightarrow> (int \<times> int \<times> int \<times> nat) option" where
  "RotateLeft_balance bt rightNode ins insertSize leftSize rightSize moveSize moveIndex =
     (if leftSize < rightSize then do {
        moveSize \<leftarrow>
          (if moveIndex < ins then map_option (\<lambda>k. int k + 2) (GetRecordSize bt rightNode moveIndex)
           else if moveIndex = ins then Some insertSize
           else map_option (\<lambda>k. int k + 2) (GetRecordSize bt rightNode (moveIndex - 1)));
        RotateLeft_balance bt rightNode ins insertSize (leftSize + moveSize) (rightSize - moveSize)
          moveSize (u16_add moveIndex 1)
      }
      else Some (leftSize, rightSize, moveSize, moveIndex))"

text \<open>
  The loop that moves the records. The result is the error, the nodes and, once the
  new record has been inserted, its index and node number.
\<close>

function RotateLeft_move ::
  "BTreeControlBlock \<Rightarrow> byte list \<Rightarrow> byte list \<Rightarrow> nat \<Rightarrow> KeyPtr \<Rightarrow> nat \<Rightarrow> byte list \<Rightarrow> nat \<Rightarrow> nat \<Rightarrow> nat \<Rightarrow>
   (nat \<times> nat) option \<Rightarrow> (OSErr \<times> byte list \<times> byte list \<times> (nat \<times> nat) option) option" where
  "RotateLeft_move bt leftNode rightNode ins keyPtr keyLength recPtr recSize moveIndex index placed =
     (if index < moveIndex then
        if index = ins then do {
          leftInsertIndex \<leftarrow> node_numRecords leftNode;
          (didItFit, leftNode) \<leftarrow>
            InsertKeyRecord bt leftNode leftInsertIndex keyPtr keyLength recPtr recSize;
          if \<not> didItFit then Some (fsBTBadRotateErr, leftNode, rightNode, placed)
          else do {
            bLink \<leftarrow> node_bLink rightNode;
            RotateLeft_move bt leftNode rightNode ins keyPtr keyLength recPtr recSize moveIndex (index + 1)
              (Some (leftInsertIndex, bLink))
          }
        }
        else do {
          (didItFit, leftNode, rightNode) \<leftarrow> RotateRecordLeft bt leftNode rightNode;
          if \<not> didItFit then Some (fsBTBadRotateErr, leftNode, rightNode, placed)
          else RotateLeft_move bt leftNode rightNode ins keyPtr keyLength recPtr recSize moveIndex (index + 1) placed
        }
      else Some (noErr, leftNode, rightNode, placed))"
  by pat_completeness auto
termination
  by (relation "measure (\<lambda>(bt, l, r, ins, k, kl, rp, rs, m, i, p). m - i)") auto

text \<open>The outputs of \<^verbatim>\<open>RotateLeft\<close>, with the two nodes it changed.\<close>

record rotation =
  rot_err :: OSErr
  rot_left :: "byte list"
  rot_right :: "byte list"
  insertIndex :: nat
  insertNodeNum :: nat
  recordFit :: bool
  recsRotated :: nat

definition rotation_none :: "OSErr \<Rightarrow> byte list \<Rightarrow> byte list \<Rightarrow> rotation" where
  "rotation_none err leftNode rightNode =
     \<lparr>rot_err = err, rot_left = leftNode, rot_right = rightNode, insertIndex = 0, insertNodeNum = 0,
      recordFit = False, recsRotated = 0\<rparr>"

definition RotateLeft_insertSize :: "BTreeControlBlock \<Rightarrow> nat \<Rightarrow> nat \<Rightarrow> int" where
  "RotateLeft_insertSize bt keyLength recSize =
     (let insertSize = int keyLength + (if BigKeys bt then 2 else 1) + int recSize + 2
      in if odd insertSize then insertSize + 1 else insertSize)"

text \<open>The part of \<^verbatim>\<open>RotateLeft\<close> after the balance point is known.\<close>

definition RotateLeft_apply ::
  "BTreeControlBlock \<Rightarrow> byte list \<Rightarrow> byte list \<Rightarrow> nat \<Rightarrow> KeyPtr \<Rightarrow> nat \<Rightarrow> byte list \<Rightarrow> nat \<Rightarrow> nat \<Rightarrow>
   rotation option" where
  "RotateLeft_apply bt leftNode rightNode rightInsertIndex keyPtr keyLength recPtr recSize moveIndex = do {
     (err, leftNode, rightNode, placed) \<leftarrow>
       RotateLeft_move bt leftNode rightNode rightInsertIndex keyPtr keyLength recPtr recSize moveIndex 0 None;
     if err \<noteq> noErr then Some (rotation_none err leftNode rightNode)
     else if moveIndex \<le> rightInsertIndex then do {
       let ins = rightInsertIndex - moveIndex;
       (didItFit, rightNode) \<leftarrow> InsertKeyRecord bt rightNode ins keyPtr keyLength recPtr recSize;
       if \<not> didItFit then Some (rotation_none fsBTBadRotateErr leftNode rightNode)
       else do {
         fLink \<leftarrow> node_fLink leftNode;
         Some \<lparr>rot_err = noErr, rot_left = leftNode, rot_right = rightNode, insertIndex = ins,
               insertNodeNum = fLink, recordFit = True, recsRotated = moveIndex\<rparr>
       }
     }
     else do {
       (i, num) \<leftarrow> placed;
       Some \<lparr>rot_err = noErr, rot_left = leftNode, rot_right = rightNode, insertIndex = i,
             insertNodeNum = num, recordFit = True, recsRotated = moveIndex\<rparr>
     }
   }"

definition RotateLeft ::
  "BTreeControlBlock \<Rightarrow> byte list \<Rightarrow> byte list \<Rightarrow> nat \<Rightarrow> KeyPtr \<Rightarrow> byte list \<Rightarrow> nat \<Rightarrow> rotation option" where
  "RotateLeft bt leftNode rightNode rightInsertIndex keyPtr recPtr recSize = do {
     kind \<leftarrow> node_kind rightNode;
     keyLength \<leftarrow> GetKeyLength bt keyPtr (kind = kBTLeafNode);
     let insertSize = RotateLeft_insertSize bt keyLength recSize;
     rightFree \<leftarrow> GetNodeFreeSize bt rightNode;
     leftFree \<leftarrow> GetNodeFreeSize bt leftNode;
     (leftSize, rightSize, moveSize, moveIndex) \<leftarrow>
       RotateLeft_balance bt rightNode rightInsertIndex insertSize (int (nodeSize bt) - int leftFree)
         (int (nodeSize bt) - int rightFree + insertSize) 0 0;
     let (leftSize, rightSize, moveIndex) =
       (if leftSize > int (nodeSize bt)
        then (leftSize - moveSize, rightSize + moveSize, u16_sub moveIndex 1)
        else (leftSize, rightSize, moveIndex));
     if rightSize > int (nodeSize bt) then Some (rotation_none noErr leftNode rightNode)
     else RotateLeft_apply bt leftNode rightNode rightInsertIndex keyPtr keyLength recPtr recSize moveIndex
   }"

declare RotateLeft_move.simps [simp del]


section \<open>Space\<close>

definition used :: "nat \<Rightarrow> byte list list \<Rightarrow> nat" where
  "used b recs = b + 2 + (\<Sum>r \<leftarrow> recs. length r + 2)"

lemma used_simps [simp]:
  "used b [] = b + 2" "used b (r # recs) = length r + 2 + used b recs"
  by (simp_all add: used_def)

lemma used_append: "used b (xs @ ys) = used b xs + (\<Sum>r \<leftarrow> ys. length r + 2)"
  by (simp add: used_def)

lemma used_rec_off: "used b recs = rec_off b recs (length recs) + 2 * length recs + 2"
  by (induction recs) (simp_all add: rec_off_def)

lemma node_rep_used:
  assumes "node_rep bt b recs node"
  shows "used b recs \<le> nodeSize bt" "GetNodeFreeSize bt node = Some (nodeSize bt - used b recs)"
  using node_rep_offset(3) [OF assms order_refl] node_rep_free [OF assms] by (simp_all add: used_rec_off)

lemma node_rep_GetRecordSize:
  assumes "node_rep bt b recs node" "i < length recs"
  shows "GetRecordSize bt node i = Some (length (recs ! i))"
proof -
  have "rec_off b recs (Suc i) + 2 \<le> 32768"
    using node_rep_offset(3) [OF assms(1), of "Suc i"] assms by (simp add: node_rep_def)
  then have "u16_sub (rec_off b recs (Suc i)) (rec_off b recs i) = length (recs ! i)"
    using rec_off_Suc [OF assms(2), of b] by (subst u16_exact) simp_all
  then show ?thesis
    using node_rep_offset(1) [OF assms(1)] assms(2) by (simp add: GetRecordSize_def)
qed

lemma InsertRecord_fits:
  assumes "node_rep bt b recs node" "i \<le> length recs" "used b recs + length r + 2 \<le> nodeSize bt"
  shows "\<exists>node'. InsertRecord bt node i r (length r) = Some (True, node') \<and>
           node_rep bt b (insert_at i r recs) node' \<and> take 10 node' = take 10 node"
  using InsertRecord_rep [OF assms(1,2), of r] assms(3) by (simp add: used_rec_off)

section \<open>Moving one record\<close>

lemma RotateRecordLeft_rep:
  assumes L: "node_rep bt b L left" and R: "node_rep bt b (r # R) right"
    and "used b L + length r + 2 \<le> nodeSize bt"
  shows "\<exists>left' right'. RotateRecordLeft bt left right = Some (True, left', right') \<and>
           node_rep bt b (L @ [r]) left' \<and> node_rep bt b R right' \<and>
           take 10 left' = take 10 left \<and> take 10 right' = take 10 right"
proof -
  let ?p = "drop b right"
  have len: "length r \<le> length ?p"
    using node_rep_offset(3) [OF R, of 1] R by (simp add: rec_off_def node_rep_def)
  have "slice right b (length r) = r" using node_rep_slice [OF R, of 0 1] by (simp add: rec_off_def)
  then have "take (length r) ?p = r" by (simp add: slice_def)
  then have same: "InsertRecord bt left i ?p (length r) = InsertRecord bt left i r (length r)" for i
    using len by (simp add: InsertRecord_def cong: if_cong)
  obtain left' where left': "InsertRecord bt left (length L) r (length r) = Some (True, left')"
    "node_rep bt b (L @ [r]) left'" "take 10 left' = take 10 left"
    using InsertRecord_fits [OF L order_refl assms(3)] by (auto simp: insert_at_def)
  obtain right' where right': "DeleteRecord bt right 0 = Some right'" "node_rep bt b R right'"
    "take 10 right' = take 10 right"
    using DeleteRecord_rep [OF R, of 0] by (auto simp: delete_at_def)
  show ?thesis
    using left' right' node_rep_GetRecordSize [OF R, of 0] node_rep_offset(2) [OF R, of 0]
      node_rep_count [OF L] same by (simp add: RotateRecordLeft_def)
qed

section \<open>The balance point\<close>

lemma sum_sizes_split:
  "k < length Z \<Longrightarrow> (\<Sum>r \<leftarrow> take (Suc k) Z. length r + 2) = (\<Sum>r \<leftarrow> take k Z. length r + 2) + (length (Z ! k) + 2)"
  "k < length Z \<Longrightarrow> (\<Sum>r \<leftarrow> drop k Z. length r + 2) = (length (Z ! k) + 2) + (\<Sum>r \<leftarrow> drop (Suc k) Z. length r + 2)"
  by (simp_all add: take_Suc_conv_app_nth Cons_nth_drop_Suc [symmetric])

lemma insert_at_end: "insert_at (length xs) x xs = xs @ [x]"
  by (simp add: insert_at_def)

lemma insert_at_nth:
  assumes "i \<le> length xs" "k \<le> length xs"
  shows "insert_at i x xs ! k = (if k < i then xs ! k else if k = i then x else xs ! (k - 1))"
  using assms by (auto simp: insert_at_def nth_append nth_Cons' min_def)

text \<open>
  With \<open>k\<close> records moved, the sizes are those of the left node with the first \<open>k\<close>
  of the records \<open>Z\<close> to place, and of a node with the others.
\<close>

lemma RotateLeft_balance_point:
  assumes R: "node_rep bt b R right" and ins: "ins \<le> length R" and Z: "Z = insert_at ins r R"
    and insert: "insertSize = int (length r) + 2" and L: "b + 2 \<le> l" and k: "k \<le> length Z"
  shows "\<exists>m moveSize'. RotateLeft_balance bt right ins insertSize
             (int (l + (\<Sum>r \<leftarrow> take k Z. length r + 2))) (int (used b (drop k Z))) moveSize k =
           Some (int (l + (\<Sum>r \<leftarrow> take m Z. length r + 2)), int (used b (drop m Z)), moveSize', m) \<and>
         k \<le> m \<and> m \<le> length Z \<and> used b (drop m Z) \<le> l + (\<Sum>r \<leftarrow> take m Z. length r + 2) \<and>
         (m = k \<and> moveSize' = moveSize \<or>
          k < m \<and> moveSize' = int (length (Z ! (m - 1)) + 2) \<and>
            l + (\<Sum>r \<leftarrow> take (m - 1) Z. length r + 2) < used b (drop (m - 1) Z))"
  using k
proof (induction "length Z - k" arbitrary: k moveSize)
  case 0
  then have "k = length Z" by simp
  then show ?case using L by (subst RotateLeft_balance.simps) simp
next
  case (Suc d)
  let ?l = "\<lambda>k. l + (\<Sum>r \<leftarrow> take k Z. length r + 2)" and ?r = "\<lambda>k. used b (drop k Z)"
  have k: "k < length Z" using Suc by simp
  have lenZ: "length Z = Suc (length R)" using Z ins by simp
  show ?case
  proof (cases "?l k < ?r k")
    case False
    then show ?thesis using Suc.prems by (subst RotateLeft_balance.simps) (auto intro!: exI [of _ k])
  next
    case True
    have nth: "Z ! k = (if k < ins then R ! k else if k = ins then r else R ! (k - 1))"
      unfolding Z using ins k lenZ by (intro insert_at_nth) simp_all
    have "(if k < ins then map_option (\<lambda>k. int k + 2) (GetRecordSize bt right k)
        else if k = ins then Some insertSize
        else map_option (\<lambda>k. int k + 2) (GetRecordSize bt right (k - 1))) = Some (int (length (Z ! k)) + 2)"
      using nth node_rep_GetRecordSize [OF R] insert k lenZ ins by auto
    moreover have "2 * length R + 2 \<le> 32768" using R by (simp add: node_rep_def)
    then have "u16_add k 1 = Suc k" using k lenZ by (subst u16_exact) simp_all
    moreover have "int (?l (Suc k)) = int (?l k) + (int (length (Z ! k)) + 2)"
      "int (?r (Suc k)) = int (?r k) - (int (length (Z ! k)) + 2)"
      using sum_sizes_split [OF k] by (simp_all add: used_def)
    ultimately have step: "RotateLeft_balance bt right ins insertSize (int (?l k)) (int (?r k)) moveSize k =
        RotateLeft_balance bt right ins insertSize (int (?l (Suc k))) (int (?r (Suc k))) (int (length (Z ! k)) + 2) (Suc k)"
      using True by (subst RotateLeft_balance.simps) (simp add: add.assoc)
    have d: "d = length Z - Suc k" "Suc k \<le> length Z" using Suc.hyps(2) k by simp_all
    obtain m moveSize' where m: "RotateLeft_balance bt right ins insertSize (int (?l (Suc k))) (int (?r (Suc k)))
        (int (length (Z ! k)) + 2) (Suc k) = Some (int (?l m), int (?r m), moveSize', m)"
      "Suc k \<le> m" "m \<le> length Z" "?r m \<le> ?l m"
      "m = Suc k \<and> moveSize' = int (length (Z ! k)) + 2 \<or>
       Suc k < m \<and> moveSize' = int (length (Z ! (m - 1)) + 2) \<and> ?l (m - 1) < ?r (m - 1)"
      using Suc.hyps(1) [OF d, of "int (length (Z ! k)) + 2"] by blast
    have "k < m \<and> moveSize' = int (length (Z ! (m - 1)) + 2) \<and> ?l (m - 1) < ?r (m - 1)"
      using m(2,5) True by auto
    with m(1-4) step show ?thesis by (intro exI [of _ m] exI [of _ moveSize']) simp
  qed
qed


section \<open>Moving the records\<close>

text \<open>A key and data that \<^verbatim>\<open>InsertKeyRecord\<close> turns into a record.\<close>

definition insertable :: "BTreeControlBlock \<Rightarrow> KeyPtr \<Rightarrow> nat \<Rightarrow> byte list \<Rightarrow> byte list \<Rightarrow> bool" where
  "insertable bt keyPtr keyLength key data \<longleftrightarrow>
     KeyLength bt keyPtr = Some (length key) \<and> slice keyPtr (if BigKeys bt then 2 else 1) (length key) = key \<and>
     length key \<le> keyLength \<and> keyLength + 3 < 65536 \<and> (if BigKeys bt then 2 else 1) \<le> length data"

lemma length_key_record:
  assumes "insertable bt keyPtr keyLength key data"
  shows "length (key_record bt keyLength key data) = key_size bt keyLength + length data"
  using assms key_size_bounds(1) [of keyLength bt]
  by (auto simp: insertable_def key_record_def Let_def split: if_splits)

lemma InsertKeyRecord_fits:
  assumes "node_rep bt b recs node" "i \<le> length recs" "insertable bt keyPtr keyLength key data"
    and "used b recs + length (key_record bt keyLength key data) + 2 \<le> nodeSize bt"
  shows "\<exists>node'. InsertKeyRecord bt node i keyPtr keyLength data (length data) = Some (True, node') \<and>
           node_rep bt b (insert_at i (key_record bt keyLength key data) recs) node' \<and> take 10 node' = take 10 node"
proof -
  have "rec_off b recs (length recs) + key_size bt keyLength + length data + 2 * length recs + 4 \<le> nodeSize bt"
    using assms(4) length_key_record [OF assms(3)] by (simp add: used_rec_off)
  then show ?thesis using InsertKeyRecord_rep [OF assms(1,2)] assms(3) by (simp add: insertable_def)
qed

definition left_behind :: "nat \<Rightarrow> nat \<Rightarrow> 'a list \<Rightarrow> 'a list" where
  "left_behind ins k R = (if k \<le> ins then drop k R else drop (k - 1) R)"

lemma left_behind_step:
  assumes "k \<le> length R" "ins \<le> length R" "k \<noteq> ins"
  shows "left_behind ins k R = insert_at ins r R ! k # left_behind ins (Suc k) R"
proof (cases "k < ins")
  case True
  then have "drop k R = R ! k # drop (Suc k) R" using assms by (simp add: Cons_nth_drop_Suc)
  with True assms show ?thesis by (simp add: left_behind_def insert_at_nth)
next
  case False
  then have "drop (k - 1) R = R ! (k - 1) # drop k R"
    using assms Cons_nth_drop_Suc [of "k - 1" R] by simp
  with False assms show ?thesis by (simp add: left_behind_def insert_at_nth)
qed

lemma left_behind_insert:
  assumes "m \<le> ins" "ins \<le> length R"
  shows "insert_at (ins - m) r (left_behind ins m R) = drop m (insert_at ins r R)"
  using assms by (simp add: left_behind_def insert_at_def take_drop)

lemma used_take_mono:
  assumes "k \<le> m" shows "used b (L @ take k Z) \<le> used b (L @ take m Z)"
proof -
  have "take m Z = take k Z @ take (m - k) (drop k Z)" using assms by (metis le_add_diff_inverse take_add)
  then show ?thesis by (simp add: used_def)
qed

lemma bLink_prefix: "length m = length n \<Longrightarrow> take 10 m = take 10 n \<Longrightarrow> node_bLink m = node_bLink n"
  and fLink_prefix: "length m = length n \<Longrightarrow> take 10 m = take 10 n \<Longrightarrow> node_fLink m = node_fLink n"
proof -
  assume *: "length m = length n" "take 10 m = take 10 n"
  have "slice (take 10 x) 4 4 = slice x 4 4" "slice (take 10 x) 0 4 = slice x 0 4" for x :: "byte list"
    by (simp_all add: slice_def drop_take min_def)
  then have "slice m 4 4 = slice n 4 4" "slice m 0 4 = slice n 0 4" using *(2) by metis+
  then show "node_bLink m = node_bLink n" "node_fLink m = node_fLink n"
    using *(1) by (simp_all add: node_bLink_def node_fLink_def load_def)
qed

lemma node_rep_length: "node_rep bt b recs node \<Longrightarrow> length node = nodeSize bt"
  by (simp add: node_rep_def)

lemma RotateLeft_move_rep:
  assumes ins: "ins \<le> length R" and ok: "insertable bt keyPtr keyLength key data"
    and Z: "Z = insert_at ins (key_record bt keyLength key data) R"
    and room: "used b (L @ take m Z) \<le> nodeSize bt" and m: "m \<le> length Z"
    and bl: "node_bLink right = Some bl"
    and k: "k \<le> m" "node_rep bt b (L @ take k Z) left" "node_rep bt b (left_behind ins k R) right"
    and placed: "placed = (if ins < k then Some (length L + ins, bl) else None)"
  shows "\<exists>left' right'. RotateLeft_move bt left right ins keyPtr keyLength data (length data) m k placed =
             Some (noErr, left', right', if ins < m then Some (length L + ins, bl) else None) \<and>
           node_rep bt b (L @ take m Z) left' \<and> node_rep bt b (left_behind ins m R) right' \<and>
           take 10 left' = take 10 left \<and> take 10 right' = take 10 right"
  using bl k placed
proof (induction "m - k" arbitrary: k left right placed)
  case 0
  then show ?case by (subst RotateLeft_move.simps) simp
next
  case (Suc d)
  let ?r = "key_record bt keyLength key data"
  have km: "k < m" "k < length Z" "d = m - Suc k" "Suc k \<le> m" using Suc.hyps(2) m by simp_all
  have lenZ: "length Z = Suc (length R)" using Z ins by simp
  have step: "L @ take (Suc k) Z = (L @ take k Z) @ [Z ! k]" using km by (simp add: take_Suc_conv_app_nth)
  then have "used b (L @ take k Z) + length (Z ! k) + 2 \<le> nodeSize bt"
    using used_take_mono [OF km(4), of b L Z] room by (simp add: used_append)
  note fit = this
  show ?case
  proof (cases "k = ins")
    case True
    then have r: "Z ! k = ?r" unfolding Z using ins by (simp add: insert_at_nth)
    obtain left1 where left1: "InsertKeyRecord bt left (length (L @ take k Z)) keyPtr keyLength data (length data) = Some (True, left1)"
      "node_rep bt b (L @ take (Suc k) Z) left1" "take 10 left1 = take 10 left"
      using InsertKeyRecord_fits [OF Suc.prems(3) order_refl ok fit [unfolded r], unfolded insert_at_end] step r by auto
    have behind: "left_behind ins (Suc k) R = left_behind ins k R" using True by (simp add: left_behind_def)
    have "length (L @ take k Z) = length L + ins" using True ins lenZ by simp
    then have "RotateLeft_move bt left right ins keyPtr keyLength data (length data) m k placed =
        RotateLeft_move bt left1 right ins keyPtr keyLength data (length data) m (Suc k) (Some (length L + ins, bl))"
      using km True left1(1) node_rep_count [OF Suc.prems(3)] Suc.prems(1)
      by (subst RotateLeft_move.simps) simp
    moreover note Suc.hyps(1) [OF km(3) Suc.prems(1) km(4) left1(2), of "Some (length L + ins, bl)"]
    ultimately show ?thesis using Suc.prems(4) True left1(3) behind by simp
  next
    case False
    have right: "node_rep bt b (Z ! k # left_behind ins (Suc k) R) right"
      using Suc.prems(4) left_behind_step [of k R ins ?r] km lenZ ins False Z by simp
    obtain left1 right1 where rot: "RotateRecordLeft bt left right = Some (True, left1, right1)"
      "node_rep bt b (L @ take (Suc k) Z) left1" "node_rep bt b (left_behind ins (Suc k) R) right1"
      "take 10 left1 = take 10 left" "take 10 right1 = take 10 right"
      using RotateRecordLeft_rep [OF Suc.prems(3) right fit] step by auto
    have "RotateLeft_move bt left right ins keyPtr keyLength data (length data) m k placed =
        RotateLeft_move bt left1 right1 ins keyPtr keyLength data (length data) m (Suc k) placed"
      using km False rot(1) by (subst RotateLeft_move.simps) simp
    moreover have "node_bLink right1 = Some bl"
      using bLink_prefix [of right1 right] rot(3,5) right Suc.prems(1) by (simp add: node_rep_length)
    note Suc.hyps(1) [OF km(3) this km(4) rot(2,3), of placed]
    moreover have "placed = (if ins < Suc k then Some (length L + ins, bl) else None)"
      using Suc.prems(5) False by auto
    ultimately show ?thesis using rot(4,5) by simp
  qed
qed


section \<open>The whole rotation\<close>

lemma insertSize_record:
  assumes "insertable bt keyPtr keyLength key data" "even (length data)"
  shows "RotateLeft_insertSize bt keyLength (length data) = int (length (key_record bt keyLength key data)) + 2"
proof -
  have ks: "key_size bt keyLength = keyLength + (if BigKeys bt then 2 else 1) +
      (if odd (keyLength + (if BigKeys bt then 2 else 1)) then 1 else 0)"
    using assms(1) by (auto simp: insertable_def key_size_def Let_def u16_exact)
  then show ?thesis
    using assms(2) length_key_record [OF assms(1)] by (auto simp: RotateLeft_insertSize_def Let_def)
qed

text \<open>
  The number of records \<^verbatim>\<open>RotateLeft\<close> moves, and whether the node they come from then fits: it
  stops at the first balance point, one record earlier if the left node would overflow.
\<close>

definition balance_at :: "nat \<Rightarrow> nat \<Rightarrow> byte list list \<Rightarrow> byte list list \<Rightarrow> nat \<Rightarrow> bool" where
  "balance_at sz b L Z m \<longleftrightarrow>
     m \<le> length Z \<and>
     (used b (L @ take m Z) \<le> sz \<and> used b (drop m Z) \<le> used b (L @ take m Z) \<or>
      m < length Z \<and> sz < used b (L @ take (Suc m) Z) \<and> used b (L @ take m Z) < used b (drop m Z))"

definition rotated ::
  "BTreeControlBlock \<Rightarrow> nat \<Rightarrow> byte list list \<Rightarrow> byte list list \<Rightarrow> nat \<Rightarrow> byte list \<Rightarrow> byte list \<Rightarrow> nat \<Rightarrow> nat \<Rightarrow> nat \<Rightarrow>
   rotation \<Rightarrow> bool" where
  "rotated bt b L Z ins left right bl fl m rot \<longleftrightarrow>
     rot_err rot = noErr \<and>
     (if used b (drop m Z) \<le> nodeSize bt
      then recordFit rot \<and> recsRotated rot = m \<and>
           node_rep bt b (L @ take m Z) (rot_left rot) \<and> node_rep bt b (drop m Z) (rot_right rot) \<and>
           take 10 (rot_left rot) = take 10 left \<and> take 10 (rot_right rot) = take 10 right \<and>
           (insertIndex rot, insertNodeNum rot) = (if ins < m then (length L + ins, bl) else (ins - m, fl))
      else rot = rotation_none noErr left right)"

lemma used_take_drop: "used b (drop k Z) + (\<Sum>r \<leftarrow> take k Z. length r + 2) = used b Z"
proof -
  have "(\<Sum>r \<leftarrow> take k Z @ drop k Z. length r + 2) = (\<Sum>r \<leftarrow> take k Z. length r + 2) + (\<Sum>r \<leftarrow> drop k Z. length r + 2)"
    by (simp only: map_append sum_list.append)
  then show ?thesis by (simp add: used_def)
qed

lemma used_insert_at: "used b (insert_at i r R) = used b R + length r + 2"
  using used_take_drop [of b i R] by (simp add: insert_at_def used_append) (simp add: used_def)

lemma RotateLeft_balance_result:
  assumes L: "node_rep bt b L left" and R: "node_rep bt b R right" and ins: "ins \<le> length R"
    and isz: "insertSize = int (length r) + 2" and Z: "Z = insert_at ins r R"
  shows "\<exists>m l' r' ms k. balance_at (nodeSize bt) b L Z m \<and>
           RotateLeft_balance bt right ins insertSize (int (used b L)) (int (used b R) + insertSize) 0 0 =
             Some (l', r', ms, k) \<and>
           (if l' > int (nodeSize bt) then (l' - ms, r' + ms, u16_sub k 1) else (l', r', k)) =
             (int (used b (L @ take m Z)), int (used b (drop m Z)), m)"
proof -
  let ?sz = "nodeSize bt" and ?l = "\<lambda>k. used b L + (\<Sum>r \<leftarrow> take k Z. length r + 2)"
  have l: "?l k = used b (L @ take k Z)" for k by (simp add: used_append)
  have start: "int (used b R) + insertSize = int (used b (drop 0 Z))" "int (used b L) = int (?l 0)"
    using isz by (simp_all add: Z used_insert_at)
  obtain m ms where bal: "RotateLeft_balance bt right ins insertSize
      (int (?l 0)) (int (used b (drop 0 Z))) 0 0 = Some (int (?l m), int (used b (drop m Z)), ms, m)"
    and m: "m \<le> length Z" "used b (drop m Z) \<le> ?l m"
    "m = 0 \<and> ms = 0 \<or> 0 < m \<and> ms = int (length (Z ! (m - 1)) + 2) \<and> ?l (m - 1) < used b (drop (m - 1) Z)"
    using RotateLeft_balance_point [OF R ins Z isz, of "used b L" 0 0] by (auto simp: used_def)
  show ?thesis
  proof (cases "?l m > ?sz")
    case False
    then have "balance_at ?sz b L Z m" using m by (simp add: balance_at_def l [symmetric] del: sum_list_append)
    with False bal show ?thesis unfolding start l [symmetric] by (intro exI [of _ m] exI conjI) auto
  next
    case True
    then have pos: "0 < m" using node_rep_used(1) [OF L] by (cases m) auto
    then have m1: "m - 1 < length Z" "Suc (m - 1) = m" using m(1) by simp_all
    have undo: "?l m = ?l (m - 1) + (length (Z ! (m - 1)) + 2)"
      "used b (drop (m - 1) Z) = used b (drop m Z) + (length (Z ! (m - 1)) + 2)"
      using sum_sizes_split [OF m1(1)] m1(2) by (simp_all add: used_def)
    have "u16_sub m 1 = m - 1" using pos m(1) Z ins R by (subst u16_exact) (simp_all add: node_rep_def Suc_leI)
    moreover have "balance_at ?sz b L Z (m - 1)"
      using True m pos m1 by (simp add: balance_at_def l [symmetric] del: sum_list_append)
    ultimately show ?thesis
      using bal True m(3) pos undo unfolding start l [symmetric] by (intro exI [of _ "m - 1"] exI conjI) auto
  qed
qed


lemma left_behind_after:
  assumes "ins < m" "ins \<le> length R"
  shows "drop m (insert_at ins r R) = left_behind ins m R"
proof -
  obtain d where "m = Suc (ins + d)" using assms(1) less_imp_Suc_add by blast
  with assms(2) show ?thesis by (simp add: insert_at_def left_behind_def add.commute)
qed

lemma RotateLeft_apply_rep:
  assumes L: "node_rep bt b L left" and R: "node_rep bt b R right" and ins: "ins \<le> length R"
    and ok: "insertable bt keyPtr keyLength key data"
    and links: "node_bLink right = Some bl" "node_fLink left = Some fl"
    and Z: "Z = insert_at ins (key_record bt keyLength key data) R" and m: "m \<le> length Z"
    and room: "used b (L @ take m Z) \<le> nodeSize bt" "used b (drop m Z) \<le> nodeSize bt"
  shows "\<exists>rot. RotateLeft_apply bt left right ins keyPtr keyLength data (length data) m = Some rot \<and>
           rotated bt b L Z ins left right bl fl m rot"
proof -
  let ?sz = "nodeSize bt" and ?r = "key_record bt keyLength key data"
  have "node_rep bt b (L @ take 0 Z) left" "node_rep bt b (left_behind ins 0 R) right"
    using L R by (simp_all add: left_behind_def)
  then obtain left' right' where mv: "RotateLeft_move bt left right ins keyPtr keyLength data (length data) m 0 None =
      Some (noErr, left', right', if ins < m then Some (length L + ins, bl) else None)"
    and reps: "node_rep bt b (L @ take m Z) left'" "node_rep bt b (left_behind ins m R) right'"
    and hdr: "take 10 left' = take 10 left" "take 10 right' = take 10 right"
    using RotateLeft_move_rep [OF ins ok Z room(1) m links(1) le0, of left None] by auto
  show ?thesis
  proof (cases "ins < m")
    case True
    have "RotateLeft_apply bt left right ins keyPtr keyLength data (length data) m =
        Some \<lparr>rot_err = noErr, rot_left = left', rot_right = right', insertIndex = length L + ins,
          insertNodeNum = bl, recordFit = True, recsRotated = m\<rparr>"
      using True mv by (simp add: RotateLeft_apply_def)
    moreover have "drop m Z = left_behind ins m R" unfolding Z using True ins by (rule left_behind_after)
    ultimately show ?thesis using True room reps hdr by (auto simp: rotated_def)
  next
    case False
    then have Zm: "insert_at (ins - m) ?r (left_behind ins m R) = drop m Z"
      using left_behind_insert [of m ins R ?r] ins Z by simp
    then have "used b (left_behind ins m R) + length ?r + 2 \<le> ?sz" using room(2) used_insert_at by metis
    moreover have "ins - m \<le> length (left_behind ins m R)" using False ins by (simp add: left_behind_def)
    ultimately obtain right2 where ins2: "InsertKeyRecord bt right' (ins - m) keyPtr keyLength data (length data) = Some (True, right2)"
      "node_rep bt b (drop m Z) right2" "take 10 right2 = take 10 right'"
      using InsertKeyRecord_fits [OF reps(2) _ ok] Zm by metis
    have "node_fLink left' = Some fl"
      using fLink_prefix [of left' left] hdr reps(1) L links(2) by (simp add: node_rep_length)
    then have "RotateLeft_apply bt left right ins keyPtr keyLength data (length data) m =
        Some \<lparr>rot_err = noErr, rot_left = left', rot_right = right2, insertIndex = ins - m,
          insertNodeNum = fl, recordFit = True, recsRotated = m\<rparr>"
      using False mv ins2(1) by (simp add: RotateLeft_apply_def Let_def)
    then show ?thesis using False room reps hdr ins2 by (auto simp: rotated_def)
  qed
qed

lemma RotateLeft_rep:
  assumes L: "node_rep bt b L left" and R: "node_rep bt b R right" and ins: "ins \<le> length R"
    and key: "node_kind right = Some kind" "GetKeyLength bt keyPtr (kind = kBTLeafNode) = Some keyLength"
    and ok: "insertable bt keyPtr keyLength key data" "even (length data)"
    and links: "node_bLink right = Some bl" "node_fLink left = Some fl"
    and Z: "Z = insert_at ins (key_record bt keyLength key data) R"
  shows "\<exists>m rot. balance_at (nodeSize bt) b L Z m \<and>
           RotateLeft bt left right ins keyPtr data (length data) = Some rot \<and>
           rotated bt b L Z ins left right bl fl m rot"
proof -
  let ?sz = "nodeSize bt" and ?is = "RotateLeft_insertSize bt keyLength (length data)"
  obtain m l' r' ms k where bal: "balance_at ?sz b L Z m"
    and loop: "RotateLeft_balance bt right ins ?is (int (used b L)) (int (used b R) + ?is) 0 0 = Some (l', r', ms, k)"
    and undo: "(if l' > int ?sz then (l' - ms, r' + ms, u16_sub k 1) else (l', r', k)) =
      (int (used b (L @ take m Z)), int (used b (drop m Z)), m)"
    using RotateLeft_balance_result [OF L R ins insertSize_record [OF ok] Z] by blast
  have sizes: "int ?sz - int (?sz - used b L) = int (used b L)" "int ?sz - int (?sz - used b R) = int (used b R)"
    using node_rep_used(1) [OF L] node_rep_used(1) [OF R] by simp_all
  have code: "RotateLeft bt left right ins keyPtr data (length data) =
      (if used b (drop m Z) > ?sz then Some (rotation_none noErr left right)
       else RotateLeft_apply bt left right ins keyPtr keyLength data (length data) m)"
    using undo by (simp add: RotateLeft_def key node_rep_used(2) [OF L] node_rep_used(2) [OF R] Let_def sizes loop)
  show ?thesis
  proof (cases "used b (drop m Z) \<le> ?sz")
    case False
    then have "rotated bt b L Z ins left right bl fl m (rotation_none noErr left right)"
      by (simp add: rotated_def rotation_none_def)
    with False bal code show ?thesis by auto
  next
    case True
    then have "used b (L @ take m Z) \<le> ?sz" "m \<le> length Z" using bal by (auto simp: balance_at_def)
    then obtain rot where "RotateLeft_apply bt left right ins keyPtr keyLength data (length data) m = Some rot"
      "rotated bt b L Z ins left right bl fl m rot"
      using RotateLeft_apply_rep [OF L R ins ok(1) links Z _ _ True] by blast
    with True bal code show ?thesis by auto
  qed
qed


section \<open>Properties\<close>

text \<open>
  C24: \<^verbatim>\<open>RotateLeft\<close> always ends without error. When it reports that the record fits, the two
  nodes together hold the records of both in order with the new record at its place,
  the first \<^verbatim>\<open>recsRotated\<close> of the right node's having moved, links, kinds and heights are kept, and
  the reported node and index are those of the new record. Otherwise both nodes are unchanged.
\<close>

theorem RotateLeft_keeps_records:
  assumes "node_rep bt b L left" "node_rep bt b R right" "ins \<le> length R"
    and "node_kind right = Some kind" "GetKeyLength bt keyPtr (kind = kBTLeafNode) = Some keyLength"
    and "insertable bt keyPtr keyLength key data" "even (length data)"
    and "node_bLink right = Some bl" "node_fLink left = Some fl"
  shows "\<exists>rot. RotateLeft bt left right ins keyPtr data (length data) = Some rot \<and> rot_err rot = noErr \<and>
           (if recordFit rot
            then \<exists>L' R'. node_rep bt b L' (rot_left rot) \<and> node_rep bt b R' (rot_right rot) \<and>
                   L' @ R' = L @ insert_at ins (key_record bt keyLength key data) R \<and>
                   length L' = length L + recsRotated rot \<and>
                   take 10 (rot_left rot) = take 10 left \<and> take 10 (rot_right rot) = take 10 right \<and>
                   (if ins < recsRotated rot
                    then insertNodeNum rot = bl \<and> insertIndex rot < length L' \<and>
                         L' ! insertIndex rot = key_record bt keyLength key data
                    else insertNodeNum rot = fl \<and> insertIndex rot < length R' \<and>
                         R' ! insertIndex rot = key_record bt keyLength key data)
            else rot = rotation_none noErr left right)"
proof -
  let ?r = "key_record bt keyLength key data"
  define Z where "Z = insert_at ins ?r R"
  have Z: "length Z = Suc (length R)" "Z ! ins = ?r" using assms(3) by (simp_all add: Z_def insert_at_nth)
  obtain m rot where m: "m \<le> length Z" and eq: "RotateLeft bt left right ins keyPtr data (length data) = Some rot"
    and rot: "rotated bt b L Z ins left right bl fl m rot"
    using RotateLeft_rep [OF assms Z_def] by (auto simp: balance_at_def)
  show ?thesis
  proof (cases "used b (drop m Z) \<le> nodeSize bt")
    case True
    with rot have fit: "recordFit rot" "rot_err rot = noErr" "recsRotated rot = m"
      and reps: "node_rep bt b (L @ take m Z) (rot_left rot)" "node_rep bt b (drop m Z) (rot_right rot)"
      and hdr: "take 10 (rot_left rot) = take 10 left" "take 10 (rot_right rot) = take 10 right"
      and pos: "(insertIndex rot, insertNodeNum rot) = (if ins < m then (length L + ins, bl) else (ins - m, fl))"
      by (simp_all add: rotated_def)
    have at: "if ins < m then insertNodeNum rot = bl \<and> insertIndex rot < length (L @ take m Z) \<and>
          (L @ take m Z) ! insertIndex rot = ?r
        else insertNodeNum rot = fl \<and> insertIndex rot < length (drop m Z) \<and> drop m Z ! insertIndex rot = ?r"
      using pos Z m assms(3) by (simp split: if_splits)
    have parts: "(L @ take m Z) @ drop m Z = L @ Z" "length (L @ take m Z) = length L + m" using m by simp_all
    show ?thesis
      unfolding eq Z_def [symmetric]
    proof (intro exI [of _ rot] conjI refl)
      show "if recordFit rot then \<exists>L' R'. node_rep bt b L' (rot_left rot) \<and> node_rep bt b R' (rot_right rot) \<and>
          L' @ R' = L @ Z \<and> length L' = length L + recsRotated rot \<and>
          take 10 (rot_left rot) = take 10 left \<and> take 10 (rot_right rot) = take 10 right \<and>
          (if ins < recsRotated rot then insertNodeNum rot = bl \<and> insertIndex rot < length L' \<and> L' ! insertIndex rot = ?r
           else insertNodeNum rot = fl \<and> insertIndex rot < length R' \<and> R' ! insertIndex rot = ?r)
        else rot = rotation_none noErr left right"
        unfolding if_P [OF fit(1)] fit(3)
        by (intro exI [of _ "L @ take m Z"] exI [of _ "drop m Z"] conjI) (fact reps parts hdr at)+
    qed (fact fit)
  next
    case False
    with rot eq show ?thesis by (auto simp: rotated_def rotation_none_def)
  qed
qed

lemma small_nodes:
  "\<exists>node. node_rep small_btree 14 [] node \<and> take 10 node = replicate 10 0"
  using GetNewNode_init_rep [of "replicate 512 0" small_btree] by (auto simp: small_btree_def)

lemma zero_descriptor:
  assumes "node_rep bt b recs node" "take 10 node = replicate 10 0" "10 \<le> nodeSize bt"
  shows "node_kind node = Some 0" "node_bLink node = Some 0" "node_fLink node = Some 0"
proof -
  have "take 10 node ! 8 = 0" unfolding assms(2) by simp
  then show "node_kind node = Some 0"
    using assms(1,3) by (simp add: node_kind_def node_rep_def)
  have "slice (take 10 node) 4 4 = replicate 4 0" "slice (take 10 node) 0 4 = replicate 4 0"
    unfolding assms(2) by (simp_all add: slice_def)
  then have "slice node 4 4 = replicate 4 0" "slice node 0 4 = replicate 4 0"
    by (simp_all add: slice_def drop_take)
  then show "node_bLink node = Some 0" "node_fLink node = Some 0"
    using assms(1,3) by (simp_all add: node_bLink_def node_fLink_def load_def node_rep_def)
qed

lemma small_key:
  assumes "2 \<le> length data"
  shows "insertable small_btree ([10, 0] @ replicate 10 7) 10 (replicate 10 7) data"
    "GetKeyLength small_btree ([10, 0] @ replicate 10 7) False = Some 10"
    "length (key_record small_btree 10 (replicate 10 7) data) = 12 + length data"
  using assms by (simp_all add: insertable_def GetKeyLength_def KeyLength_def BigKeys_def load_def slice_def
      small_btree_def kBTBigKeysMask_def kBTVariableIndexKeysMask_def key_record_def key_size_def u16_add_def Let_def)

theorem RotateLeft_keeps_records_witness:
  "\<exists>left right rot. RotateLeft small_btree left right 0 ([10, 0] @ replicate 10 7) [1, 0, 0, 0] 4 = Some rot \<and>
     rot_err rot = noErr"
proof -
  obtain node where rep: "node_rep small_btree 14 [] node" and hdr: "take 10 node = replicate 10 0"
    using small_nodes by blast
  have "10 \<le> nodeSize small_btree" by (simp add: small_btree_def)
  note d = zero_descriptor [OF rep hdr this]
  have four: "length [1, 0, 0, 0 :: byte] = 4" by simp
  then have ok: "insertable small_btree ([10, 0] @ replicate 10 7) 10 (replicate 10 7) [1, 0, 0, 0]"
    "GetKeyLength small_btree ([10, 0] @ replicate 10 7) (0 = kBTLeafNode) = Some 10"
    using small_key [of "[1, 0, 0, 0]"] by (simp_all add: kBTLeafNode_def)
  from RotateLeft_keeps_records [OF rep rep le0 d(1) ok(2,1) _ d(2,3)] four show ?thesis
    by (metis dvd_triv_left mult_2 numeral_Bit0)
qed


lemma balance_half:
  assumes "balance_at sz b [] Z m" "used b R \<le> sz" "Z = insert_at ins r R"
    and half: "\<forall>z \<in> set Z. 2 * (length z + 2) \<le> sz - (b + 2)"
  shows "used b (drop m Z) \<le> sz"
proof (cases "used b (drop m Z) \<le> used b (take m Z) \<and> used b (take m Z) \<le> sz")
  case False
  define a where "a = (\<Sum>r \<leftarrow> take m Z. length r + 2)"
  define c where "c = sz - (b + 2)"
  define x where "x = length (Z ! m) + 2"
  define y where "y = length r + 2"
  have c: "sz = b + 2 + c" using assms(2) by (simp add: c_def used_def)
  have m: "m < length Z" "sz < used b (take (Suc m) Z)"
    using assms(1) False by (auto simp: balance_at_def)
  have "used b (take (Suc m) Z) = b + 2 + a + x"
    using sum_sizes_split(1) [OF m(1)] by (simp add: used_def a_def x_def)
  moreover have "2 * x \<le> c" using half m(1) by (simp add: c_def x_def)
  moreover have "2 * y \<le> c" using half assms(3) by (simp add: insert_at_def c_def y_def)
  moreover have "used b (drop m Z) + a = used b R + y"
    unfolding a_def y_def
    using used_take_drop [of b m Z] assms(3) used_insert_at [of b ins r R] by simp
  ultimately show ?thesis using m(2) assms(2) c by linarith
qed auto

text \<open>
  C25: rotating into an empty left node, as a split does, always finds room for the new
  record, provided that each record, the new one included, takes with its two-byte offset at most
  half of the node size less the descriptor (whose size is \<open>b\<close>) and the offset of the free space.
  Half of the node size itself, the limit \<^verbatim>\<open>CheckInsertParams\<close> sets, would not do.
\<close>

theorem RotateLeft_split_fits:
  assumes "node_rep bt b [] left" "node_rep bt b R right" "ins \<le> length R"
    and "node_kind right = Some kind" "GetKeyLength bt keyPtr (kind = kBTLeafNode) = Some keyLength"
    and "insertable bt keyPtr keyLength key data" "even (length data)"
    and "node_bLink right = Some bl" "node_fLink left = Some fl"
    and "\<forall>r \<in> set (insert_at ins (key_record bt keyLength key data) R).
           2 * (length r + 2) \<le> nodeSize bt - (b + 2)"
  shows "\<exists>rot. RotateLeft bt left right ins keyPtr data (length data) = Some rot \<and> rot_err rot = noErr \<and> recordFit rot"
proof -
  let ?Z = "insert_at ins (key_record bt keyLength key data) R"
  obtain m rot where bal: "balance_at (nodeSize bt) b [] ?Z m"
    and eq: "RotateLeft bt left right ins keyPtr data (length data) = Some rot"
    and rot: "rotated bt b [] ?Z ins left right bl fl m rot"
    using RotateLeft_rep [OF assms(1-9) refl] by blast
  have "used b (drop m ?Z) \<le> nodeSize bt"
    using balance_half [OF bal node_rep_used(1) [OF assms(2)] refl assms(10)] .
  with rot eq show ?thesis by (simp add: rotated_def)
qed

theorem RotateLeft_split_fits_witness:
  "\<exists>left right rot. RotateLeft small_btree left right 0 ([10, 0] @ replicate 10 7) [1, 0, 0, 0] 4 = Some rot \<and>
     rot_err rot = noErr \<and> recordFit rot"
proof -
  obtain node where rep: "node_rep small_btree 14 [] node" and hdr: "take 10 node = replicate 10 0"
    using small_nodes by blast
  have size: "10 \<le> nodeSize small_btree" "nodeSize small_btree = 512" by (simp_all add: small_btree_def)
  note d = zero_descriptor [OF rep hdr size(1)]
  have four: "length [1, 0, 0, 0 :: byte] = 4" by simp
  then have ok: "insertable small_btree ([10, 0] @ replicate 10 7) 10 (replicate 10 7) [1, 0, 0, 0]"
    "GetKeyLength small_btree ([10, 0] @ replicate 10 7) (0 = kBTLeafNode) = Some 10"
    using small_key [of "[1, 0, 0, 0]"] by (simp_all add: kBTLeafNode_def)
  have "\<forall>r \<in> set (insert_at 0 (key_record small_btree 10 (replicate 10 7) [1, 0, 0, 0]) []).
      2 * (length r + 2) \<le> nodeSize small_btree - (14 + 2)"
    using small_key(3) [of "[1, 0, 0, 0]"] by (simp add: insert_at_def size)
  from RotateLeft_split_fits [OF rep rep le0 d(1) ok(2,1) _ d(2,3) this] four show ?thesis
    by (metis dvd_triv_left mult_2 numeral_Bit0)
qed

text \<open>
  C26: a limit of half the node size, which is what \<^verbatim>\<open>CheckInsertParams\<close> allows for key and
  data, is not enough: in a node of 512 bytes that holds records of 238 and 254 bytes,
  a record of 256 bytes that belongs between them is not inserted by a split. \<^verbatim>\<open>RotateLeft\<close>
  reports no error, only that the record did not fit.
\<close>

theorem RotateLeft_split_refuses:
  "\<exists>left right. node_rep small_btree 14 [] left \<and>
     node_rep small_btree 14 [replicate 238 0, replicate 254 0] right \<and>
     length (key_record small_btree 10 (replicate 10 7) (replicate 244 9)) = nodeSize small_btree div 2 \<and>
     RotateLeft small_btree left right 1 ([10, 0] @ replicate 10 7) (replicate 244 9) 244 =
       Some (rotation_none noErr left right)"
proof -
  let ?A = "replicate 238 (0 :: byte)" and ?B = "replicate 254 (0 :: byte)"
  let ?data = "replicate 244 (9 :: byte)"
  let ?r = "key_record small_btree 10 (replicate 10 7) ?data"
  have size: "10 \<le> nodeSize small_btree" "nodeSize small_btree = 512" by (simp_all add: small_btree_def)
  obtain left where left: "node_rep small_btree 14 [] left" and hdr: "take 10 left = replicate 10 0"
    using small_nodes by blast
  obtain right1 where right1: "node_rep small_btree 14 [?B] right1" "take 10 right1 = replicate 10 0"
    using InsertRecord_fits [OF left, of 0 ?B] hdr by (auto simp: insert_at_def size)
  obtain right where right: "node_rep small_btree 14 [?A, ?B] right" "take 10 right = replicate 10 0"
    using InsertRecord_fits [OF right1(1), of 0 ?A] right1(2) by (auto simp: insert_at_def size)
  have key: "insertable small_btree ([10, 0] @ replicate 10 7) 10 (replicate 10 7) ?data"
    "GetKeyLength small_btree ([10, 0] @ replicate 10 7) (0 = kBTLeafNode) = Some 10" "length ?r = 256"
    using small_key [of ?data] by (simp_all add: kBTLeafNode_def)
  define Z where "Z = insert_at 1 ?r [?A, ?B]"
  have Z: "Z = [?A, ?r, ?B]" by (simp add: Z_def insert_at_def)
  obtain m rot where bal: "balance_at 512 14 [] Z m"
    and eq: "RotateLeft small_btree left right 1 ([10, 0] @ replicate 10 7) ?data (length ?data) = Some rot"
    and rot: "rotated small_btree 14 [] Z 1 left right 0 0 m rot"
    using RotateLeft_rep [OF left right(1) _ zero_descriptor(1) [OF right size(1)] key(2,1) _
        zero_descriptor(2) [OF right size(1)] zero_descriptor(3) [OF left hdr size(1)] Z_def] size(2) by auto
  have "m \<le> 3" using bal by (simp add: balance_at_def Z)
  then consider "m = 0" | "m = 1" | "m = 2" | "m = 3" by linarith
  then have "m = 1" using bal by cases (simp_all add: balance_at_def used_def Z key(3))
  then have "rot = rotation_none noErr left right" using rot by (simp add: rotated_def Z key(3) size)
  with left right(1) eq key(3) size(2) show ?thesis by auto
qed

end
