(* ===== verification/BTreeStore.thy ===== *)
theory BTreeStore
  imports BTreeCheck
begin

unbundle bit_operations_syntax

text \<open>
  The nodes of a B-tree file and the routines that get and release them: \<^verbatim>\<open>GetNode\<close>,
  \<^verbatim>\<open>GetNewNode\<close>, \<^verbatim>\<open>ReleaseNode\<close>, \<^verbatim>\<open>TrashNode\<close> and \<^verbatim>\<open>UpdateNode\<close> of
  \<^verbatim>\<open>src/hfsplus/hfscommon/BTree/BTreeNodeOps.c\<close>, over \<^verbatim>\<open>GetBTreeBlock\<close> and \<^verbatim>\<open>ReleaseBTreeBlock\<close> of
  \<^verbatim>\<open>src/hfsplus/hfs_btreeio.c\<close>.

  A \<^verbatim>\<open>BlockDescriptor\<close> is the number of the node whose buffer it holds, or \<^const>\<open>None\<close>
  for a nil buffer. The buffers are those of the kernel's cache, so a change through
  one descriptor is a change of the node in the store. The store holds the nodes in
  the byte order of the machine. The kernel's \<^verbatim>\<open>bread\<close>, \<^verbatim>\<open>getblk\<close> and \<^verbatim>\<open>bwrite\<close> are
  parameters: a status for each node, whether there is a buffer at all, and whether
  a node had to be read from disk. Statistics counters are left out.
\<close>

section \<open>The state\<close>

record buffer_cache =
  bread :: "nat \<Rightarrow> OSErr"
  nobuf :: "nat \<Rightarrow> bool"
  from_disk :: "nat \<Rightarrow> bool"
  bwrite :: "nat \<Rightarrow> OSErr"

record btree =
  btcb :: BTreeControlBlock
  node_store :: "nat \<Rightarrow> byte list"
  fcbEOF :: int
  damagedVolume :: bool

type_synonym BlockDescriptor = "nat option"

abbreviation (input) buf :: "btree \<Rightarrow> nat \<Rightarrow> byte list" where "buf s n \<equiv> node_store s n"

definition put_node :: "nat \<Rightarrow> byte list \<Rightarrow> btree \<Rightarrow> btree" where
  "put_node n node s = s\<lparr>node_store := (node_store s)(n := node)\<rparr>"

definition kGetBlock :: nat where "kGetBlock = 0"
definition kGetEmptyBlock :: nat where "kGetEmptyBlock = 8"
definition kReleaseBlock :: nat where "kReleaseBlock = 0"
definition kForceWriteBlock :: nat where "kForceWriteBlock = 1"
definition kMarkBlockDirty :: nat where "kMarkBlockDirty = 2"
definition kTrashBlock :: nat where "kTrashBlock = 4"
definition kLockTransaction :: nat where "kLockTransaction = 256"
definition kMaxTreeDepth :: nat where "kMaxTreeDepth = 16"
definition kHeaderNodeNum :: nat where "kHeaderNodeNum = 0"

section \<open>Blocks\<close>

text \<open>The status and \<^verbatim>\<open>blockReadFromDisk\<close>.\<close>

definition GetBTreeBlock :: "buffer_cache \<Rightarrow> nat \<Rightarrow> nat \<Rightarrow> OSErr \<times> bool" where
  "GetBTreeBlock io blockNum options =
     (let retval = (if options AND kGetEmptyBlock \<noteq> 0 then noErr else bread io blockNum);
          retval = (if nobuf io blockNum then - 1 else retval)
      in (retval, from_disk io blockNum))"

text \<open>
  A buffer that is marked dirty is written too (\<^verbatim>\<open>bwrite\<close>, whose status is ignored). With too many
  dirty buffers in the system the code first writes those of the tree (\<^verbatim>\<open>hfs_btsync\<close>) and calls
  \<^verbatim>\<open>BTSetLastSync\<close> with a time that is not 0, which \<^verbatim>\<open>BTSetLastSync\<close> refuses with \<^verbatim>\<open>paramErr\<close>; neither
  changes a node or the control block. What a trashed buffer held is not forgotten in the model:
  the code trashes only the header block it is about to re-read with the right size, and nodes it
  found damaged.
\<close>

definition ReleaseBTreeBlock :: "buffer_cache \<Rightarrow> BlockDescriptor \<Rightarrow> nat \<Rightarrow> OSErr" where
  "ReleaseBTreeBlock io blockPtr options =
     (case blockPtr of
        None \<Rightarrow> - 1
      | Some n \<Rightarrow>
          if options AND kTrashBlock \<noteq> 0 then noErr
          else if options AND kForceWriteBlock \<noteq> 0 then bwrite io n
          else noErr)"

section \<open>Nodes\<close>

definition TrashNode :: "buffer_cache \<Rightarrow> BlockDescriptor \<Rightarrow> OSErr \<times> BlockDescriptor" where
  "TrashNode io nodePtr =
     (if nodePtr \<noteq> None then ReleaseBTreeBlock io nodePtr (kReleaseBlock OR kTrashBlock) else noErr, None)"

definition GetNode :: "buffer_cache \<Rightarrow> nat \<Rightarrow> btree \<Rightarrow> (OSErr \<times> BlockDescriptor \<times> btree) option" where
  "GetNode io nodeNum s =
     (if nodeNum \<ge> totalNodes (btcb s) then Some (fsBTInvalidNodeErr, None, s)
      else
        let (err, readFromDisk) = GetBTreeBlock io nodeNum kGetBlock
        in if err \<noteq> noErr then Some (err, None, s)
           else if readFromDisk then do {
             err \<leftarrow> CheckNode (btcb s) (fcbEOF s) (buf s nodeNum);
             if err \<noteq> noErr then do {
               let nodePtr = snd (TrashNode io (Some nodeNum));
               Some (err, nodePtr, s\<lparr>damagedVolume := True\<rparr>)
             }
             else Some (noErr, Some nodeNum, s)
           }
           else Some (noErr, Some nodeNum, s))"

definition GetNewNode :: "buffer_cache \<Rightarrow> nat \<Rightarrow> btree \<Rightarrow> (OSErr \<times> BlockDescriptor \<times> btree) option" where
  "GetNewNode io nodeNum s =
     (let (err, readFromDisk) = GetBTreeBlock io nodeNum (kGetBlock + kGetEmptyBlock)
      in if err \<noteq> noErr then Some (err, None, s)
         else do {
           node \<leftarrow> GetNewNode_init (btcb s) (buf s nodeNum);
           Some (noErr, Some nodeNum, put_node nodeNum node s)
         })"

definition ReleaseNode :: "buffer_cache \<Rightarrow> BlockDescriptor \<Rightarrow> OSErr \<times> BlockDescriptor" where
  "ReleaseNode io nodePtr =
     (if nodePtr \<noteq> None then ReleaseBTreeBlock io nodePtr kReleaseBlock else noErr, None)"

definition UpdateNode ::
  "buffer_cache \<Rightarrow> BlockDescriptor \<Rightarrow> nat \<Rightarrow> btree \<Rightarrow> (OSErr \<times> BlockDescriptor) option" where
  "UpdateNode io nodePtr flags s =
     (case nodePtr of
        None \<Rightarrow> Some (noErr, None)
      | Some n \<Rightarrow> do {
          checked \<leftarrow> (if attributes (btcb s) AND kBTVariableIndexKeysMask \<noteq> 0
                      then CheckNode (btcb s) (fcbEOF s) (buf s n) else Some noErr);
          let err = ReleaseBTreeBlock io nodePtr (flags OR kMarkBlockDirty);
          Some (if err \<noteq> noErr then (err, nodePtr) else (noErr, None))
        })"

section \<open>Writing the descriptor\<close>

definition set_fLink :: "byte list \<Rightarrow> nat \<Rightarrow> byte list option" where
  "set_fLink node v = store32 node 0 v"

definition set_bLink :: "byte list \<Rightarrow> nat \<Rightarrow> byte list option" where
  "set_bLink node v = store32 node 4 v"

definition set_kind :: "byte list \<Rightarrow> int \<Rightarrow> byte list option" where
  "set_kind node kind = copy_in node 8 [word_of_int kind]"

definition set_height :: "byte list \<Rightarrow> nat \<Rightarrow> byte list option" where
  "set_height node h = copy_in node 9 (le_bytes 1 h)"

text \<open>The four fields of a node.\<close>

definition descr :: "byte list \<Rightarrow> nat \<Rightarrow> nat \<Rightarrow> int \<Rightarrow> nat \<Rightarrow> bool" where
  "descr node fl bl kind h \<longleftrightarrow>
     node_fLink node = Some fl \<and> node_bLink node = Some bl \<and> node_kind node = Some kind \<and> node_height node = Some h"

lemma node_rep_header:
  assumes rep: "node_rep bt base recs node" and lim: "a + length bs \<le> 10"
  shows "node_rep bt base recs (overwrite node a bs)" "length (overwrite node a bs) = length node"
proof -
  have len: "length node = nodeSize bt" "base + 2 \<le> nodeSize bt" "14 \<le> base"
    using rep node_rep_offset(3) [OF rep, of 0] by (auto simp: node_rep_def)
  then have room: "a + length bs \<le> length node" using lim by simp
  then show "length (overwrite node a bs) = length node" by simp
  have offs: "offs (nodeSize bt) (overwrite node a bs) i = offs (nodeSize bt) node i" if "i \<le> length recs" for i
  proof (rule offs_overwrite [OF room])
    have "14 \<le> entry (nodeSize bt) i"
      using node_rep_offset(3) [OF rep, of "length recs"] rec_off_mono [of 0 "length recs" base recs] len that
      by (simp add: entry_def)
    then show "a + length bs \<le> entry (nodeSize bt) i \<or> entry (nodeSize bt) i + 2 \<le> a" using lim by simp
  qed
  have "slice (overwrite node a bs) base k = slice node base k" for k
    using slice_overwrite(2) [OF room] lim len by simp
  moreover have "node_numRecords (overwrite node a bs) = node_numRecords node"
    using load_overwrite(2) [OF room] lim by (simp add: node_numRecords_def)
  ultimately show "node_rep bt base recs (overwrite node a bs)"
    using rep offs room by (simp add: node_rep_def)
qed

lemma descriptor_set:
  assumes "descr node fl bl kind h" "10 \<le> length node"
  shows "v < 2 ^ 32 \<Longrightarrow> descr (overwrite node 0 (le_bytes 4 v)) v bl kind h"
    and "v < 2 ^ 32 \<Longrightarrow> descr (overwrite node 4 (le_bytes 4 v)) fl v kind h"
    and "- 128 \<le> k \<Longrightarrow> k < 128 \<Longrightarrow> descr (overwrite node 8 [word_of_int k]) fl bl k h"
    and "g < 256 \<Longrightarrow> descr (overwrite node 9 (le_bytes 1 g)) fl bl kind g"
proof -
  have sint: "sint (word_of_int k :: byte) = k" if "- 128 \<le> k" "k < 128" for k
    using that by (simp add: signed_of_int signed_take_bit_int_eq_self)
  have nth: "overwrite node a bs ! 8 = node ! 8" if "a + length bs \<le> 8 \<or> 9 \<le> a" "a + length bs \<le> 10" for a and bs :: "byte list"
    using that assms(2) by (auto simp: overwrite_def nth_append)
  show "v < 2 ^ 32 \<Longrightarrow> descr (overwrite node 0 (le_bytes 4 v)) v bl kind h"
    using assms load_overwrite(3) [of 0 "le_bytes 4 v" node] load_overwrite(2) [of 0 "le_bytes 4 v" node]
    by (simp add: descr_def node_fLink_def node_bLink_def node_kind_def node_height_def nth le_nat_le_bytes split: if_splits)
  show "v < 2 ^ 32 \<Longrightarrow> descr (overwrite node 4 (le_bytes 4 v)) fl v kind h"
    using assms load_overwrite(3) [of 4 "le_bytes 4 v" node] load_overwrite(1,2) [of 4 "le_bytes 4 v" node]
    by (simp add: descr_def node_fLink_def node_bLink_def node_kind_def node_height_def nth le_nat_le_bytes split: if_splits)
  show "- 128 \<le> k \<Longrightarrow> k < 128 \<Longrightarrow> descr (overwrite node 8 [word_of_int k]) fl bl k h"
    using assms load_overwrite(1,2) [of 8 "[word_of_int k]" node] sint [of k]
    by (simp add: descr_def node_fLink_def node_bLink_def node_kind_def node_height_def overwrite_def nth_append split: if_splits)
  show "g < 256 \<Longrightarrow> descr (overwrite node 9 (le_bytes 1 g)) fl bl kind g"
    using assms load_overwrite(3) [of 9 "le_bytes 1 g" node] load_overwrite(1) [of 9 "le_bytes 1 g" node]
    by (simp add: descr_def node_fLink_def node_bLink_def node_kind_def node_height_def nth unsigned_of_nat take_bit_nat_eq_self le_nat_le_bytes split: if_splits)
qed

section \<open>Their results\<close>

lemma GetBTreeBlock_bits:
  "GetBTreeBlock io n kGetBlock = (if nobuf io n then - 1 else bread io n, from_disk io n)"
  "GetBTreeBlock io n (kGetBlock + kGetEmptyBlock) = (if nobuf io n then - 1 else noErr, from_disk io n)"
  by (simp_all add: GetBTreeBlock_def kGetBlock_def kGetEmptyBlock_def Let_def)

lemma ReleaseNode_ok [simp]: "ReleaseNode io nd = (noErr, None)"
  by (cases nd) (simp_all add: ReleaseNode_def ReleaseBTreeBlock_def kReleaseBlock_def)

lemma TrashNode_ok [simp]: "TrashNode io nd = (noErr, None)"
  by (cases nd) (simp_all add: TrashNode_def ReleaseBTreeBlock_def kReleaseBlock_def kTrashBlock_def)

lemma CheckNode_total:
  assumes "length node = nodeSize bt" "16 \<le> nodeSize bt" "nodeSize bt \<le> 32768" "even (nodeSize bt)"
  shows "\<exists>err. CheckNode bt eof node = Some err"
proof -
  obtain fl bl kind ht n where "node_fLink node = Some fl" "node_bLink node = Some bl"
    "node_kind node = Some kind" "node_height node = Some ht" "node_numRecords node = Some n"
    using assms(1,2) by (simp add: node_fLink_def node_bLink_def node_kind_def node_height_def
        node_numRecords_def load_def)
  from CheckNode_decides [OF assms this] show ?thesis by blast
qed

text \<open>
  The sizes every operation relies on: node buffers have the node's size, which is one
  that \<^verbatim>\<open>VerifyHeader\<close> accepts.
\<close>

definition store_ok :: "btree \<Rightarrow> bool" where
  "store_ok s \<longleftrightarrow>
     16 \<le> nodeSize (btcb s) \<and> nodeSize (btcb s) \<le> 32768 \<and> even (nodeSize (btcb s)) \<and>
     (\<forall>n. length (buf s n) = nodeSize (btcb s))"

text \<open>The kernel delivers node \<open>n\<close>, which is inside the file.\<close>

definition readable :: "buffer_cache \<Rightarrow> btree \<Rightarrow> nat \<Rightarrow> bool" where
  "readable io s n \<longleftrightarrow>
     n < totalNodes (btcb s) \<and> \<not> nobuf io n \<and> bread io n = noErr \<and>
     (from_disk io n \<longrightarrow> CheckNode (btcb s) (fcbEOF s) (buf s n) = Some noErr)"

lemma GetNode_readable: "readable io s n \<Longrightarrow> GetNode io n s = Some (noErr, Some n, s)"
  by (simp add: GetNode_def readable_def GetBTreeBlock_bits)

text \<open>
  \<^verbatim>\<open>GetNode\<close> always returns; it either gives the node or an error with a nil buffer, and
  leaves the nodes alone.
\<close>

lemma GetNode_cases:
  assumes "store_ok s"
  shows "\<exists>err nd s'. GetNode io n s = Some (err, nd, s') \<and>
           (err = noErr \<and> nd = Some n \<and> s' = s \<and> readable io s n \<or>
            err \<noteq> noErr \<and> nd = None \<and> (s' = s \<or> s' = s\<lparr>damagedVolume := True\<rparr>) \<and> \<not> readable io s n)"
proof -
  obtain err where "CheckNode (btcb s) (fcbEOF s) (buf s n) = Some err"
    using assms CheckNode_total [of "buf s n" "btcb s"] by (auto simp: store_ok_def)
  moreover have "fsBTInvalidNodeErr \<noteq> noErr" "- 1 \<noteq> noErr"
    by (simp_all add: fsBTInvalidNodeErr_def oserr_defs)
  ultimately show ?thesis
    by (auto simp: GetNode_def GetBTreeBlock_bits readable_def not_le)
qed

lemma UpdateNode_ok:
  assumes "store_ok s" "flags = 0 \<or> flags = kLockTransaction"
  shows "UpdateNode io nd flags s = Some (noErr, None)"
proof -
  have "(flags OR kMarkBlockDirty) AND kTrashBlock = 0" "(flags OR kMarkBlockDirty) AND kForceWriteBlock = 0"
    using assms(2) by (auto simp: kLockTransaction_def kMarkBlockDirty_def kTrashBlock_def kForceWriteBlock_def)
  moreover have "\<exists>err. CheckNode (btcb s) (fcbEOF s) (buf s n) = Some err" for n
    using assms CheckNode_total [of "buf s n" "btcb s"] by (auto simp: store_ok_def)
  then obtain chk where "CheckNode (btcb s) (fcbEOF s) (buf s n) = Some (chk n)" for n by metis
  ultimately show ?thesis
    by (auto simp: UpdateNode_def ReleaseBTreeBlock_def Let_def split: option.splits)
qed

section \<open>Nodes exist\<close>

lemma make_records:
  assumes "nodeSize bt \<le> 32768"
  shows "16 + length (concat recs) + 2 * length recs \<le> nodeSize bt \<Longrightarrow>
           \<exists>node. node_rep bt 14 recs node \<and> take 10 node = replicate 10 0"
proof (induction recs rule: rev_induct)
  case Nil
  then show ?case using GetNewNode_init_rep [of "replicate (nodeSize bt) 0" bt] assms by auto
next
  case (snoc r recs)
  then obtain node where node: "node_rep bt 14 recs node" "take 10 node = replicate 10 0" by auto
  have "insert_at (length recs) r recs = recs @ [r]" by (simp add: insert_at_def)
  with InsertRecord_rep [OF node(1), of "length recs" r] node(2) snoc.prems show ?case
    by (auto simp: rec_off_total)
qed

lemma make_node:
  assumes "nodeSize bt \<le> 32768" "16 + length (concat recs) + 2 * length recs \<le> nodeSize bt"
    and v: "fl < 2 ^ 32" "bl < 2 ^ 32" "- 128 \<le> kind" "kind < 128" "h < 256"
  shows "\<exists>node. node_rep bt 14 recs node \<and> descr node fl bl kind h"
proof -
  obtain n0 where n0: "node_rep bt 14 recs n0" using make_records [OF assms(1,2)] by blast
  have len: "10 \<le> length n0" using n0 assms(2) by (simp add: node_rep_def)
  then obtain a b c d where d0: "descr n0 a b c d"
    by (auto simp: descr_def node_fLink_def node_bLink_def node_kind_def node_height_def load_def)
  define n1 where "n1 = overwrite n0 0 (le_bytes 4 fl)"
  define n2 where "n2 = overwrite n1 4 (le_bytes 4 bl)"
  define n3 where "n3 = overwrite n2 8 [word_of_int kind]"
  define n4 where "n4 = overwrite n3 9 (le_bytes 1 h)"
  have rep: "node_rep bt 14 recs n1" "node_rep bt 14 recs n2" "node_rep bt 14 recs n3" "node_rep bt 14 recs n4"
    using node_rep_header(1) n0 by (simp_all add: n1_def n2_def n3_def n4_def del: le_bytes.simps)
  then have len': "10 \<le> length n1" "10 \<le> length n2" "10 \<le> length n3"
    using n0 len by (simp_all add: node_rep_def)
  have "descr n1 fl b c d" using descriptor_set(1) [OF d0 len v(1)] by (simp add: n1_def)
  from descriptor_set(2) [OF this len'(1) v(2)] have "descr n2 fl bl c d" by (simp add: n2_def)
  from descriptor_set(3) [OF this len'(2) v(3,4)] have "descr n3 fl bl kind d" by (simp add: n3_def)
  from descriptor_set(4) [OF this len'(3) v(5)] have "descr n4 fl bl kind h" by (simp only: n4_def)
  with rep(4) show ?thesis by blast
qed

text \<open>A buffer cache that never fails and has every node in memory.\<close>

definition warm_cache :: buffer_cache where
  "warm_cache = \<lparr>bread = (\<lambda>_. noErr), nobuf = (\<lambda>_. False), from_disk = (\<lambda>_. False), bwrite = (\<lambda>_. noErr)\<rparr>"

lemma warm_cache_readable [simp]: "readable warm_cache s n \<longleftrightarrow> n < totalNodes (btcb s)"
  by (simp add: readable_def warm_cache_def)

end
