(* ===== verification/BTreeSearch.thy ===== *)
theory BTreeSearch
  imports BTreeStore NodeSearch
begin

text \<open>
  Searching a B-tree from its root: \<^verbatim>\<open>SearchTree\<close> of
  \<^verbatim>\<open>src/hfsplus/hfscommon/BTree/BTreeTreeOps.c\<close>. The tree a store holds is a value of type
  \<open>tnode\<close>; the search finds the leaf and the index where the key is or belongs, and
  records the path to it.
\<close>

section \<open>The search\<close>

definition fsBTEmptyErr :: OSErr where "fsBTEmptyErr = - 32767 + 778"

type_synonym TreePathTable = "nat \<Rightarrow> nat \<times> nat"

text \<open>The table has \<^verbatim>\<open>kMaxTreeDepth\<close> entries, each a node number and an index.\<close>

definition set_path :: "TreePathTable \<Rightarrow> nat \<Rightarrow> nat \<times> nat \<Rightarrow> TreePathTable option" where
  "set_path treePathTable level v =
     (if level < kMaxTreeDepth then Some (treePathTable(level := v)) else None)"

text \<open>
  The outputs of \<^verbatim>\<open>SearchTree\<close>: status, path, node number, node, index, and the tree,
  of which only the mark of a damaged volume can have changed.
\<close>

type_synonym search = "OSErr \<times> TreePathTable \<times> nat \<times> BlockDescriptor \<times> nat \<times> btree"

definition search_error :: "OSErr \<Rightarrow> TreePathTable \<Rightarrow> btree \<Rightarrow> search" where
  "search_error err treePathTable s = (err, treePathTable, 0, None, 0, s)"

text \<open>
  The loop, on the level the current node is expected to have. At level 1 it always
  stops, so level 0 is not reached.
\<close>

fun SearchTree_loop ::
  "buffer_cache \<Rightarrow> KeyPtr \<Rightarrow> nat \<Rightarrow> nat \<Rightarrow> TreePathTable \<Rightarrow> btree \<Rightarrow> search option" where
  "SearchTree_loop io searchKey 0 curNodeNum treePathTable s = None"
| "SearchTree_loop io searchKey (Suc level) curNodeNum treePathTable s =
     (if curNodeNum = 0 then Some (search_error btBadNode treePathTable s)
      else do {
        (err, nodeRec, s) \<leftarrow> GetNode io curNodeNum s;
        if err \<noteq> noErr then Some (search_error err treePathTable s)
        else do {
          let node = buf s curNodeNum;
          height \<leftarrow> node_height node;
          nodeKind \<leftarrow> node_kind node;
          if height \<noteq> Suc level then Some (search_error btBadNode treePathTable s)
          else if (if Suc level = 1 then nodeKind \<noteq> kBTLeafNode else nodeKind \<noteq> kBTIndexNode)
          then Some (search_error btBadNode treePathTable s)
          else do {
            (keyFound, index) \<leftarrow> SearchNode (btcb s) node searchKey;
            if nodeKind = kBTLeafNode then do {
              treePathTable \<leftarrow> set_path treePathTable (Suc level) (curNodeNum, index);
              Some (if keyFound then noErr else fsBTRecordNotFoundErr, treePathTable, curNodeNum, nodeRec, index, s)
            }
            else do {
              let index = (if \<not> keyFound \<and> index \<noteq> 0 then index - 1 else index);
              treePathTable \<leftarrow> set_path treePathTable (Suc level) (curNodeNum, index);
              r \<leftarrow> GetRecordByIndex (btcb s) node index;
              case r of
                Inl err \<Rightarrow> Some (search_error err treePathTable s)
              | Inr (keyPtr, dataPtr, dataSize) \<Rightarrow> do {
                  child \<leftarrow> load32 node dataPtr;
                  let (err, nodeRec) = ReleaseNode io nodeRec;
                  if err \<noteq> noErr then Some (search_error err treePathTable s)
                  else SearchTree_loop io searchKey level child treePathTable s
                }
            }
          }
        }
      })"

definition SearchTree :: "buffer_cache \<Rightarrow> KeyPtr \<Rightarrow> TreePathTable \<Rightarrow> btree \<Rightarrow> search option" where
  "SearchTree io searchKey treePathTable s =
     (if treeDepth (btcb s) = 0 then Some (search_error fsBTEmptyErr treePathTable s)
      else do {
        treePathTable \<leftarrow> set_path treePathTable 0 (0, 0);
        SearchTree_loop io searchKey (treeDepth (btcb s)) (rootNode (btcb s)) treePathTable s
      })"

declare SearchTree_loop.simps [simp del]

section \<open>The tree in the store\<close>

datatype tnode =
  TLeaf nat "byte list list"
| TIndex nat "(byte list \<times> tnode) list"

primrec tnum :: "tnode \<Rightarrow> nat" where
  "tnum (TLeaf n recs) = n"
| "tnum (TIndex n ch) = n"

fun leaves :: "tnode \<Rightarrow> (nat \<times> byte list list) list" where
  "leaves (TLeaf n recs) = [(n, recs)]"
| "leaves (TIndex n ch) = concat (map (\<lambda>(r, t). leaves t) ch)"

fun tnodes :: "tnode \<Rightarrow> nat list" where
  "tnodes (TLeaf n recs) = [n]"
| "tnodes (TIndex n ch) = n # concat (map (\<lambda>(r, t). tnodes t) ch)"

definition records :: "tnode \<Rightarrow> byte list list" where
  "records t = concat (map snd (leaves t))"

lemma tnode_induct [case_names TLeaf TIndex]:
  assumes "\<And>n recs. P (TLeaf n recs)" "\<And>m ch. (\<And>q. q \<in> set ch \<Longrightarrow> P (snd q)) \<Longrightarrow> P (TIndex m ch)"
  shows "P t"
  by (rule tnode.induct) (use assms in \<open>auto simp: snds.simps\<close>)

text \<open>A node of the store with its descriptor and records.\<close>

definition node_at :: "btree \<Rightarrow> nat \<Rightarrow> nat \<Rightarrow> int \<Rightarrow> byte list list \<Rightarrow> bool" where
  "node_at s n height kind recs \<longleftrightarrow>
     n \<noteq> 0 \<and> node_rep (btcb s) 14 recs (buf s n) \<and>
     node_height (buf s n) = Some height \<and> node_kind (buf s n) = Some kind"

text \<open>An index record: the key, padded to even length, and the number of the child.\<close>

definition index_record :: "BTreeControlBlock \<Rightarrow> byte list \<Rightarrow> nat \<Rightarrow> bool" where
  "index_record bt r child \<longleftrightarrow>
     (\<exists>k. CalcKeySize bt r = Some k \<and> load32 r (k + k mod 2) = Some child)"

fun holds :: "btree \<Rightarrow> nat \<Rightarrow> tnode \<Rightarrow> bool" where
  "holds s h (TLeaf n recs) \<longleftrightarrow> h = 1 \<and> node_at s n 1 kBTLeafNode recs"
| "holds s h (TIndex n ch) \<longleftrightarrow>
     1 < h \<and> ch \<noteq> [] \<and> node_at s n h kBTIndexNode (map fst ch) \<and>
     (\<forall>(r, t) \<in> set ch. index_record (btcb s) r (tnum t) \<and> holds s (h - 1) t)"

text \<open>The order of the keys: an index record's key bounds the records below it.\<close>

fun ordered :: "(byte list \<Rightarrow> bool) \<Rightarrow> (byte list \<Rightarrow> 'k :: linorder) \<Rightarrow> tnode \<Rightarrow> bool" where
  "ordered valid kval (TLeaf n recs) \<longleftrightarrow> (\<forall>r \<in> set recs. valid r) \<and> sorted_wrt (<) (map kval recs)"
| "ordered valid kval (TIndex n ch) \<longleftrightarrow>
     (\<forall>(r, t) \<in> set ch. valid r \<and> ordered valid kval t \<and> (\<forall>x \<in> set (records t). kval r \<le> kval x)) \<and>
     sorted_wrt (\<lambda>(r, t) (r', t'). kval r < kval r' \<and> (\<forall>x \<in> set (records t). kval x < kval r')) ch"

text \<open>The path a table describes, from the root of a tree to an index of a leaf.\<close>

inductive on_path :: "TreePathTable \<Rightarrow> nat \<Rightarrow> tnode \<Rightarrow> nat \<Rightarrow> nat \<Rightarrow> bool" where
  leaf: "tp 1 = (n, i) \<Longrightarrow> on_path tp 1 (TLeaf n recs) n i"
| index: "j < length ch \<Longrightarrow> tp (Suc h) = (m, j) \<Longrightarrow> on_path tp h (snd (ch ! j)) n i \<Longrightarrow>
    on_path tp (Suc h) (TIndex m ch) n i"

text \<open>Where a key is, or belongs: the leaf and the index in it.\<close>

definition key_position ::
  "(byte list \<Rightarrow> 'k :: linorder) \<Rightarrow> 'k \<Rightarrow> (nat \<times> byte list list) list \<Rightarrow> nat \<Rightarrow> nat \<Rightarrow> bool" where
  "key_position kval k lvs n i \<longleftrightarrow>
     (\<exists>pre recs post. lvs = pre @ (n, recs) # post \<and> i \<le> length recs \<and>
        (\<forall>r \<in> set (concat (map snd pre) @ take i recs). kval r < k) \<and>
        (\<forall>r \<in> set (drop i recs). k \<le> kval r) \<and> (\<forall>r \<in> set (concat (map snd post)). k < kval r))"

section \<open>Reading records\<close>

lemma load_append: "load n r i = Some v \<Longrightarrow> load n (r @ u) i = Some v"
  by (auto simp: load_Some slice_def)

lemma CalcKeySize_append: "CalcKeySize bt r = Some k \<Longrightarrow> CalcKeySize bt (r @ u) = Some k"
  by (auto simp: CalcKeySize_def dest: load_append split: if_splits)

lemma node_rep_drop:
  assumes "node_rep bt base recs node" "i < length recs"
  shows "\<exists>u. drop (rec_off base recs i) node = recs ! i @ u"
proof -
  have "take (length (recs ! i)) (drop (rec_off base recs i) node) = recs ! i"
    using node_rep_record [OF assms] by (simp add: slice_def)
  then show ?thesis by (metis append_take_drop_id)
qed

lemma node_rep_load:
  assumes "node_rep bt base recs node" "i < length recs" "load n (recs ! i) a = Some v"
  shows "load n node (rec_off base recs i + a) = Some v"
proof -
  obtain u where u: "drop (rec_off base recs i) node = recs ! i @ u" using node_rep_drop [OF assms(1,2)] by blast
  have "rec_off base recs i \<le> length node"
    using node_rep_offset(3) [OF assms(1), of i] assms(1,2) by (simp add: node_rep_def)
  moreover have "load n (drop (rec_off base recs i) node) a = Some v" using load_append [OF assms(3)] u by simp
  ultimately show ?thesis by (auto simp: load_Some slice_def add.commute)
qed

lemma GetRecordByIndex_rep:
  assumes rep: "node_rep bt base recs node" and i: "i < length recs"
    and k: "CalcKeySize bt (recs ! i) = Some k" "k + k mod 2 \<le> length (recs ! i)"
  shows "GetRecordByIndex bt node i =
           Some (Inr (rec_off base recs i, rec_off base recs i + (k + k mod 2), length (recs ! i) - (k + k mod 2)))"
proof -
  let ?a = "rec_off base recs i" and ?b = "rec_off base recs (Suc i)"
  obtain u where "drop ?a node = recs ! i @ u" using node_rep_drop [OF rep i] by blast
  then have key: "CalcKeySize bt (drop ?a node) = Some k" using CalcKeySize_append [OF k(1)] by simp
  have b: "?b = ?a + length (recs ! i)" using rec_off_Suc [OF i] .
  have lim: "?b + 2 \<le> nodeSize bt" "nodeSize bt \<le> 32768"
    using node_rep_offset(3) [OF rep, of "Suc i"] rep i by (auto simp: node_rep_def)
  define kk where "kk = k + k mod 2"
  have kk: "odd k \<Longrightarrow> u16_add k (Suc 0) = kk" "even k \<Longrightarrow> kk = k"
    using k(2) b lim by (auto simp: kk_def u16_exact odd_iff_mod_2_eq_one)
  have "k mod 65536 = k" using k(2) b lim by simp
  moreover have "u16_add ?a kk = ?a + kk" "u16_sub ?b (?a + kk) = length (recs ! i) - kk"
    using k(2) b lim by (simp_all add: kk_def u16_exact)
  ultimately show ?thesis
    using i node_rep_offset(1) [OF rep, of i] node_rep_offset(1) [OF rep, of "Suc i"]
    by (auto simp: GetRecordByIndex_def node_rep_count [OF rep] key kk Let_def kk_def [symmetric])
qed

lemma index_record_child:
  assumes "node_rep bt base recs node" "i < length recs" "index_record bt (recs ! i) child"
  shows "\<exists>a d. GetRecordByIndex bt node i = Some (Inr (rec_off base recs i, a, d)) \<and> load32 node a = Some child"
proof -
  obtain k where k: "CalcKeySize bt (recs ! i) = Some k" "load32 (recs ! i) (k + k mod 2) = Some child"
    using assms(3) by (auto simp: index_record_def)
  then have "k + k mod 2 \<le> length (recs ! i)" by (simp add: load_Some)
  then show ?thesis
    using GetRecordByIndex_rep [OF assms(1,2) k(1)] node_rep_load [OF assms(1,2) k(2)] by blast
qed

section \<open>Positions\<close>

lemma bex_nth: "(\<exists>q \<in> set xs. P q) \<longleftrightarrow> (\<exists>j < length xs. P (xs ! j))"
  by (metis in_set_conv_nth)

lemma key_position_found:
  assumes "key_position kval k (leaves t) n i" "i < length recs" "(n, recs) \<in> set (leaves t)" "kval (recs ! i) = k"
  shows "\<exists>x \<in> set (records t). kval x = k"
proof -
  have "recs ! i \<in> set (records t)" using assms(2,3) by (force simp: records_def)
  with assms(4) show ?thesis by blast
qed

text \<open>The child into which the search goes on.\<close>

lemma child_bounds:
  fixes kval :: "byte list \<Rightarrow> 'k :: linorder"
  assumes ord: "ordered valid kval (TIndex m ch)"
    and i: "i \<le> length ch" "\<forall>j < i. kval (fst (ch ! j)) < k" "\<forall>j < length ch. i \<le> j \<longrightarrow> k \<le> kval (fst (ch ! j))"
    and found: "found \<longleftrightarrow> i < length ch \<and> kval (fst (ch ! i)) = k"
    and c: "c = (if \<not> found \<and> i \<noteq> 0 then i - 1 else i)" and ne: "ch \<noteq> []"
  shows "c < length ch"
    and "j < c \<Longrightarrow> x \<in> set (records (snd (ch ! j))) \<Longrightarrow> kval x < k"
    and "c < j \<Longrightarrow> j < length ch \<Longrightarrow> x \<in> set (records (snd (ch ! j))) \<Longrightarrow> k < kval x"
proof -
  have sorted: "kval (fst (ch ! a)) < kval (fst (ch ! b))"
    "x \<in> set (records (snd (ch ! a))) \<Longrightarrow> kval x < kval (fst (ch ! b))" if "a < b" "b < length ch" for a b x
    using ord that by (auto simp: sorted_wrt_iff_nth_less case_prod_unfold)
  have low: "kval (fst (ch ! a)) \<le> kval x" if "a < length ch" "x \<in> set (records (snd (ch ! a)))" for a x
    using ord that by (auto simp: case_prod_unfold)
  show c_len: "c < length ch" using c i(1) found ne by (cases "i = 0") (auto split: if_splits)
  show "kval x < k" if "j < c" "x \<in> set (records (snd (ch ! j)))"
  proof -
    have "kval (fst (ch ! c)) \<le> k" using c found i(2) that(1) by (auto split: if_splits intro: less_imp_le)
    then show ?thesis using sorted(2) [OF that(1) c_len that(2)] by simp
  qed
  show "k < kval x" if "c < j" "j < length ch" "x \<in> set (records (snd (ch ! j)))"
  proof -
    have "k < kval (fst (ch ! j))"
    proof (cases "found")
      case True
      then show ?thesis using c found sorted(1) [OF that(1,2)] by simp
    next
      case False
      then have "i \<le> j" using c that(1) by (auto split: if_splits)
      show ?thesis
      proof (cases "j = i")
        case True
        then show ?thesis using i(3) that(2) False found by (metis le_neq_trans order_refl)
      next
        case neq: False
        then have "i < j" using \<open>i \<le> j\<close> by simp
        then have "k \<le> kval (fst (ch ! i))" using i(3) that(2) by simp
        then show ?thesis using sorted(1) [OF \<open>i < j\<close> that(2)] by simp
      qed
    qed
    then show ?thesis using low [OF that(2,3)] by simp
  qed
qed

lemma key_position_child:
  assumes "c < length ch" "key_position kval k (leaves (snd (ch ! c))) n i"
    and "\<And>j x. j < c \<Longrightarrow> x \<in> set (records (snd (ch ! j))) \<Longrightarrow> kval x < k"
    and "\<And>j x. c < j \<Longrightarrow> j < length ch \<Longrightarrow> x \<in> set (records (snd (ch ! j))) \<Longrightarrow> k < kval x"
  shows "key_position kval k (leaves (TIndex m ch)) n i"
proof -
  obtain pre recs post where split: "leaves (snd (ch ! c)) = pre @ (n, recs) # post" "i \<le> length recs"
    "\<forall>r \<in> set (concat (map snd pre) @ take i recs). kval r < k" "\<forall>r \<in> set (drop i recs). k \<le> kval r"
    "\<forall>r \<in> set (concat (map snd post)). k < kval r"
    using assms(2) by (auto simp: key_position_def)
  define L where "L xs = concat (map (\<lambda>(r :: byte list, t). leaves t) xs)" for xs
  have "leaves (TIndex m ch) = L (take c ch) @ leaves (snd (ch ! c)) @ L (drop (Suc c) ch)"
    by (subst id_take_nth_drop [OF assms(1)]) (simp add: L_def case_prod_unfold)
  then have eq: "leaves (TIndex m ch) = (L (take c ch) @ pre) @ (n, recs) # (post @ L (drop (Suc c) ch))"
    by (simp add: split(1))
  have in_L: "\<exists>q \<in> set xs. r \<in> set (records (snd q))" if "r \<in> set (concat (map snd (L xs)))" for r xs
    using that by (auto simp: L_def records_def case_prod_unfold)
  have "\<forall>r \<in> set (concat (map snd (L (take c ch)))). kval r < k"
  proof
    fix r assume "r \<in> set (concat (map snd (L (take c ch))))"
    then obtain q where q: "q \<in> set (take c ch)" "r \<in> set (records (snd q))" using in_L by blast
    from q(1) obtain j where "j < c" "q = ch ! j" by (auto simp: in_set_conv_nth)
    with q(2) assms(3) show "kval r < k" by blast
  qed
  moreover have "\<forall>r \<in> set (concat (map snd (L (drop (Suc c) ch)))). k < kval r"
  proof
    fix r assume "r \<in> set (concat (map snd (L (drop (Suc c) ch))))"
    then obtain q where q: "q \<in> set (drop (Suc c) ch)" "r \<in> set (records (snd q))" using in_L by blast
    from q(1) obtain j where "j < length ch - Suc c" "q = ch ! (Suc c + j)" by (auto simp: in_set_conv_nth)
    with q(2) assms(4) [of "Suc c + j" r] show "k < kval r" by simp
  qed
  ultimately show ?thesis
    using split(2-) unfolding key_position_def eq
    by (intro exI [of _ "L (take c ch) @ pre"] exI [of _ recs] exI [of _ "post @ L (drop (Suc c) ch)"])
      (simp add: ball_Un)
qed

section \<open>The search is correct\<close>

text \<open>What a search returns on the tree \<open>t\<close> of height \<open>h\<close>.\<close>

definition search_result ::
  "(byte list \<Rightarrow> 'k :: linorder) \<Rightarrow> 'k \<Rightarrow> nat \<Rightarrow> tnode \<Rightarrow> TreePathTable \<Rightarrow> btree \<Rightarrow> search \<Rightarrow> bool" where
  "search_result kval k h t tp s r \<longleftrightarrow>
     (\<exists>found tp' n i recs.
        r = (if found then noErr else fsBTRecordNotFoundErr, tp', n, Some n, i, s) \<and>
        key_position kval k (leaves t) n i \<and> (n, recs) \<in> set (leaves t) \<and>
        (found \<longleftrightarrow> (\<exists>x \<in> set (records t). kval x = k)) \<and> (found \<longrightarrow> i < length recs \<and> kval (recs ! i) = k) \<and>
        on_path tp' h t n i \<and> (\<forall>l > h. tp' l = tp l))"

lemma search_leaf:
  fixes kval :: "byte list \<Rightarrow> 'k :: linorder"
  assumes ko: "key_order cmp valid kval" "keyCompareProc (btcb s) = cmp" "valid key"
    and t: "holds s 1 (TLeaf n recs)" "ordered valid kval (TLeaf n recs)" "readable io s n"
  shows "\<exists>r. SearchTree_loop io key 1 n tp s = Some r \<and> search_result kval (kval key) 1 (TLeaf n recs) tp s r"
proof -
  have at: "n \<noteq> 0" "node_rep (btcb s) 14 recs (buf s n)" "node_height (buf s n) = Some 1"
    "node_kind (buf s n) = Some kBTLeafNode"
    using t(1) by (simp_all add: node_at_def)
  obtain found i where sn: "SearchNode (btcb s) (buf s n) key = Some (found, i)" "i \<le> length recs"
    and below: "\<forall>j < i. kval (recs ! j) < kval key" and above: "\<forall>j < length recs. i \<le> j \<longrightarrow> kval key \<le> kval (recs ! j)"
    and found: "found \<longleftrightarrow> i < length recs \<and> kval (recs ! i) = kval key"
    using SearchNode_finds [OF ko(1,2) at(2) ko(3)] t(2) by auto
  have loop: "SearchTree_loop io key 1 n tp s =
      Some (if found then noErr else fsBTRecordNotFoundErr, tp(1 := (n, i)), n, Some n, i, s)"
    using at sn(1) GetNode_readable [OF t(3)] unfolding One_nat_def
    by (subst SearchTree_loop.simps) (simp add: set_path_def kMaxTreeDepth_def Let_def)
  have "key_position kval (kval key) (leaves (TLeaf n recs)) n i"
    using sn(2) below above unfolding key_position_def
    by (intro exI [of _ "[]"] exI [of _ recs]) (auto simp: in_set_conv_nth)
  moreover have "found \<longleftrightarrow> (\<exists>x \<in> set recs. kval x = kval key)"
  proof
    assume "\<exists>x \<in> set recs. kval x = kval key"
    then obtain j where j: "j < length recs" "kval (recs ! j) = kval key" by (auto simp: in_set_conv_nth)
    have "i \<le> j" using below j by (metis less_irrefl not_le)
    moreover have "\<not> i < j"
    proof
      assume "i < j"
      then have "kval (recs ! i) < kval (recs ! j)" using t(2) j(1) by (simp add: sorted_wrt_iff_nth_less)
      then show False using above j \<open>i < j\<close> by (metis leD less_imp_le_nat order.strict_trans order_refl)
    qed
    ultimately show found using found j by simp
  qed (use found in auto)
  moreover have "on_path (tp(1 := (n, i))) 1 (TLeaf n recs) n i" by (rule on_path.leaf) simp
  ultimately have "search_result kval (kval key) 1 (TLeaf n recs) tp s
      (if found then noErr else fsBTRecordNotFoundErr, tp(1 := (n, i)), n, Some n, i, s)"
    using found unfolding search_result_def
    by (intro exI [of _ found] exI [of _ "tp(1 := (n, i))"] exI [of _ n] exI [of _ i] exI [of _ recs])
      (simp add: records_def)
  with loop show ?thesis by blast
qed

lemma search_result_child:
  fixes kval :: "byte list \<Rightarrow> 'k :: linorder"
  assumes c: "c < length ch" and r: "search_result kval k h (snd (ch ! c)) (tp(Suc h := (m, c))) s r"
    and below: "\<And>j x. j < c \<Longrightarrow> x \<in> set (records (snd (ch ! j))) \<Longrightarrow> kval x < k"
    and above: "\<And>j x. c < j \<Longrightarrow> j < length ch \<Longrightarrow> x \<in> set (records (snd (ch ! j))) \<Longrightarrow> k < kval x"
  shows "search_result kval k (Suc h) (TIndex m ch) tp s r"
proof -
  obtain found tp' n i recs where eq: "r = (if found then noErr else fsBTRecordNotFoundErr, tp', n, Some n, i, s)"
    and pos: "key_position kval k (leaves (snd (ch ! c))) n i" and leaf: "(n, recs) \<in> set (leaves (snd (ch ! c)))"
    and found: "found \<longleftrightarrow> (\<exists>x \<in> set (records (snd (ch ! c))). kval x = k)" "found \<longrightarrow> i < length recs \<and> kval (recs ! i) = k"
    and path: "on_path tp' h (snd (ch ! c)) n i" "\<forall>l > h. tp' l = (tp(Suc h := (m, c))) l"
    using r unfolding search_result_def by (elim exE conjE) (rule that)
  have mem: "x \<in> set (records (TIndex m ch)) \<longleftrightarrow> (\<exists>j < length ch. x \<in> set (records (snd (ch ! j))))" for x
  proof -
    have "x \<in> set (records (TIndex m ch)) \<longleftrightarrow> (\<exists>q \<in> set ch. x \<in> set (records (snd q)))"
      by (auto simp: records_def case_prod_unfold)
    then show ?thesis by (simp only: bex_nth)
  qed
  have "x \<in> set (records (snd (ch ! c)))" if x: "x \<in> set (records (TIndex m ch))" "kval x = k" for x
  proof -
    obtain j where j: "j < length ch" "x \<in> set (records (snd (ch ! j)))"
      using x(1) unfolding mem by blast
    have "\<not> j < c" using below [OF _ j(2)] x(2) by auto
    moreover have "\<not> c < j" using above [OF _ j] x(2) by auto
    ultimately have "j = c" by simp
    with j(2) show ?thesis by simp
  qed
  then have all: "found \<longleftrightarrow> (\<exists>x \<in> set (records (TIndex m ch)). kval x = k)"
    using found(1) iffD2 [OF mem] c by meson
  have "(n, recs) \<in> set (leaves (TIndex m ch))"
    using leaf nth_mem [OF c] by (auto simp: case_prod_unfold)
  moreover have "on_path tp' (Suc h) (TIndex m ch) n i"
    using path c by (intro on_path.index [of c]) simp_all
  moreover have "\<forall>l > Suc h. tp' l = tp l" using path(2) by simp
  ultimately show ?thesis
    unfolding search_result_def using eq found(2) all key_position_child [OF c pos below above]
    by (intro exI [of _ found] exI [of _ tp'] exI [of _ n] exI [of _ i] exI [of _ recs]) (intro conjI; assumption)
qed

lemma SearchTree_loop_finds:
  fixes kval :: "byte list \<Rightarrow> 'k :: linorder"
  assumes ko: "key_order cmp valid kval" "keyCompareProc (btcb s) = cmp" "valid key"
    and "holds s h t" "ordered valid kval t" "\<forall>n \<in> set (tnodes t). readable io s n" "h < kMaxTreeDepth"
  shows "\<exists>r. SearchTree_loop io key h (tnum t) tp s = Some r \<and> search_result kval (kval key) h t tp s r"
  using assms(4-)
proof (induction t arbitrary: h tp)
  case (TLeaf n recs)
  then have "h = 1" by simp
  then show ?case using search_leaf [OF ko] TLeaf.prems by auto
next
  case (TIndex m ch)
  obtain h' where h: "h = Suc h'" "0 < h'" using TIndex.prems(1) by (cases h) auto
  have at: "m \<noteq> 0" "node_rep (btcb s) 14 (map fst ch) (buf s m)" "node_height (buf s m) = Some (Suc h')"
    "node_kind (buf s m) = Some kBTIndexNode" and ne: "ch \<noteq> []"
    using TIndex.prems(1) h by (simp_all add: node_at_def)
  have "\<forall>r \<in> set (map fst ch). valid r" "sorted_wrt (<) (map kval (map fst ch))"
    using TIndex.prems(2) by (auto simp: sorted_wrt_map case_prod_unfold elim!: sorted_wrt_mono_rel [rotated])
  then obtain found i where sn: "SearchNode (btcb s) (buf s m) key = Some (found, i)" "i \<le> length ch"
    and below: "\<forall>j < i. kval (fst (ch ! j)) < kval key"
    and above: "\<forall>j < length ch. i \<le> j \<longrightarrow> kval key \<le> kval (fst (ch ! j))"
    and found: "found \<longleftrightarrow> i < length ch \<and> kval (fst (ch ! i)) = kval key"
    using SearchNode_finds [OF ko(1,2) at(2) ko(3)] by force
  define c where "c = (if \<not> found \<and> i \<noteq> 0 then i - 1 else i)"
  note cb = child_bounds [OF TIndex.prems(2) sn(2) below above found c_def ne]
  have mem: "ch ! c \<in> set ch" using cb(1) by simp
  then have sub: "index_record (btcb s) (fst (ch ! c)) (tnum (snd (ch ! c)))" "holds s h' (snd (ch ! c))"
    "ordered valid kval (snd (ch ! c))" "\<forall>n \<in> set (tnodes (snd (ch ! c))). readable io s n"
    using TIndex.prems h by (force simp: case_prod_unfold)+
  obtain a d where rec: "GetRecordByIndex (btcb s) (buf s m) c = Some (Inr (rec_off 14 (map fst ch) c, a, d))"
    "load32 (buf s m) a = Some (tnum (snd (ch ! c)))"
    using index_record_child [OF at(2), of c "tnum (snd (ch ! c))"] sub(1) cb(1) by auto
  obtain r where r: "SearchTree_loop io key h' (tnum (snd (ch ! c))) (tp(Suc h' := (m, c))) s = Some r"
    "search_result kval (kval key) h' (snd (ch ! c)) (tp(Suc h' := (m, c))) s r"
    using TIndex.IH [of "ch ! c" "snd (ch ! c)"] mem sub TIndex.prems(4) h
    by (metis Suc_lessD prod.collapse snds.intros)
  have "kBTIndexNode \<noteq> kBTLeafNode" by (simp add: kBTIndexNode_def kBTLeafNode_def)
  then have "SearchTree_loop io key h (tnum (TIndex m ch)) tp s = Some r"
    using at h(2) rec r(1) sn(1) TIndex.prems(3,4) GetNode_readable [of io s m] unfolding h(1)
    by (cases "\<not> found \<and> i \<noteq> 0") (simp_all add: SearchTree_loop.simps(2) set_path_def Let_def c_def)
  moreover have "search_result kval (kval key) h (TIndex m ch) tp s r"
    unfolding h(1) by (rule search_result_child [OF cb(1) r(2)]) (blast intro: cb(2,3))+
  ultimately show ?case by blast
qed

lemma SearchTree_finds:
  fixes kval :: "byte list \<Rightarrow> 'k :: linorder"
  assumes "key_order cmp valid kval" "keyCompareProc (btcb s) = cmp" "valid key"
    and "holds s (treeDepth (btcb s)) t" "tnum t = rootNode (btcb s)" "ordered valid kval t"
    and "\<forall>n \<in> set (tnodes t). readable io s n" "treeDepth (btcb s) < kMaxTreeDepth"
  shows "\<exists>r. SearchTree io key tp s = Some r \<and>
           search_result kval (kval key) (treeDepth (btcb s)) t (tp(0 := (0, 0))) s r"
proof -
  have "0 < treeDepth (btcb s)" using assms(4) by (cases t) auto
  then show ?thesis
    using SearchTree_loop_finds [OF assms(1-4,6-8), of "tp(0 := (0, 0))"]
    by (simp add: SearchTree_def set_path_def kMaxTreeDepth_def assms(5))
qed

section \<open>Properties\<close>

text \<open>
  C27: on every tree whose keys are in order and whose height is below
  \<^verbatim>\<open>kMaxTreeDepth\<close>, \<^verbatim>\<open>SearchTree\<close> ends without leaving its buffers, finds the key exactly
  when a leaf record has it, returns the leaf and index where the key is or belongs,
  with all records before that position smaller and all others not smaller, and fills
  the path table with the way from the root to that leaf.
\<close>

theorem SearchTree_correct:
  fixes kval :: "byte list \<Rightarrow> 'k :: linorder"
  assumes "key_order cmp valid kval" "keyCompareProc (btcb s) = cmp" "valid key"
    and "holds s (treeDepth (btcb s)) t" "tnum t = rootNode (btcb s)" "ordered valid kval t"
    and "\<forall>n \<in> set (tnodes t). readable io s n" "treeDepth (btcb s) < kMaxTreeDepth"
  shows "\<exists>found tp' n i.
           SearchTree io key tp s = Some (if found then noErr else fsBTRecordNotFoundErr, tp', n, Some n, i, s) \<and>
           (found \<longleftrightarrow> (\<exists>x \<in> set (records t). kval x = kval key)) \<and>
           key_position kval (kval key) (leaves t) n i \<and> on_path tp' (treeDepth (btcb s)) t n i"
proof -
  obtain r where "SearchTree io key tp s = Some r"
    "search_result kval (kval key) (treeDepth (btcb s)) t (tp(0 := (0, 0))) s r"
    using SearchTree_finds [OF assms] by blast
  then show ?thesis unfolding search_result_def by (elim exE conjE) (intro exI conjI; simp)
qed

text \<open>An extents file with one leaf, node 1.\<close>

definition one_leaf :: "byte list \<Rightarrow> btree" where
  "one_leaf node = \<lparr>btcb = extents_btree, node_store = (\<lambda>n. node), fcbEOF = 4096, damagedVolume = False\<rparr>"

theorem SearchTree_correct_witness:
  "\<exists>node tp'. SearchTree warm_cache [10, 0, 0, 0, 16, 0, 0, 0, 5, 0, 0, 0] (\<lambda>_. (0, 0)) (one_leaf node) =
     Some (noErr, tp', 1, Some 1, 0, one_leaf node)"
proof -
  let ?key = "[10, 0, 0, 0, 16, 0, 0, 0, 5, 0, 0, 0] :: byte list"
  have "length extents_record = 76" by (simp add: extents_record_def)
  then obtain node where node: "node_rep extents_btree 14 [extents_record] node" "descr node 0 0 kBTLeafNode 1"
    using make_node [of extents_btree "[extents_record]" 0 0 kBTLeafNode 1]
    by (auto simp: extents_btree_size kBTLeafNode_def)
  have bt: "btcb (one_leaf node) = extents_btree" "treeDepth extents_btree = 1" "rootNode extents_btree = 1"
    "totalNodes extents_btree = 8" "keyCompareProc extents_btree = CompareExtentKeysPlus"
    by (simp_all add: one_leaf_def extents_btree_def small_btree_def)
  have kv: "extent_kval_plus extents_record = extent_kval_plus ?key"
    unfolding extents_record_def by (rule conjunct2 [OF extent_keys_plus.prefix]) simp
  have holds: "holds (one_leaf node) 1 (TLeaf 1 [extents_record])"
    using node by (simp add: node_at_def descr_def one_leaf_def)
  have ord: "ordered (\<lambda>key. 12 \<le> length key) extent_kval_plus (TLeaf 1 [extents_record])"
    by (simp add: extents_record_def)
  obtain found tp' n i where
    eq: "SearchTree warm_cache ?key (\<lambda>_. (0, 0)) (one_leaf node) =
           Some (if found then noErr else fsBTRecordNotFoundErr, tp', n, Some n, i, one_leaf node)"
    and found: "found \<longleftrightarrow> (\<exists>x \<in> set (records (TLeaf 1 [extents_record])). extent_kval_plus x = extent_kval_plus ?key)"
    and pos: "key_position extent_kval_plus (extent_kval_plus ?key) (leaves (TLeaf 1 [extents_record])) n i"
    using SearchTree_correct [OF extent_keys_plus.key_order_axioms _ _ _ _ ord, of "one_leaf node" ?key warm_cache "\<lambda>_. (0, 0)"]
      holds bt by (auto simp: kMaxTreeDepth_def)
  have found using found kv by (simp add: records_def)
  moreover have "n = 1" "i = 0"
    using pos kv by (auto simp: key_position_def Cons_eq_append_conv le_Suc_eq)
  ultimately show ?thesis using eq by auto
qed

end
