(* ===== verification/BTreeAccess.thy ===== *)
theory BTreeAccess
  imports BTreeSearch
begin

unbundle bit_operations_syntax

text \<open>
  Looking up a record: \<^verbatim>\<open>BTSearchRecord\<close> of \<^verbatim>\<open>src/hfsplus/hfscommon/BTree/BTree.c\<close>, with
  \<^verbatim>\<open>IsItAHint\<close> of \<^verbatim>\<open>BTreeMiscOps.c\<close> beside it. An iterator carries a key and a hint, the node where the key
  was last seen; a hint may be stale, and then the tree is searched from the root.

  File and control block are not nil. The reserved and version fields of the
  iterator, which are only ever cleared, and the counters are left out. Where the
  code copies a key or a record into a buffer of the caller, too small a buffer is an
  access outside memory, \<^const>\<open>None\<close>.
\<close>

section \<open>Iterators and buffers\<close>

definition fsBTInvalidIteratorErr :: OSErr where "fsBTInvalidIteratorErr = - 32767 + 776"
definition fsBTStartOfIterationErr :: OSErr where "fsBTStartOfIterationErr = - 32767 + 851"
definition fsBTEndOfIterationErr :: OSErr where "fsBTEndOfIterationErr = - 32767 + 852"
definition fsInvalidIterationMovmentErr :: OSErr where "fsInvalidIterationMovmentErr = - 32767 + 2565"

definition kBTreeFirstRecord :: nat where "kBTreeFirstRecord = 0"
definition kBTreeNextRecord :: nat where "kBTreeNextRecord = 1"
definition kBTreePrevRecord :: nat where "kBTreePrevRecord = 2"
definition kBTreeLastRecord :: nat where "kBTreeLastRecord = 3"
definition kBTreeCurrentRecord :: nat where "kBTreeCurrentRecord = 4"

text \<open>The size of a \<^verbatim>\<open>BTreeKey\<close>, which is a union.\<close>

definition sizeof_BTreeKey :: nat where "sizeof_BTreeKey = 522"

record BTreeIterator =
  hint_writeCount :: nat
  hint_nodeNum :: nat
  hint_index :: nat
  hitCount :: nat
  maxLeafRecs :: nat
  it_key :: "byte list"

record FSBufferDescriptor =
  bufferAddress :: "byte list"
  itemSize :: nat
  itemCount :: nat

definition IsItAHint :: "BTreeControlBlock \<Rightarrow> BTreeIterator \<Rightarrow> OSErr \<times> bool" where
  "IsItAHint bt iterator =
     (noErr, if hint_nodeNum iterator \<ge> totalNodes bt then False
             else if hint_nodeNum iterator = 0 then False
             else True)"

definition BTInvalidateHint :: "BTreeIterator \<Rightarrow> BTreeIterator" where
  "BTInvalidateHint iterator = iterator\<lparr>hint_nodeNum := 0\<rparr>"

text \<open>\<^verbatim>\<open>BlockMoveData\<close> from a buffer to the start of another.\<close>

definition BlockMoveData :: "byte list \<Rightarrow> nat \<Rightarrow> byte list \<Rightarrow> nat \<Rightarrow> byte list option" where
  "BlockMoveData src a dst n =
     (if a + n \<le> length src then copy_in dst 0 (slice src a n) else None)"

text \<open>As much of a record as the caller's buffer takes; without a buffer, nothing.\<close>

definition copy_record ::
  "FSBufferDescriptor option \<Rightarrow> byte list \<Rightarrow> nat \<Rightarrow> nat \<Rightarrow> FSBufferDescriptor option option" where
  "copy_record record node recordPtr len =
     (case record of
        None \<Rightarrow> Some None
      | Some rd \<Rightarrow> do {
          let recordSize = (itemCount rd * itemSize rd) mod 2 ^ 32;
          let len = (if len > recordSize then recordSize else len);
          b \<leftarrow> BlockMoveData node recordPtr (bufferAddress rd) len;
          Some (Some (rd\<lparr>bufferAddress := b\<rparr>))
        })"

text \<open>The iterator of a failed operation.\<close>

definition clear_iterator :: "BTreeIterator \<Rightarrow> BTreeIterator option" where
  "clear_iterator it = do {
     k \<leftarrow> store16 (it_key it) 0 0;
     Some (it\<lparr>hint_writeCount := 0, hint_nodeNum := 0, hint_index := 0, it_key := k\<rparr>)
   }"

text \<open>A path table nothing has been written to yet.\<close>

definition fresh_path :: TreePathTable where "fresh_path = (\<lambda>_. (0, 0))"

section \<open>\<open>BTSearchRecord\<close>\<close>

text \<open>
  The outputs: status, record buffer, record length, the iterator searched with, the
  iterator returned, and the tree. When both iterators are the same object, as the
  callers in \<^verbatim>\<open>FileExtentMapping.c\<close> have it, the second one is the result.
\<close>

type_synonym bt_search =
  "OSErr \<times> FSBufferDescriptor option \<times> nat \<times> BTreeIterator \<times> BTreeIterator option \<times> btree"

definition BTSearchRecord_error ::
  "OSErr \<Rightarrow> FSBufferDescriptor option \<Rightarrow> BTreeIterator \<Rightarrow> BTreeIterator option \<Rightarrow> btree \<Rightarrow> bt_search option" where
  "BTSearchRecord_error err record searchIterator resultIterator s = do {
     resultIterator \<leftarrow> (case resultIterator of
         None \<Rightarrow> Some None
       | Some it \<Rightarrow> map_option Some (clear_iterator it));
     Some (if err = fsBTEmptyErr then fsBTRecordNotFoundErr else err, record, 0, searchIterator, resultIterator, s)
   }"

text \<open>Trying the hint: whether the record was found, the node and the index.\<close>

definition take_hint ::
  "buffer_cache \<Rightarrow> BTreeIterator \<Rightarrow> btree \<Rightarrow>
   (OSErr \<times> bool \<times> BlockDescriptor \<times> nat \<times> BTreeIterator \<times> btree) option" where
  "take_hint io searchIterator s = do {
     (err, node, s) \<leftarrow> GetNode io (hint_nodeNum searchIterator) s;
     (foundRecord, index) \<leftarrow>
       (case node of
          Some n \<Rightarrow> do {
            kind \<leftarrow> node_kind (buf s n);
            num \<leftarrow> node_numRecords (buf s n);
            if err = noErr \<and> kind = kBTLeafNode \<and> num > 0
            then SearchNode (btcb s) (buf s n) (it_key searchIterator)
            else Some (False, 0)
          }
        | None \<Rightarrow> Some (False, 0));
     let (err, node) = (if err = noErr \<and> \<not> foundRecord then ReleaseNode io node else (noErr, node));
     let searchIterator = (if foundRecord then searchIterator else BTInvalidateHint searchIterator);
     Some (err, foundRecord, node, index, searchIterator, s)
   }"

text \<open>The record, once node and index are known.\<close>

definition BTSearchRecord_result ::
  "buffer_cache \<Rightarrow> bool \<Rightarrow> nat \<Rightarrow> BlockDescriptor \<Rightarrow> nat \<Rightarrow> FSBufferDescriptor option \<Rightarrow> nat \<Rightarrow>
   BTreeIterator \<Rightarrow> BTreeIterator option \<Rightarrow> btree \<Rightarrow> bt_search option" where
  "BTSearchRecord_result io foundRecord nodeNum node index record recordLen searchIterator resultIterator s = do {
     nd \<leftarrow> node;
     (keyBuf, keyPtr, record, recordLen) \<leftarrow>
       (if foundRecord then do {
          r \<leftarrow> GetRecordByIndex (btcb s) (buf s nd) index;
          case r of
            Inl err \<Rightarrow> None
          | Inr (keyPtr, recordPtr, len) \<Rightarrow> do {
              record \<leftarrow> copy_record record (buf s nd) recordPtr len;
              Some (buf s nd, keyPtr, record, len)
            }
        }
        else Some (it_key searchIterator, 0, record, recordLen));
     resultIterator \<leftarrow>
       (case resultIterator of
          None \<Rightarrow> Some None
        | Some it \<Rightarrow> do {
            n \<leftarrow> CalcKeySize (btcb s) (drop keyPtr keyBuf);
            k \<leftarrow> BlockMoveData keyBuf keyPtr (it_key it) n;
            Some (Some (it\<lparr>hint_writeCount := writeCount (btcb s), hint_nodeNum := nodeNum,
                          hint_index := index, it_key := k\<rparr>))
          });
     let (err, node) = ReleaseNode io node;
     if err \<noteq> noErr then BTSearchRecord_error err record searchIterator resultIterator s
     else Some (if foundRecord then noErr else fsBTRecordNotFoundErr, record, recordLen, searchIterator, resultIterator, s)
   }"

text \<open>The search from the root, when the hint was of no use.\<close>

definition BTSearchRecord_search ::
  "buffer_cache \<Rightarrow> BTreeIterator \<Rightarrow> FSBufferDescriptor option \<Rightarrow> nat \<Rightarrow> BTreeIterator option \<Rightarrow> btree \<Rightarrow>
   bt_search option" where
  "BTSearchRecord_search io searchIterator record recordLen resultIterator s = do {
     (err, treePathTable, nodeNum, node, index, s) \<leftarrow> SearchTree io (it_key searchIterator) fresh_path s;
     if err = noErr \<or> err = fsBTRecordNotFoundErr
     then BTSearchRecord_result io (err = noErr) nodeNum node index record recordLen searchIterator resultIterator s
     else BTSearchRecord_error err record searchIterator resultIterator s
   }"

definition BTSearchRecord ::
  "buffer_cache \<Rightarrow> BTreeIterator \<Rightarrow> FSBufferDescriptor option \<Rightarrow> nat \<Rightarrow> BTreeIterator option \<Rightarrow> btree \<Rightarrow>
   bt_search option" where
  "BTSearchRecord io searchIterator record recordLen resultIterator s =
     (let (err, validHint) = IsItAHint (btcb s) searchIterator;
          nodeNum = hint_nodeNum searchIterator
      in if err \<noteq> noErr then BTSearchRecord_error err record searchIterator resultIterator s
         else if validHint then do {
           (err, foundRecord, node, index, searchIterator, s) \<leftarrow> take_hint io searchIterator s;
           if err \<noteq> noErr then BTSearchRecord_error err record searchIterator resultIterator s
           else if foundRecord
           then BTSearchRecord_result io True nodeNum node index record recordLen searchIterator resultIterator s
           else BTSearchRecord_search io searchIterator record recordLen resultIterator s
         }
         else BTSearchRecord_search io searchIterator record recordLen resultIterator s)"

text \<open>A node can hold the position only if it is a leaf with records.\<close>

definition usable_leaf :: "byte list \<Rightarrow> bool option" where
  "usable_leaf node = do {
     kind \<leftarrow> node_kind node;
     num \<leftarrow> node_numRecords node;
     Some (kind = kBTLeafNode \<and> num > 0)
   }"

section \<open>Leaves of a tree in the store\<close>

lemma leaves_index: "x \<in> set (leaves (TIndex m ch)) \<longleftrightarrow> (\<exists>q \<in> set ch. x \<in> set (leaves (snd q)))"
  by (auto simp: case_prod_unfold)

lemma holds_leaf: "holds s h t \<Longrightarrow> (n, recs) \<in> set (leaves t) \<Longrightarrow> node_at s n 1 kBTLeafNode recs"
proof (induction t arbitrary: h rule: tnode_induct)
  case (TIndex m ch)
  then obtain q where "q \<in> set ch" "(n, recs) \<in> set (leaves (snd q))" unfolding leaves_index by blast
  with TIndex show ?case by (auto simp: case_prod_unfold)
qed simp

lemma ordered_child: "ordered valid kval (TIndex m ch) \<Longrightarrow> q \<in> set ch \<Longrightarrow> ordered valid kval (snd q)"
  by (simp add: case_prod_unfold)

lemma ordered_leaf:
  "ordered valid kval t \<Longrightarrow> (n, recs) \<in> set (leaves t) \<Longrightarrow>
     (\<forall>r \<in> set recs. valid r) \<and> sorted_wrt (<) (map kval recs)"
proof (induction t rule: tnode_induct)
  case (TIndex m ch)
  then obtain q where "q \<in> set ch" "(n, recs) \<in> set (leaves (snd q))" unfolding leaves_index by blast
  with TIndex.IH ordered_child [OF TIndex.prems(1)] show ?case by blast
qed simp

lemma tnodes_leaf: "(n, recs) \<in> set (leaves t) \<Longrightarrow> n \<in> set (tnodes t)"
proof (induction t rule: tnode_induct)
  case (TIndex m ch)
  then obtain q where "q \<in> set ch" "(n, recs) \<in> set (leaves (snd q))" unfolding leaves_index by blast
  with TIndex show ?case by (auto simp: case_prod_unfold)
qed simp

lemma records_leaf: "(n, recs) \<in> set (leaves t) \<Longrightarrow> r \<in> set recs \<Longrightarrow> r \<in> set (records t)"
  by (force simp: records_def)

lemma holds_damaged [simp]: "holds (s\<lparr>damagedVolume := b\<rparr>) h t = holds s h t"
  by (induction t arbitrary: h rule: tnode_induct) (auto simp: node_at_def case_prod_unfold)

lemma readable_damaged [simp]: "readable io (s\<lparr>damagedVolume := b\<rparr>) n = readable io s n"
  by (simp add: readable_def)

lemma store_ok_damaged [simp]: "store_ok (s\<lparr>damagedVolume := b\<rparr>) = store_ok s"
  by (simp add: store_ok_def)

text \<open>A key, alone or at the start of a record, that lies inside its buffer and fits a \<^verbatim>\<open>BTreeKey\<close>.\<close>

definition key_ok :: "BTreeControlBlock \<Rightarrow> (byte list \<Rightarrow> bool) \<Rightarrow> byte list \<Rightarrow> bool" where
  "key_ok bt valid key \<longleftrightarrow>
     (\<exists>k. CalcKeySize bt key = Some k \<and> k + k mod 2 \<le> length key \<and> k \<le> sizeof_BTreeKey \<and> valid (take k key))"

definition rec_data :: "BTreeControlBlock \<Rightarrow> byte list \<Rightarrow> byte list" where
  "rec_data bt r = drop (case CalcKeySize bt r of None \<Rightarrow> 0 | Some k \<Rightarrow> k + k mod 2) r"

text \<open>
  The tree of a B-tree file that can be searched: it is in the store, in order, its
  nodes can be read, its records are well formed, and no other node looks like a leaf.
\<close>

definition tree_in ::
  "buffer_cache \<Rightarrow> (byte list \<Rightarrow> bool) \<Rightarrow> (byte list \<Rightarrow> 'k :: linorder) \<Rightarrow> btree \<Rightarrow> tnode \<Rightarrow> bool" where
  "tree_in io valid kval s t \<longleftrightarrow>
     store_ok s \<and> key_order (keyCompareProc (btcb s)) valid kval \<and>
     holds s (treeDepth (btcb s)) t \<and> tnum t = rootNode (btcb s) \<and> ordered valid kval t \<and>
     (\<forall>n \<in> set (tnodes t). readable io s n) \<and> treeDepth (btcb s) < kMaxTreeDepth \<and>
     (\<forall>r \<in> set (records t). key_ok (btcb s) valid r) \<and>
     (\<forall>n. readable io s n \<and> usable_leaf (buf s n) = Some True \<longrightarrow> n \<in> fst ` set (leaves t))"

lemma tree_in_damaged [simp]: "tree_in io valid kval (s\<lparr>damagedVolume := b\<rparr>) t = tree_in io valid kval s t"
  by (simp add: tree_in_def)

lemma tree_in_leaf:
  assumes "tree_in io valid kval s t" "(n, recs) \<in> set (leaves t)"
  shows "node_at s n 1 kBTLeafNode recs" "\<forall>r \<in> set recs. valid r" "sorted_wrt (<) (map kval recs)"
    "readable io s n" "\<forall>r \<in> set recs. key_ok (btcb s) valid r"
  using assms holds_leaf ordered_leaf [of valid kval t n recs] tnodes_leaf [OF assms(2)] records_leaf [OF assms(2)]
  by (auto simp: tree_in_def)

lemma tree_in_search:
  assumes "tree_in io valid kval s t" "valid key"
  shows "\<exists>r. SearchTree io key tp s = Some r \<and>
           search_result kval (kval key) (treeDepth (btcb s)) t (tp(0 := (0, 0))) s r"
  using assms SearchTree_finds [of "keyCompareProc (btcb s)" valid kval s key t io tp] by (simp add: tree_in_def)

text \<open>Searching one leaf of the tree.\<close>

lemma SearchNode_in_leaf:
  fixes kval :: "byte list \<Rightarrow> 'k :: linorder"
  assumes t: "tree_in io valid kval s t" and n: "(n, recs) \<in> set (leaves t)" and key: "valid key"
  shows "\<exists>found i. SearchNode (btcb s) (buf s n) key = Some (found, i) \<and> i \<le> length recs \<and>
           (\<forall>j < i. kval (recs ! j) < kval key) \<and>
           (\<forall>j < length recs. i \<le> j \<longrightarrow> kval key \<le> kval (recs ! j)) \<and>
           (found \<longleftrightarrow> i < length recs \<and> kval (recs ! i) = kval key)"
proof -
  note l = tree_in_leaf [OF t n]
  show ?thesis
    using SearchNode_finds [OF _ refl _ key l(2,3), of "btcb s" 14] l(1) t by (simp add: tree_in_def node_at_def)
qed

section \<open>Copying a record out\<close>

lemma node_rep_sub:
  assumes "node_rep bt base recs node" "i < length recs" "a + k \<le> length (recs ! i)"
  shows "rec_off base recs i + a + k \<le> length node"
    "slice node (rec_off base recs i + a) k = slice (recs ! i) a k"
proof -
  have "rec_off base recs i + length (recs ! i) + 2 \<le> length node"
    using node_rep_offset(3) [OF assms(1), of "Suc i"] rec_off_Suc [OF assms(2), of base] assms(1,2)
    by (simp add: node_rep_def)
  then show "rec_off base recs i + a + k \<le> length node" using assms(3) by simp
  show "slice node (rec_off base recs i + a) k = slice (recs ! i) a k"
    using slice_slice [OF assms(3), of node "rec_off base recs i"] node_rep_record [OF assms(1,2)] by simp
qed

definition copied_record :: "BTreeControlBlock \<Rightarrow> FSBufferDescriptor \<Rightarrow> byte list \<Rightarrow> FSBufferDescriptor" where
  "copied_record bt rd r =
     rd\<lparr>bufferAddress := overwrite (bufferAddress rd) 0 (take ((itemCount rd * itemSize rd) mod 2 ^ 32) (rec_data bt r))\<rparr>"

text \<open>A caller's buffers: the record buffer has the size it claims, the iterator a whole key.\<close>

definition buffers_ok :: "FSBufferDescriptor \<Rightarrow> BTreeIterator \<Rightarrow> bool" where
  "buffers_ok rd it \<longleftrightarrow>
     length (bufferAddress rd) = itemCount rd * itemSize rd \<and> length (it_key it) = sizeof_BTreeKey"

lemma record_read:
  assumes rep: "node_rep bt base recs node" and i: "i < length recs" and ok: "key_ok bt valid (recs ! i)"
    and buf: "buffers_ok rd it"
  defines "r \<equiv> recs ! i"
  shows "\<exists>a d k. GetRecordByIndex bt node i = Some (Inr (a, d, length (rec_data bt r))) \<and>
           copy_record (Some rd) node d (length (rec_data bt r)) = Some (Some (copied_record bt rd r)) \<and>
           CalcKeySize bt (drop a node) = Some k \<and> CalcKeySize bt r = Some k \<and> valid (take k r) \<and> k \<le> length r \<and>
           BlockMoveData node a (it_key it) k = Some (overwrite (it_key it) 0 (take k r))"
proof -
  obtain k where k: "CalcKeySize bt r = Some k" "k + k mod 2 \<le> length r" "k \<le> sizeof_BTreeKey" "valid (take k r)"
    using ok by (auto simp: key_ok_def r_def)
  let ?a = "rec_off base recs i" and ?kk = "k + k mod 2"
  obtain u where "drop ?a node = r @ u" using node_rep_drop [OF rep i] by (auto simp: r_def)
  then have key: "CalcKeySize bt (drop ?a node) = Some k" using CalcKeySize_append [OF k(1)] by simp
  have data: "rec_data bt r = drop ?kk r" using k(1) by (simp add: rec_data_def)
  have "GetRecordByIndex bt node i = Some (Inr (?a, ?a + ?kk, length (rec_data bt r)))"
    using GetRecordByIndex_rep [OF rep i, folded r_def] k(1,2) by (simp add: data)
  moreover have "copy_record (Some rd) node (?a + ?kk) (length (rec_data bt r)) = Some (Some (copied_record bt rd r))"
  proof -
    define sz where "sz = (itemCount rd * itemSize rd) mod 2 ^ 32"
    have sz: "sz \<le> itemCount rd * itemSize rd" by (simp add: sz_def)
    define l where "l = (if length (rec_data bt r) > sz then sz else length (rec_data bt r))"
    have l: "l \<le> length (rec_data bt r)" "l \<le> sz" by (auto simp: l_def)
    then have "?kk + l \<le> length r" using k(2) by (simp add: data)
    note sub = node_rep_sub [OF rep i, folded r_def, OF this]
    have "slice r ?kk l = take sz (rec_data bt r)" by (simp add: slice_def data l_def)
    then have "BlockMoveData node (?a + ?kk) (bufferAddress rd) l = Some (overwrite (bufferAddress rd) 0 (take sz (rec_data bt r)))"
      using sub l sz buf by (simp add: BlockMoveData_def buffers_ok_def copy_in_def add.assoc)
    moreover have "copy_record (Some rd) node (?a + ?kk) (length (rec_data bt r)) =
        BlockMoveData node (?a + ?kk) (bufferAddress rd) l \<bind> (\<lambda>b. Some (Some (rd\<lparr>bufferAddress := b\<rparr>)))"
      unfolding l_def sz_def by (simp only: copy_record_def option.case Let_def)
    ultimately show ?thesis by (simp only: copied_record_def sz_def [symmetric] bind.bind_lunit)
  qed
  moreover have "BlockMoveData node ?a (it_key it) k = Some (overwrite (it_key it) 0 (take k r))"
  proof -
    have "0 + k \<le> length r" using k(2) by simp
    from node_rep_sub [OF rep i, folded r_def, OF this] show ?thesis
      using k(3) buf by (simp add: BlockMoveData_def buffers_ok_def copy_in_def slice_def)
  qed
  ultimately show ?thesis using key k by auto
qed

lemma overwrite_start: "length bs \<le> length m \<Longrightarrow> \<exists>u. overwrite m 0 bs = bs @ u"
  by (simp add: overwrite_def)

lemma copied_key:
  assumes "key_order cmp valid kval" "valid (take k r)" "k \<le> length r" "length (it_key it) = sizeof_BTreeKey" "k \<le> sizeof_BTreeKey"
  shows "kval (overwrite (it_key it) 0 (take k r)) = kval r" "valid (overwrite (it_key it) 0 (take k r))"
proof -
  obtain u where "overwrite (it_key it) 0 (take k r) = take k r @ u"
    using overwrite_start [of "take k r" "it_key it"] assms(3-5) by auto
  moreover have "kval r = kval (take k r)"
    using key_order.prefix [OF assms(1,2), of "drop k r"] by simp
  ultimately show "kval (overwrite (it_key it) 0 (take k r)) = kval r" "valid (overwrite (it_key it) 0 (take k r))"
    using key_order.prefix [OF assms(1,2), of u] by simp_all
qed

section \<open>Searching for a record\<close>

lemma IsItAHint_eq: "IsItAHint bt it = (noErr, 0 < hint_nodeNum it \<and> hint_nodeNum it < totalNodes bt)"
  by (auto simp: IsItAHint_def)

text \<open>An iterator that carries the key \<open>k\<close>.\<close>

definition carries :: "(byte list \<Rightarrow> bool) \<Rightarrow> (byte list \<Rightarrow> 'k) \<Rightarrow> 'k \<Rightarrow> BTreeIterator \<Rightarrow> bool" where
  "carries valid kval k it \<longleftrightarrow> length (it_key it) = sizeof_BTreeKey \<and> valid (it_key it) \<and> kval (it_key it) = k"

lemma search_result_found:
  assumes t: "tree_in io valid kval s t" and n: "(n, recs) \<in> set (leaves t)" "i < length recs" and b: "buffers_ok rd rit"
  shows "\<exists>rit'. BTSearchRecord_result io True num (Some n) i (Some rd) len sit (Some rit) s =
             Some (noErr, Some (copied_record (btcb s) rd (recs ! i)), length (rec_data (btcb s) (recs ! i)), sit, Some rit', s) \<and>
           carries valid kval (kval (recs ! i)) rit' \<and> hint_nodeNum rit' = num"
proof -
  note l = tree_in_leaf [OF t n(1)]
  have rep: "node_rep (btcb s) 14 recs (buf s n)" using l(1) by (simp add: node_at_def)
  have ok: "key_ok (btcb s) valid (recs ! i)" using l(5) n(2) by simp
  obtain a d k where r: "GetRecordByIndex (btcb s) (buf s n) i = Some (Inr (a, d, length (rec_data (btcb s) (recs ! i))))"
    "copy_record (Some rd) (buf s n) d (length (rec_data (btcb s) (recs ! i))) = Some (Some (copied_record (btcb s) rd (recs ! i)))"
    "CalcKeySize (btcb s) (drop a (buf s n)) = Some k" "CalcKeySize (btcb s) (recs ! i) = Some k"
    "valid (take k (recs ! i))" "k \<le> length (recs ! i)"
    "BlockMoveData (buf s n) a (it_key rit) k = Some (overwrite (it_key rit) 0 (take k (recs ! i)))"
    using record_read [OF rep n(2) ok b] by blast
  have k: "k \<le> sizeof_BTreeKey" using ok r(4) by (simp add: key_ok_def)
  have len: "length (it_key rit) = sizeof_BTreeKey" using b by (simp add: buffers_ok_def)
  have "key_order (keyCompareProc (btcb s)) valid kval" using t by (simp add: tree_in_def)
  note c = copied_key [OF this r(5,6) len k]
  show ?thesis
    using r c k len by (simp add: BTSearchRecord_result_def carries_def)
qed

lemma search_result_missing:
  assumes "key_order (keyCompareProc (btcb s)) valid kval" "key_ok (btcb s) valid (it_key sit)"
    and "length (it_key sit) = sizeof_BTreeKey" "buffers_ok rd rit"
  shows "\<exists>rit'. BTSearchRecord_result io False num (Some n) i (Some rd) len sit (Some rit) s =
             Some (fsBTRecordNotFoundErr, Some rd, len, sit, Some rit', s) \<and>
           carries valid kval (kval (it_key sit)) rit' \<and> hint_nodeNum rit' = num"
proof -
  obtain k where k: "CalcKeySize (btcb s) (it_key sit) = Some k" "k \<le> length (it_key sit)" "k \<le> sizeof_BTreeKey"
    "valid (take k (it_key sit))" using assms(2) by (auto simp: key_ok_def)
  have len: "length (it_key rit) = sizeof_BTreeKey" using assms(4) by (simp add: buffers_ok_def)
  have "BlockMoveData (it_key sit) 0 (it_key rit) k = Some (overwrite (it_key rit) 0 (take k (it_key sit)))"
    using k(2,3) len by (simp add: BlockMoveData_def copy_in_def slice_def)
  then show ?thesis
    using k len copied_key [OF assms(1) k(4,2) len k(3)] by (simp add: BTSearchRecord_result_def carries_def)
qed

lemma usable_leaf_total:
  assumes "store_ok s"
  shows "\<exists>kind num. node_kind (buf s n) = Some kind \<and> node_numRecords (buf s n) = Some num \<and>
           usable_leaf (buf s n) = Some (kind = kBTLeafNode \<and> num > 0)"
proof -
  have "16 \<le> length (buf s n)" using assms by (simp add: store_ok_def)
  then show ?thesis by (simp add: usable_leaf_def node_kind_def node_numRecords_def load_def)
qed

lemma usable_in_tree:
  assumes "tree_in io valid kval s t" "readable io s n" "usable_leaf (buf s n) = Some True"
  shows "\<exists>recs. (n, recs) \<in> set (leaves t)"
  using assms by (force simp: tree_in_def)

lemma take_hint_result:
  assumes t: "tree_in io valid kval s t" and key: "valid (it_key it)"
  shows "\<exists>found nd i it' s'. take_hint io it s = Some (noErr, found, nd, i, it', s') \<and> it_key it' = it_key it \<and>
           (if found then s' = s \<and> (\<exists>recs. nd = Some (hint_nodeNum it) \<and> (hint_nodeNum it, recs) \<in> set (leaves t) \<and>
                               i < length recs \<and> kval (recs ! i) = kval (it_key it))
            else s' = s \<or> s' = s\<lparr>damagedVolume := True\<rparr>)"
proof -
  let ?n = "hint_nodeNum it"
  have st: "store_ok s" using t by (simp add: tree_in_def)
  obtain err nd s' where g: "GetNode io ?n s = Some (err, nd, s')"
    "err = noErr \<and> nd = Some ?n \<and> s' = s \<and> readable io s ?n \<or>
     err \<noteq> noErr \<and> nd = None \<and> (s' = s \<or> s' = s\<lparr>damagedVolume := True\<rparr>) \<and> \<not> readable io s ?n"
    using GetNode_cases [OF st, of io ?n] by blast
  from g(2) show ?thesis
  proof
    assume ok: "err = noErr \<and> nd = Some ?n \<and> s' = s \<and> readable io s ?n"
    obtain kind num where u: "node_kind (buf s ?n) = Some kind" "node_numRecords (buf s ?n) = Some num"
      "usable_leaf (buf s ?n) = Some (kind = kBTLeafNode \<and> num > 0)"
      using usable_leaf_total [OF st] by blast
    show ?thesis
    proof (cases "kind = kBTLeafNode \<and> num > 0")
      case True
      then obtain recs where recs: "(?n, recs) \<in> set (leaves t)" using usable_in_tree [OF t] ok u(3) by auto
      obtain found i where sn: "SearchNode (btcb s) (buf s ?n) (it_key it) = Some (found, i)"
        "found \<longleftrightarrow> i < length recs \<and> kval (recs ! i) = kval (it_key it)"
        using SearchNode_in_leaf [OF t recs key] by blast
      have "take_hint io it s = Some (noErr, found, if found then Some ?n else None, i,
          if found then it else BTInvalidateHint it, s)"
        using g(1) ok u True sn(1) by (simp add: take_hint_def)
      then show ?thesis using sn(2) recs by (auto simp: BTInvalidateHint_def)
    next
      case False
      then have "take_hint io it s = Some (noErr, False, None, 0, BTInvalidateHint it, s)"
        using g(1) ok u by (simp add: take_hint_def) blast
      then show ?thesis by (auto simp: BTInvalidateHint_def)
    qed
  next
    assume "err \<noteq> noErr \<and> nd = None \<and> (s' = s \<or> s' = s\<lparr>damagedVolume := True\<rparr>) \<and> \<not> readable io s ?n"
    then have "take_hint io it s = Some (noErr, False, None, 0, BTInvalidateHint it, s')"
      "s' = s \<or> s' = s\<lparr>damagedVolume := True\<rparr>"
      using g(1) by (auto simp: take_hint_def)
    then show ?thesis by (auto simp: BTInvalidateHint_def)
  qed
qed

text \<open>The outcome of a search for the key of \<open>sit\<close>.\<close>

definition found_or_not ::
  "(byte list \<Rightarrow> bool) \<Rightarrow> (byte list \<Rightarrow> 'k :: linorder) \<Rightarrow> btree \<Rightarrow> tnode \<Rightarrow> 'k \<Rightarrow> FSBufferDescriptor \<Rightarrow> nat \<Rightarrow>
   bt_search \<Rightarrow> bool" where
  "found_or_not valid kval s t k rd len res \<longleftrightarrow>
     (\<exists>sit rit s'. (s' = s \<or> s' = s\<lparr>damagedVolume := True\<rparr>) \<and> carries valid kval k rit \<and>
        ((\<exists>r \<in> set (records t). kval r = k \<and>
            res = (noErr, Some (copied_record (btcb s) rd r), length (rec_data (btcb s) r), sit, Some rit, s')) \<or>
         (\<forall>r \<in> set (records t). kval r \<noteq> k) \<and>
         res = (fsBTRecordNotFoundErr, Some rd, len, sit, Some rit, s') \<and>
         (\<exists>i. key_position kval k (leaves t) (hint_nodeNum rit) i)))"

lemma found_or_notI:
  "r \<in> set (records t) \<Longrightarrow> kval r = k \<Longrightarrow> carries valid kval k rit \<Longrightarrow>
     found_or_not valid kval s t k rd len
       (noErr, Some (copied_record (btcb s) rd r), length (rec_data (btcb s) r), sit, Some rit, s)"
  "\<forall>r \<in> set (records t). kval r \<noteq> k \<Longrightarrow> carries valid kval k rit \<Longrightarrow>
     key_position kval k (leaves t) (hint_nodeNum rit) i \<Longrightarrow>
     found_or_not valid kval s t k rd len (fsBTRecordNotFoundErr, Some rd, len, sit, Some rit, s)"
  unfolding found_or_not_def by blast+

lemma found_or_not_damaged:
  "found_or_not valid kval (s\<lparr>damagedVolume := True\<rparr>) t k rd len res \<Longrightarrow> found_or_not valid kval s t k rd len res"
  unfolding found_or_not_def by simp blast

lemma key_ok_valid: "key_order cmp valid kval \<Longrightarrow> key_ok bt valid key \<Longrightarrow> valid key"
  unfolding key_ok_def by (metis append_take_drop_id key_order.prefix)

lemma BTSearchRecord_tree:
  fixes kval :: "byte list \<Rightarrow> 'k :: linorder"
  assumes t: "tree_in io valid kval s t" and key: "key_ok (btcb s) valid (it_key sit)" "length (it_key sit) = sizeof_BTreeKey"
    and b: "buffers_ok rd rit" and tree: "SearchTree io (it_key sit) fresh_path s = Some (err, tp, n, nd, i, s')"
  shows "(err = noErr \<or> err = fsBTRecordNotFoundErr) \<and> s' = s \<and>
    (\<exists>r. BTSearchRecord_result io (err = noErr) n nd i (Some rd) len sit (Some rit) s = Some r \<and>
         found_or_not valid kval s t (kval (it_key sit)) rd len r)"
proof -
  have ko: "key_order (keyCompareProc (btcb s)) valid kval" using t by (simp add: tree_in_def)
  then have "valid (it_key sit)" using key_ok_valid key(1) by blast
  from tree_in_search [OF t this, of fresh_path] obtain found recs where r: "err = (if found then noErr else fsBTRecordNotFoundErr)"
    "nd = Some n" "s' = s" "key_position kval (kval (it_key sit)) (leaves t) n i" "(n, recs) \<in> set (leaves t)"
    "found \<longleftrightarrow> (\<exists>x \<in> set (records t). kval x = kval (it_key sit))" "found \<longrightarrow> i < length recs \<and> kval (recs ! i) = kval (it_key sit)"
    unfolding tree search_result_def by auto
  have ne: "noErr \<noteq> fsBTRecordNotFoundErr" by (simp add: fsBTRecordNotFoundErr_def oserr_defs)
  show ?thesis
  proof (cases found)
    case True
    then have i: "i < length recs" "kval (recs ! i) = kval (it_key sit)" using r(7) by simp_all
    have mem: "recs ! i \<in> set (records t)" using records_leaf [OF r(5)] i(1) by simp
    obtain rit' where "BTSearchRecord_result io True n (Some n) i (Some rd) len sit (Some rit) s =
             Some (noErr, Some (copied_record (btcb s) rd (recs ! i)), length (rec_data (btcb s) (recs ! i)), sit, Some rit', s)"
      "carries valid kval (kval (recs ! i)) rit'"
      using search_result_found [OF t r(5) i(1) b, of n len sit] by blast
    then show ?thesis using found_or_notI(1) [of "recs ! i" t kval "kval (it_key sit)" valid rit' s rd len sit] mem i(2) r True by simp
  next
    case False
    obtain rit' where m: "BTSearchRecord_result io False n (Some n) i (Some rd) len sit (Some rit) s =
             Some (fsBTRecordNotFoundErr, Some rd, len, sit, Some rit', s)"
      "carries valid kval (kval (it_key sit)) rit'" "hint_nodeNum rit' = n"
      using search_result_missing [OF ko key b, of io n n i len] by blast
    have "found_or_not valid kval s t (kval (it_key sit)) rd len (fsBTRecordNotFoundErr, Some rd, len, sit, Some rit', s)"
      using r(4,6) False m(2,3) by (intro found_or_notI(2)) auto
    then show ?thesis using m(1) r False ne by simp
  qed
qed

lemma BTSearchRecord_finds:
  fixes kval :: "byte list \<Rightarrow> 'k :: linorder"
  assumes t: "tree_in io valid kval s t" and key: "key_ok (btcb s) valid (it_key sit)" "length (it_key sit) = sizeof_BTreeKey"
    and b: "buffers_ok rd rit"
  shows "\<exists>r. BTSearchRecord io sit (Some rd) len (Some rit) s = Some r \<and>
           found_or_not valid kval s t (kval (it_key sit)) rd len r"
proof -
  have valid: "valid (it_key sit)" using t key(1) key_ok_valid by (auto simp: tree_in_def)
  have search: "\<exists>r. BTSearchRecord_search io sit' (Some rd) len (Some rit) s' = Some r \<and>
      found_or_not valid kval s t (kval (it_key sit)) rd len r"
    if p: "s' = s \<or> s' = s\<lparr>damagedVolume := True\<rparr>" "it_key sit' = it_key sit" for s' sit'
  proof -
    have t': "tree_in io valid kval s' t" and bt: "btcb s' = btcb s" using t p(1) by auto
    obtain err tp n nd i s2 where r: "SearchTree io (it_key sit') fresh_path s' = Some (err, tp, n, nd, i, s2)"
      using tree_in_search [OF t' valid, of fresh_path] p(2) by (metis surj_pair)
    have key': "key_ok (btcb s') valid (it_key sit')" "length (it_key sit') = sizeof_BTreeKey" using key bt p(2) by auto
    obtain res where res: "err = noErr \<or> err = fsBTRecordNotFoundErr" "s2 = s'"
      "BTSearchRecord_result io (err = noErr) n nd i (Some rd) len sit' (Some rit) s' = Some res"
      "found_or_not valid kval s' t (kval (it_key sit')) rd len res"
      using BTSearchRecord_tree [OF t' key' b r] by blast
    have "found_or_not valid kval s t (kval (it_key sit)) rd len res"
      using res(4) p found_or_not_damaged by metis
    then show ?thesis using r res(1-3) by (auto simp: BTSearchRecord_search_def)
  qed
  show ?thesis
  proof (cases "snd (IsItAHint (btcb s) sit)")
    case False
    then have "BTSearchRecord io sit (Some rd) len (Some rit) s = BTSearchRecord_search io sit (Some rd) len (Some rit) s"
      by (auto simp: BTSearchRecord_def IsItAHint_eq)
    then show ?thesis using search [of s sit] by simp
  next
    case True
    obtain found nd i sit' s' where h: "take_hint io sit s = Some (noErr, found, nd, i, sit', s')" "it_key sit' = it_key sit"
      "if found then s' = s \<and> (\<exists>recs. nd = Some (hint_nodeNum sit) \<and> (hint_nodeNum sit, recs) \<in> set (leaves t) \<and>
                               i < length recs \<and> kval (recs ! i) = kval (it_key sit))
       else s' = s \<or> s' = s\<lparr>damagedVolume := True\<rparr>"
      using take_hint_result [OF t valid] by blast
    have eq: "BTSearchRecord io sit (Some rd) len (Some rit) s =
      (if found then BTSearchRecord_result io True (hint_nodeNum sit) nd i (Some rd) len sit' (Some rit) s'
       else BTSearchRecord_search io sit' (Some rd) len (Some rit) s')"
      using True h(1) by (simp add: BTSearchRecord_def IsItAHint_eq)
    show ?thesis
    proof (cases found)
      case True
      then obtain recs where r: "s' = s" "nd = Some (hint_nodeNum sit)" "(hint_nodeNum sit, recs) \<in> set (leaves t)"
        "i < length recs" "kval (recs ! i) = kval (it_key sit)" using h(3) by auto
      have mem: "recs ! i \<in> set (records t)" using records_leaf [OF r(3)] r(4) by simp
      obtain rit' where "BTSearchRecord_result io True (hint_nodeNum sit) (Some (hint_nodeNum sit)) i (Some rd) len sit' (Some rit) s =
             Some (noErr, Some (copied_record (btcb s) rd (recs ! i)), length (rec_data (btcb s) (recs ! i)), sit', Some rit', s)"
        "carries valid kval (kval (recs ! i)) rit'"
        using search_result_found [OF t r(3,4) b, of "hint_nodeNum sit" len sit'] by blast
      then show ?thesis using found_or_notI(1) [of "recs ! i" t kval "kval (it_key sit)" valid rit' s rd len sit'] mem r True eq by simp
    next
      case False
      then show ?thesis using search [OF _ h(2), of s'] h(3) eq by simp
    qed
  qed
qed

section \<open>A tree of one leaf\<close>

definition leaf_tree :: "byte list \<Rightarrow> btree" where
  "leaf_tree node =
     \<lparr>btcb = extents_btree, node_store = (\<lambda>n. if n = 1 then node else replicate 512 0), fcbEOF = 4096,
      damagedVolume = False\<rparr>"

lemma leaf_tree_in:
  assumes "16 + length (concat recs) + 2 * length recs \<le> 512" "\<forall>r \<in> set recs. 12 \<le> length r"
    and "sorted_wrt (<) (map extent_kval_plus recs)" "\<forall>r \<in> set recs. key_ok extents_btree (\<lambda>key. 12 \<le> length key) r"
  shows "\<exists>node. tree_in warm_cache (\<lambda>key. 12 \<le> length key) extent_kval_plus (leaf_tree node) (TLeaf 1 recs) \<and>
           descr node 0 0 kBTLeafNode 1"
proof -
  obtain node where node: "node_rep extents_btree 14 recs node" "descr node 0 0 kBTLeafNode 1"
    using make_node [of extents_btree recs 0 0 kBTLeafNode 1] assms(1) by (auto simp: extents_btree_size kBTLeafNode_def)
  have bt: "treeDepth extents_btree = 1" "rootNode extents_btree = 1" "nodeSize extents_btree = 512"
    "keyCompareProc extents_btree = CompareExtentKeysPlus"
    by (simp_all add: extents_btree_def small_btree_def)
  have len: "length node = 512" using node(1) bt by (simp add: node_rep_def)
  have leaf: "n = 1" if u: "usable_leaf (buf (leaf_tree node) n) = Some True" for n
  proof (rule ccontr)
    assume "n \<noteq> 1"
    then have "usable_leaf (replicate 512 0) = Some True" using u by (simp add: leaf_tree_def)
    then show False
      by (simp add: usable_leaf_def node_kind_def node_numRecords_def load_def slice_def kBTLeafNode_def)
  qed
  have "tree_in warm_cache (\<lambda>key. 12 \<le> length key) extent_kval_plus (leaf_tree node) (TLeaf 1 recs)"
  proof -
    have b: "btcb (leaf_tree node) = extents_btree" "buf (leaf_tree node) 1 = node" by (simp_all add: leaf_tree_def)
    have "store_ok (leaf_tree node)" using bt len by (simp add: store_ok_def leaf_tree_def)
    moreover have "holds (leaf_tree node) 1 (TLeaf 1 recs)" using node b by (simp add: node_at_def descr_def)
    moreover have "totalNodes extents_btree = 8" by (simp add: extents_btree_def small_btree_def)
    moreover have "records (TLeaf 1 recs) = recs" by (simp add: records_def)
    ultimately show ?thesis
      using assms(2-4) bt b leaf extent_keys_plus.key_order_axioms by (simp add: tree_in_def kMaxTreeDepth_def)
  qed
  then show ?thesis using node(2) by blast
qed

lemma extents_key_size: "CalcKeySize extents_btree ([10, 0, 0, 0, 16, 0, 0, 0, 5, 0, 0, 0] @ u) = Some 12"
  by (simp add: CalcKeySize_def extents_btree_def small_btree_def BigKeys_def kBTBigKeysMask_def load_def slice_def)

lemma extent_key_length: "12 \<le> length ([10, 0, 0, 0, 16, 0, 0, 0, 5, 0, 0, 0] :: byte list)"
  by simp

lemma extents_record_ok: "key_ok extents_btree (\<lambda>key. 12 \<le> length key) extents_record"
  unfolding key_ok_def extents_record_def extents_key_size by (simp add: sizeof_BTreeKey_def)

section \<open>Properties\<close>

text \<open>
  C28: on every searchable tree, \<^verbatim>\<open>BTSearchRecord\<close> returns, whatever the hint of the
  iterator says: it copies out the data of the record with the search key if the tree
  has one, and otherwise reports that the record was not found and copies nothing. The
  returned iterator carries the search key, and the tree is unchanged but for the mark
  of a damaged volume.
\<close>

theorem BTSearchRecord_correct:
  fixes kval :: "byte list \<Rightarrow> 'k :: linorder"
  assumes "tree_in io valid kval s t" "key_ok (btcb s) valid (it_key sit)" "length (it_key sit) = sizeof_BTreeKey"
    and "buffers_ok rd rit"
  shows "\<exists>sit' rit' s'. (s' = s \<or> s' = s\<lparr>damagedVolume := True\<rparr>) \<and> carries valid kval (kval (it_key sit)) rit' \<and>
           (if \<exists>r \<in> set (records t). kval r = kval (it_key sit)
            then \<exists>r \<in> set (records t). kval r = kval (it_key sit) \<and>
                   BTSearchRecord io sit (Some rd) len (Some rit) s =
                     Some (noErr, Some (copied_record (btcb s) rd r), length (rec_data (btcb s) r), sit', Some rit', s')
            else BTSearchRecord io sit (Some rd) len (Some rit) s =
                   Some (fsBTRecordNotFoundErr, Some rd, len, sit', Some rit', s'))"
proof -
  obtain r where "BTSearchRecord io sit (Some rd) len (Some rit) s = Some r"
    "found_or_not valid kval s t (kval (it_key sit)) rd len r"
    using BTSearchRecord_finds [OF assms] by blast
  then show ?thesis unfolding found_or_not_def by (elim exE conjE) (intro exI conjI; fastforce)
qed

definition start_key :: "byte list" where
  "start_key = [10, 0, 0, 0, 16, 0, 0, 0, 5, 0, 0, 0] @ replicate 510 0"

theorem BTSearchRecord_correct_witness:
  "\<exists>node sit' rit' s'.
     BTSearchRecord warm_cache
       \<lparr>hint_writeCount = 0, hint_nodeNum = 5, hint_index = 0, hitCount = 0, maxLeafRecs = 0, it_key = start_key\<rparr>
       (Some \<lparr>bufferAddress = replicate 64 1, itemSize = 64, itemCount = 1\<rparr>) 0
       (Some \<lparr>hint_writeCount = 0, hint_nodeNum = 0, hint_index = 0, hitCount = 0, maxLeafRecs = 0,
              it_key = replicate 522 0\<rparr>) (leaf_tree node) =
     Some (noErr, Some \<lparr>bufferAddress = replicate 64 0, itemSize = 64, itemCount = 1\<rparr>, 64, sit', Some rit', s') \<and>
     extent_kval_plus (it_key rit') = extent_kval_plus start_key"
proof -
  let ?v = "\<lambda>key :: byte list. 12 \<le> length key"
  let ?sit = "\<lparr>hint_writeCount = 0, hint_nodeNum = 5, hint_index = 0, hitCount = 0, maxLeafRecs = 0, it_key = start_key\<rparr>"
  let ?rit = "\<lparr>hint_writeCount = 0, hint_nodeNum = 0, hint_index = 0, hitCount = 0, maxLeafRecs = 0,
               it_key = replicate 522 (0 :: byte)\<rparr>"
  let ?rd = "\<lparr>bufferAddress = replicate 64 (1 :: byte), itemSize = 64, itemCount = 1\<rparr>"
  obtain node where t: "tree_in warm_cache ?v extent_kval_plus (leaf_tree node) (TLeaf 1 [extents_record])"
    using leaf_tree_in [of "[extents_record]"] extents_record_ok by (auto simp: extents_record_def)
  have bt: "btcb (leaf_tree node) = extents_btree" by (simp add: leaf_tree_def)
  have key: "key_ok extents_btree ?v start_key"
    unfolding key_ok_def start_key_def extents_key_size by (simp add: sizeof_BTreeKey_def)
  have "extent_kval_plus extents_record = extent_kval_plus start_key"
    using extent_keys_plus.prefix [of "[10, 0, 0, 0, 16, 0, 0, 0, 5, 0, 0, 0]"]
    unfolding extents_record_def start_key_def by (metis (no_types, lifting) extent_key_length)
  moreover have "copied_record extents_btree ?rd extents_record = \<lparr>bufferAddress = replicate 64 0, itemSize = 64, itemCount = 1\<rparr>"
    "length (rec_data extents_btree extents_record) = 64"
    unfolding copied_record_def rec_data_def extents_record_def extents_key_size by (simp_all add: overwrite_def)
  ultimately show ?thesis
    using BTSearchRecord_correct [OF t, of ?sit ?rd ?rit 0] bt key
    by (auto simp: buffers_ok_def sizeof_BTreeKey_def start_key_def records_def carries_def)
qed

end
