(* ===== verification/BTreeIterate.thy ===== *)
theory BTreeIterate
  imports BTreeAccess
begin

text \<open>
  Moving an iterator: \<^verbatim>\<open>BTIterateRecord\<close> of \<^verbatim>\<open>src/hfsplus/hfscommon/BTree/BTree.c\<close> and
  \<^verbatim>\<open>FindIteratorPosition\<close> of \<^verbatim>\<open>BTreeMiscOps.c\<close> beside it, which finds the place of the
  iterator's key, from its hint if possible. The leaves of a tree are linked both ways,
  and that is how the iteration gets from one to the next.

  Releasing a node never fails (\<open>ReleaseNode_ok\<close>), so the releases at the end of
  \<^verbatim>\<open>BTIterateRecord\<close>, which have no other effect, are left out.
\<close>

section \<open>\<open>FindIteratorPosition\<close>\<close>

text \<open>
  The outputs: status, left, middle and right node, node number, index, whether the
  record was found, and the tree.
\<close>

type_synonym position =
  "OSErr \<times> BlockDescriptor \<times> BlockDescriptor \<times> BlockDescriptor \<times> nat \<times> nat \<times> bool \<times> btree"

definition position_error :: "OSErr \<Rightarrow> btree \<Rightarrow> position" where
  "position_error err s = (err, None, None, None, 0, 0, False, s)"

definition SearchTheTree ::
  "buffer_cache \<Rightarrow> BTreeIterator \<Rightarrow> BlockDescriptor \<Rightarrow> BlockDescriptor \<Rightarrow> BlockDescriptor \<Rightarrow> btree \<Rightarrow>
   position option" where
  "SearchTheTree io iterator left middle right s = do {
     let (err1, left) = ReleaseNode io left;
     let (err2, middle) = ReleaseNode io middle;
     let (err3, right) = ReleaseNode io right;
     if err1 \<noteq> noErr then Some (position_error err1 s)
     else if err2 \<noteq> noErr then Some (position_error err2 s)
     else if err3 \<noteq> noErr then Some (position_error err3 s)
     else do {
       (err, treePathTable, nodeNum, middle, index, s) \<leftarrow> SearchTree io (it_key iterator) fresh_path s;
       if err = noErr \<or> err = fsBTRecordNotFoundErr
       then Some (noErr, left, middle, right, nodeNum, index, err = noErr, s)
       else Some (position_error err s)
     }
   }"

text \<open>The key is before the first record of the hinted node \<open>m\<close>.\<close>

definition position_left :: "buffer_cache \<Rightarrow> BTreeIterator \<Rightarrow> nat \<Rightarrow> btree \<Rightarrow> position option" where
  "position_left io iterator m s = do {
     nodeNum \<leftarrow> node_bLink (buf s m);
     if nodeNum = 0 then Some (noErr, None, Some m, None, hint_nodeNum iterator, 0, False, s)
     else do {
       (err, left, s) \<leftarrow> GetNode io nodeNum s;
       if err \<noteq> noErr then Some (position_error err s)
       else do {
         l \<leftarrow> left;
         ok \<leftarrow> usable_leaf (buf s l);
         if \<not> ok then SearchTheTree io iterator left (Some m) None s
         else do {
           (foundIt, leftIndex) \<leftarrow> SearchNode (btcb s) (buf s l) (it_key iterator);
           num \<leftarrow> node_numRecords (buf s l);
           fLink \<leftarrow> node_fLink (buf s l);
           if foundIt then Some (noErr, None, left, Some m, nodeNum, leftIndex, True, s)
           else if leftIndex = 0 then SearchTheTree io iterator left (Some m) None s
           else if leftIndex \<ge> num then Some (noErr, left, Some m, None, fLink, 0, False, s)
           else Some (noErr, None, left, Some m, nodeNum, leftIndex, False, s)
         }
       }
     }
   }"

text \<open>The key is after the last record of the hinted node \<open>m\<close>.\<close>

definition position_right :: "buffer_cache \<Rightarrow> BTreeIterator \<Rightarrow> nat \<Rightarrow> nat \<Rightarrow> btree \<Rightarrow> position option" where
  "position_right io iterator m index s = do {
     nodeNum \<leftarrow> node_fLink (buf s m);
     if nodeNum = 0 then Some (noErr, None, Some m, None, hint_nodeNum iterator, index, False, s)
     else do {
       (err, right, s) \<leftarrow> GetNode io nodeNum s;
       if err \<noteq> noErr then Some (position_error err s)
       else do {
         r \<leftarrow> right;
         ok \<leftarrow> usable_leaf (buf s r);
         if \<not> ok then SearchTheTree io iterator None (Some m) right s
         else do {
           (foundIt, rightIndex) \<leftarrow> SearchNode (btcb s) (buf s r) (it_key iterator);
           num \<leftarrow> node_numRecords (buf s r);
           if rightIndex \<ge> num then SearchTheTree io iterator None (Some m) right s
           else Some (noErr, Some m, right, None, nodeNum, rightIndex, foundIt, s)
         }
       }
     }
   }"

definition FindIteratorPosition :: "buffer_cache \<Rightarrow> BTreeIterator option \<Rightarrow> btree \<Rightarrow> position option" where
  "FindIteratorPosition io iter s =
     (case iter of
        None \<Rightarrow> Some (position_error fsBTInvalidIteratorErr s)
      | Some iterator \<Rightarrow> do {
          let (err, validHint) = IsItAHint (btcb s) iterator;
          let nodeNum = hint_nodeNum iterator;
          if err \<noteq> noErr then Some (position_error err s)
          else if \<not> validHint then SearchTheTree io iterator None None None s
          else do {
            (err, middle, s) \<leftarrow> GetNode io nodeNum s;
            if err = fsBTInvalidNodeErr then SearchTheTree io iterator None middle None s
            else if err \<noteq> noErr then Some (position_error err s)
            else do {
              m \<leftarrow> middle;
              ok \<leftarrow> usable_leaf (buf s m);
              if \<not> ok then SearchTheTree io iterator None middle None s
              else do {
                (foundIt, index) \<leftarrow> SearchNode (btcb s) (buf s m) (it_key iterator);
                num \<leftarrow> node_numRecords (buf s m);
                if foundIt then Some (noErr, None, middle, None, nodeNum, index, True, s)
                else if index = 0 then position_left io iterator m s
                else if index \<ge> num then position_right io iterator m index s
                else SearchTheTree io iterator None middle None s
              }
            }
          }
        })"

section \<open>\<open>BTIterateRecord\<close>\<close>

text \<open>The outputs: status, record buffer, record length, iterator and tree.\<close>

type_synonym bt_iterate = "OSErr \<times> FSBufferDescriptor option \<times> nat \<times> BTreeIterator option \<times> btree"

definition BTIterateRecord_error ::
  "OSErr \<Rightarrow> FSBufferDescriptor option \<Rightarrow> BTreeIterator option \<Rightarrow> btree \<Rightarrow> bt_iterate option" where
  "BTIterateRecord_error err record iterator s = do {
     iterator \<leftarrow> (case iterator of None \<Rightarrow> Some None | Some it \<Rightarrow> map_option Some (clear_iterator it));
     Some (if err = fsBTEmptyErr \<or> err = fsBTEndOfIterationErr then fsBTRecordNotFoundErr else err,
           record, 0, iterator, s)
   }"

text \<open>From the label \<^verbatim>\<open>CopyData\<close> on.\<close>

definition CopyData ::
  "nat \<Rightarrow> nat \<Rightarrow> BlockDescriptor \<Rightarrow> nat \<Rightarrow> FSBufferDescriptor option \<Rightarrow> BTreeIterator option \<Rightarrow> btree \<Rightarrow>
   bt_iterate option" where
  "CopyData operation nodeNum node index record iterator s = do {
     nd \<leftarrow> node;
     r \<leftarrow> GetRecordByIndex (btcb s) (buf s nd) index;
     case r of
       Inl err \<Rightarrow> BTIterateRecord_error err record iterator s
     | Inr (keyPtr, recordPtr, len) \<Rightarrow> do {
         record \<leftarrow> copy_record record (buf s nd) recordPtr len;
         iterator \<leftarrow>
           (case iterator of
              None \<Rightarrow> Some None
            | Some it \<Rightarrow> do {
                n \<leftarrow> CalcKeySize (btcb s) (drop keyPtr (buf s nd));
                k \<leftarrow> BlockMoveData (buf s nd) keyPtr (it_key it) n;
                let hits = (if operation = kBTreeFirstRecord \<or> operation = kBTreeLastRecord then 1
                            else if operation \<noteq> kBTreeCurrentRecord then u32_add (hitCount it) 1
                            else hitCount it);
                Some (Some (it\<lparr>hint_writeCount := writeCount (btcb s), hint_nodeNum := nodeNum,
                              hint_index := index, hitCount := hits,
                              maxLeafRecs := max (leafRecords (btcb s)) (maxLeafRecs it), it_key := k\<rparr>))
              });
         Some (noErr, record, len, iterator, s)
       }
   }"

definition BTIterateRecord ::
  "buffer_cache \<Rightarrow> nat \<Rightarrow> BTreeIterator option \<Rightarrow> FSBufferDescriptor option \<Rightarrow> btree \<Rightarrow> bt_iterate option" where
  "BTIterateRecord io operation iterator record s =
     (let fail = (\<lambda>err. BTIterateRecord_error err record iterator)
      in if operation \<notin> {kBTreeFirstRecord, kBTreeNextRecord, kBTreeCurrentRecord, kBTreePrevRecord, kBTreeLastRecord}
         then fail fsInvalidIterationMovmentErr s
         else if operation = kBTreeFirstRecord \<or> operation = kBTreeLastRecord then do {
           let nodeNum = (if operation = kBTreeFirstRecord then firstLeafNode (btcb s) else lastLeafNode (btcb s));
           if nodeNum = 0 then fail fsBTEmptyErr s
           else do {
             (err, node, s) \<leftarrow> GetNode io nodeNum s;
             if err \<noteq> noErr then fail err s
             else do {
               nd \<leftarrow> node;
               ok \<leftarrow> usable_leaf (buf s nd);
               if \<not> ok then do {
                 let (err, node) = ReleaseNode io node;
                 if err \<noteq> noErr then fail err s else fail fsBTInvalidNodeErr (s\<lparr>damagedVolume := True\<rparr>)
               }
               else do {
                 num \<leftarrow> node_numRecords (buf s nd);
                 CopyData operation nodeNum node (if operation = kBTreeFirstRecord then 0 else num - 1) record iterator s
               }
             }
           }
         }
         else do {
           (err, left, node, right, nodeNum, index, foundRecord, s) \<leftarrow> FindIteratorPosition io iterator s;
           if err \<noteq> noErr then fail err s
           else do {
             nd \<leftarrow> node;
             num \<leftarrow> node_numRecords (buf s nd);
             fLink \<leftarrow> node_fLink (buf s nd);
             bLink \<leftarrow> node_bLink (buf s nd);
             if operation = kBTreePrevRecord then
               if index > 0 then CopyData operation nodeNum node (index - 1) record iterator s
               else do {
                 (err, nodeNum, left, s) \<leftarrow>
                   (if left \<noteq> None then Some (noErr, nodeNum, left, s)
                    else if bLink > 0 then do {
                      (err, left, s) \<leftarrow> GetNode io bLink s;
                      Some (err, bLink, left, s)
                    }
                    else Some (fsBTStartOfIterationErr, bLink, None, s));
                 if err \<noteq> noErr then fail err s
                 else do {
                   l \<leftarrow> left;
                   num \<leftarrow> node_numRecords (buf s l);
                   CopyData operation nodeNum left (u16_sub num 1) record iterator s
                 }
               }
             else if operation = kBTreeNextRecord then
               if \<not> foundRecord \<and> fLink = 0 \<and> index = num then fail fsBTEndOfIterationErr s
               else if \<not> foundRecord \<and> index \<noteq> num then CopyData operation nodeNum node index record iterator s
               else if index + 1 < num then CopyData operation nodeNum node (index + 1) record iterator s
               else do {
                 (err, nodeNum, right, s) \<leftarrow>
                   (if right \<noteq> None then Some (noErr, nodeNum, right, s)
                    else if fLink > 0 then do {
                      (err, right, s) \<leftarrow> GetNode io fLink s;
                      Some (err, fLink, right, s)
                    }
                    else Some (fsBTEndOfIterationErr, fLink, None, s));
                 if err \<noteq> noErr then fail err s
                 else CopyData operation nodeNum right 0 record iterator s
               }
             else if \<not> foundRecord \<and> index \<ge> num then fail fsBTEndOfIterationErr s
             else CopyData operation nodeNum node index record iterator s
           }
         })"

section \<open>The leaves in order\<close>

lemma records_index: "records (TIndex m ch) = concat (map (records \<circ> snd) ch)"
  by (induction ch) (auto simp: records_def)

text \<open>Where the key \<open>k\<close> is or belongs: the number of a leaf in their list and an index in it.\<close>

definition at_key ::
  "(byte list \<Rightarrow> 'k :: linorder) \<Rightarrow> 'k \<Rightarrow> (nat \<times> byte list list) list \<Rightarrow> nat \<Rightarrow> nat \<Rightarrow> bool" where
  "at_key kval k lvs j i \<longleftrightarrow>
     j < length lvs \<and> i \<le> length (snd (lvs ! j)) \<and>
     (\<forall>r \<in> set (concat (map snd (take j lvs)) @ take i (snd (lvs ! j))). kval r < k) \<and>
     (\<forall>r \<in> set (drop i (snd (lvs ! j))). k \<le> kval r) \<and>
     (\<forall>r \<in> set (concat (map snd (drop (Suc j) lvs))). k < kval r)"

lemma key_position_at:
  assumes "key_position kval k lvs n i"
  shows "\<exists>j. fst (lvs ! j) = n \<and> at_key kval k lvs j i"
proof -
  obtain pre recs post where "lvs = pre @ (n, recs) # post" "i \<le> length recs"
    "\<forall>r \<in> set (concat (map snd pre) @ take i recs). kval r < k"
    "\<forall>r \<in> set (drop i recs). k \<le> kval r" "\<forall>r \<in> set (concat (map snd post)). k < kval r"
    using assms unfolding key_position_def by (elim exE conjE)
  then show ?thesis by (intro exI [of _ "length pre"]) (auto simp: at_key_def)
qed

lemma concat_split:
  assumes "j < length lvs"
  shows "concat (map snd lvs) = concat (map snd (take j lvs)) @ snd (lvs ! j) @ concat (map snd (drop (Suc j) lvs))"
  using arg_cong [OF id_take_nth_drop [OF assms], of "\<lambda>l. concat (map snd l)"] by simp

lemma sorted_around: "sorted_wrt R (xs @ y # zs) \<Longrightarrow> (\<forall>x \<in> set xs. R x y) \<and> (\<forall>z \<in> set zs. R y z)"
  by (simp add: sorted_wrt_append)

lemma records_around:
  fixes kval :: "byte list \<Rightarrow> 'k :: linorder"
  assumes sorted: "sorted_wrt (<) (map kval (concat (map snd lvs)))" and j: "j < length lvs" "i < length (snd (lvs ! j))"
  shows "\<forall>r \<in> set (concat (map snd (take j lvs)) @ take i (snd (lvs ! j))). kval r < kval (snd (lvs ! j) ! i)"
    "\<forall>r \<in> set (drop (Suc i) (snd (lvs ! j)) @ concat (map snd (drop (Suc j) lvs))). kval (snd (lvs ! j) ! i) < kval r"
proof -
  let ?recs = "snd (lvs ! j)" and ?A = "concat (map snd (take j lvs))" and ?B = "concat (map snd (drop (Suc j) lvs))"
  have "?A @ ?recs @ ?B = (?A @ take i ?recs) @ ?recs ! i # (drop (Suc i) ?recs @ ?B)"
    using arg_cong [OF id_take_nth_drop [OF j(2)], of "\<lambda>l. ?A @ l @ ?B"] by (simp only: append_assoc append_Cons)
  then have "sorted_wrt (\<lambda>x y. kval x < kval y) ((?A @ take i ?recs) @ ?recs ! i # (drop (Suc i) ?recs @ ?B))"
    using sorted unfolding concat_split [OF j(1)] sorted_wrt_map by (simp only:)
  then show "\<forall>r \<in> set (?A @ take i ?recs). kval r < kval (?recs ! i)"
    "\<forall>r \<in> set (drop (Suc i) ?recs @ ?B). kval (?recs ! i) < kval r"
    using sorted_around [of "\<lambda>x y. kval x < kval y" "?A @ take i ?recs" "?recs ! i" "drop (Suc i) ?recs @ ?B"] by simp_all
qed

text \<open>
  So one record on either side of a place is enough to know that the key belongs
  there.
\<close>

lemma below_place:
  fixes kval :: "byte list \<Rightarrow> 'k :: linorder"
  assumes "sorted_wrt (<) (map kval (concat (map snd lvs)))" "j < length lvs" "i < length (snd (lvs ! j))"
    and k: "kval (snd (lvs ! j) ! i) < k"
  shows "\<forall>r \<in> set (concat (map snd (take j lvs)) @ take (Suc i) (snd (lvs ! j))). kval r < k"
proof -
  have "\<forall>r \<in> set (concat (map snd (take j lvs)) @ take i (snd (lvs ! j))). kval r < k"
    using records_around(1) [OF assms(1-3)] k by (meson less_trans)
  then show ?thesis using k assms(3) by (simp add: take_Suc_conv_app_nth ball_Un)
qed

lemma above_place:
  fixes kval :: "byte list \<Rightarrow> 'k :: linorder"
  assumes "sorted_wrt (<) (map kval (concat (map snd lvs)))" "j < length lvs" "i < length (snd (lvs ! j))"
    and k: "k \<le> kval (snd (lvs ! j) ! i)"
  shows "(\<forall>r \<in> set (drop i (snd (lvs ! j))). k \<le> kval r) \<and> (\<forall>r \<in> set (concat (map snd (drop (Suc j) lvs))). k < kval r)"
proof -
  have "\<forall>r \<in> set (drop (Suc i) (snd (lvs ! j)) @ concat (map snd (drop (Suc j) lvs))). k < kval r"
    using records_around(2) [OF assms(1-3)] k by (meson le_less_trans)
  then show ?thesis
    using k unfolding Cons_nth_drop_Suc [OF assms(3), symmetric] set_append by (simp add: ball_Un less_imp_le)
qed

lemma at_key_sorted:
  fixes kval :: "byte list \<Rightarrow> 'k :: linorder"
  assumes sorted: "sorted_wrt (<) (map kval (concat (map snd lvs)))" and j: "j < length lvs" "i \<le> length (snd (lvs ! j))"
    and below: "0 < i \<and> kval (snd (lvs ! j) ! (i - 1)) < k \<or>
      i < length (snd (lvs ! j)) \<and> kval (snd (lvs ! j) ! i) = k \<or>
      i = 0 \<and> (\<forall>r \<in> set (concat (map snd (take j lvs))). kval r < k)"
    and above: "i < length (snd (lvs ! j)) \<and> k \<le> kval (snd (lvs ! j) ! i) \<or>
      i = length (snd (lvs ! j)) \<and> (\<forall>r \<in> set (concat (map snd (drop (Suc j) lvs))). k < kval r)"
  shows "at_key kval k lvs j i"
proof -
  have "\<forall>r \<in> set (concat (map snd (take j lvs)) @ take i (snd (lvs ! j))). kval r < k"
    using below
  proof (elim disjE conjE)
    assume "0 < i" "kval (snd (lvs ! j) ! (i - 1)) < k"
    then show ?thesis using below_place [OF sorted j(1), of "i - 1"] j(2) by simp
  next
    assume "i < length (snd (lvs ! j))" "kval (snd (lvs ! j) ! i) = k"
    then show ?thesis using records_around(1) [OF sorted j(1), of i] by simp
  qed simp
  moreover have "(\<forall>r \<in> set (drop i (snd (lvs ! j))). k \<le> kval r) \<and>
      (\<forall>r \<in> set (concat (map snd (drop (Suc j) lvs))). k < kval r)"
    using above
  proof (elim disjE conjE)
    assume "i < length (snd (lvs ! j))" "k \<le> kval (snd (lvs ! j) ! i)"
    then show ?thesis by (rule above_place [OF sorted j(1)])
  qed simp
  ultimately show ?thesis using j by (simp only: at_key_def)
qed

lemma ordered_records:
  fixes kval :: "byte list \<Rightarrow> 'k :: linorder"
  shows "ordered valid kval t \<Longrightarrow> sorted_wrt (<) (map kval (records t))"
proof (induction t rule: tnode_induct)
  case (TLeaf n recs)
  then show ?case by (simp add: records_def)
next
  case (TIndex m ch)
  have IH: "q \<in> set ch \<Longrightarrow> sorted_wrt (<) (map kval (records (snd q)))" for q
    using TIndex.IH ordered_child [OF TIndex.prems] by blast
  have lo: "q \<in> set ch \<Longrightarrow> x \<in> set (records (snd q)) \<Longrightarrow> kval (fst q) \<le> kval x" for q x
    using TIndex.prems by (auto simp: case_prod_unfold)
  have sw: "sorted_wrt (\<lambda>q q'. \<forall>x \<in> set (records (snd q)). kval x < kval (fst q')) ch"
    using TIndex.prems by (auto simp: case_prod_unfold elim!: sorted_wrt_mono_rel [rotated])
  have "sorted_wrt (<) (map kval (concat (map (records \<circ> snd) ch)))"
    using IH lo sw
  proof (induction ch)
    case (Cons q ch)
    have "kval x < kval y" if x: "x \<in> set (records (snd q))" and q': "q' \<in> set ch" "y \<in> set (records (snd q'))" for x y q'
    proof -
      have "kval x < kval (fst q')" using Cons.prems(3) x q'(1) by simp
      also have "\<dots> \<le> kval y" using Cons.prems(2) q' by simp
      finally show ?thesis .
    qed
    then show ?case using Cons by (auto simp: sorted_wrt_append)
  qed simp
  then show ?case by (simp only: records_index)
qed

lemma at_key_found:
  fixes kval :: "byte list \<Rightarrow> 'k :: linorder"
  assumes sorted: "sorted_wrt (<) (map kval (concat (map snd lvs)))" and at: "at_key kval k lvs j i"
  shows "(\<exists>r \<in> set (concat (map snd lvs)). kval r = k) \<longleftrightarrow>
           i < length (snd (lvs ! j)) \<and> kval (snd (lvs ! j) ! i) = k"
proof -
  define A where "A = concat (map snd (take j lvs))"
  define B where "B = concat (map snd (drop (Suc j) lvs))"
  define recs where "recs = snd (lvs ! j)"
  have at': "j < length lvs" "\<forall>r \<in> set (A @ take i recs). kval r < k" "\<forall>r \<in> set (drop i recs). k \<le> kval r"
    "\<forall>r \<in> set B. k < kval r" using at unfolding at_key_def A_def B_def recs_def by simp_all
  have "concat (map snd lvs) = A @ recs @ B" using concat_split [OF at'(1)] by (simp add: A_def B_def recs_def)
  then have eq: "concat (map snd lvs) = (A @ take i recs) @ drop i recs @ B" by simp
  then have ex: "(\<exists>r \<in> set (concat (map snd lvs)). kval r = k) \<longleftrightarrow> (\<exists>r \<in> set (drop i recs). kval r = k)"
    using at'(2-4) unfolding eq set_append by (auto simp: ball_Un)
  have sw: "sorted_wrt (\<lambda>x y. kval x < kval y) ((A @ take i recs) @ drop i recs @ B)"
    using sorted unfolding eq sorted_wrt_map .
  show ?thesis
  proof (cases "drop i recs")
    case (Cons x xs)
    then have i: "i < length recs" "recs ! i = x" by (cases "i < length recs"; simp; metis hd_drop_conv_nth list.sel(1))+
    have "\<forall>y \<in> set xs. kval x < kval y"
      using sorted_around [of "\<lambda>x y. kval x < kval y" "A @ take i recs" x "xs @ B"] sw Cons by simp
    then have "(\<exists>r \<in> set (drop i recs). kval r = k) \<longleftrightarrow> kval x = k" using at'(3) Cons by fastforce
    then show ?thesis using ex i by (simp add: recs_def)
  qed (use ex in \<open>simp add: recs_def\<close>)
qed

section \<open>Finding the place of the iterator\<close>

text \<open>Leaves that are linked to their neighbours, and not empty.\<close>

definition leaf_chain :: "btree \<Rightarrow> (nat \<times> byte list list) list \<Rightarrow> bool" where
  "leaf_chain s lvs \<longleftrightarrow>
     (\<forall>j < length lvs. snd (lvs ! j) \<noteq> [] \<and>
        node_bLink (buf s (fst (lvs ! j))) = Some (if j = 0 then 0 else fst (lvs ! (j - 1))) \<and>
        node_fLink (buf s (fst (lvs ! j))) = Some (if Suc j < length lvs then fst (lvs ! Suc j) else 0))"

definition placed ::
  "(byte list \<Rightarrow> 'k :: linorder) \<Rightarrow> 'k \<Rightarrow> (nat \<times> byte list list) list \<Rightarrow> btree \<Rightarrow> position \<Rightarrow> bool" where
  "placed kval k lvs s p \<longleftrightarrow>
     (\<exists>left right num i j. p = (noErr, left, Some (fst (lvs ! j)), right, num, i,
          i < length (snd (lvs ! j)) \<and> kval (snd (lvs ! j) ! i) = k, s) \<and>
        at_key kval k lvs j i \<and>
        (left = None \<or> 0 < j \<and> left = Some (fst (lvs ! (j - 1)))) \<and>
        (right = None \<or> Suc j < length lvs \<and> right = Some (fst (lvs ! Suc j))))"

lemma tree_in_sorted:
  "tree_in io valid kval s t \<Longrightarrow> sorted_wrt (<) (map kval (concat (map snd (leaves t))))"
  using ordered_records [of valid kval t] by (simp add: tree_in_def records_def)

lemma placedI:
  "at_key kval k lvs j i \<Longrightarrow> m = Some (fst (lvs ! j)) \<Longrightarrow>
   found = (i < length (snd (lvs ! j)) \<and> kval (snd (lvs ! j) ! i) = k) \<Longrightarrow>
   left = None \<or> 0 < j \<and> left = Some (fst (lvs ! (j - 1))) \<Longrightarrow>
   right = None \<or> Suc j < length lvs \<and> right = Some (fst (lvs ! Suc j)) \<Longrightarrow>
   placed kval k lvs s (noErr, left, m, right, num, i, found, s)"
  unfolding placed_def by blast

lemma SearchTheTree_placed:
  assumes t: "tree_in io valid kval s t" and key: "valid (it_key it)"
  shows "\<exists>p. SearchTheTree io it l m r s = Some p \<and> placed kval (kval (it_key it)) (leaves t) s p"
proof -
  obtain err tp n nd i s' where st: "SearchTree io (it_key it) fresh_path s = Some (err, tp, n, nd, i, s')"
    and sr: "search_result kval (kval (it_key it)) (treeDepth (btcb s)) t (fresh_path(0 := (0, 0))) s (err, tp, n, nd, i, s')"
    using tree_in_search [OF t key, of fresh_path] by (metis surj_pair)
  then obtain found where f: "err = (if found then noErr else fsBTRecordNotFoundErr)" "nd = Some n" "s' = s"
    "key_position kval (kval (it_key it)) (leaves t) n i"
    "found \<longleftrightarrow> (\<exists>x \<in> set (records t). kval x = kval (it_key it))"
    unfolding search_result_def by auto
  obtain j where j: "fst (leaves t ! j) = n" "at_key kval (kval (it_key it)) (leaves t) j i"
    using key_position_at [OF f(4)] by blast
  note fd = at_key_found [OF tree_in_sorted [OF t] j(2)]
  have ne: "noErr \<noteq> fsBTRecordNotFoundErr" by (simp add: fsBTRecordNotFoundErr_def oserr_defs)
  have "placed kval (kval (it_key it)) (leaves t) s (noErr, None, nd, None, n, i, found, s)"
    using f(2,5) fd j(1) by (intro placedI [OF j(2)]) (simp_all add: records_def)
  then show ?thesis using st f(1,3) ne by (cases found) (simp_all add: SearchTheTree_def)
qed

lemma leaf_read:
  assumes t: "tree_in io valid kval s t" "leaf_chain s (leaves t)" and j: "j < length (leaves t)"
  defines "n \<equiv> fst (leaves t ! j)" and "recs \<equiv> snd (leaves t ! j)"
  shows "(n, recs) \<in> set (leaves t)" "n \<noteq> 0" "recs \<noteq> []" "GetNode io n s = Some (noErr, Some n, s)"
    "usable_leaf (buf s n) = Some True" "node_numRecords (buf s n) = Some (length recs)" "length recs < 2 ^ 16"
    "node_bLink (buf s n) = Some (if j = 0 then 0 else fst (leaves t ! (j - 1)))"
    "node_fLink (buf s n) = Some (if Suc j < length (leaves t) then fst (leaves t ! Suc j) else 0)"
proof -
  show mem: "(n, recs) \<in> set (leaves t)" using j by (simp add: n_def recs_def)
  note l = tree_in_leaf [OF t(1) mem]
  show "n \<noteq> 0" using l(1) by (simp add: node_at_def)
  show ne: "recs \<noteq> []" using t(2) j by (simp add: leaf_chain_def recs_def)
  show "GetNode io n s = Some (noErr, Some n, s)" using GetNode_readable l(4) by blast
  have rep: "node_rep (btcb s) 14 recs (buf s n)" using l(1) by (simp add: node_at_def)
  then show num: "node_numRecords (buf s n) = Some (length recs)" by (simp add: node_rep_def)
  show "usable_leaf (buf s n) = Some True" using num l(1) ne by (simp add: usable_leaf_def node_at_def)
  show "length recs < 2 ^ 16" using rep by (simp add: node_rep_def)
  show "node_bLink (buf s n) = Some (if j = 0 then 0 else fst (leaves t ! (j - 1)))"
    "node_fLink (buf s n) = Some (if Suc j < length (leaves t) then fst (leaves t ! Suc j) else 0)"
    using t(2) j by (simp_all add: leaf_chain_def n_def)
qed

lemma leaf_search:
  fixes kval :: "byte list \<Rightarrow> 'k :: linorder"
  assumes t: "tree_in io valid kval s t" and j: "j < length (leaves t)" and key: "valid key"
  defines "recs \<equiv> snd (leaves t ! j)"
  obtains found i where "SearchNode (btcb s) (buf s (fst (leaves t ! j))) key = Some (found, i)" "i \<le> length recs"
    "\<And>m. m < i \<Longrightarrow> kval (recs ! m) < kval key"
    "\<And>m. i \<le> m \<Longrightarrow> m < length recs \<Longrightarrow> kval key \<le> kval (recs ! m)"
    "found \<longleftrightarrow> i < length recs \<and> kval (recs ! i) = kval key"
proof -
  have "(fst (leaves t ! j), recs) \<in> set (leaves t)" using j by (simp add: recs_def)
  from SearchNode_in_leaf [OF t this key] that show ?thesis by blast
qed

lemma position_left_placed:
  fixes kval :: "byte list \<Rightarrow> 'k :: linorder"
  assumes t: "tree_in io valid kval s t" "leaf_chain s (leaves t)" and j: "j < length (leaves t)" and key: "valid (it_key it)"
    and above: "kval (it_key it) < kval (snd (leaves t ! j) ! 0)"
  shows "\<exists>p. position_left io it (fst (leaves t ! j)) s = Some p \<and> placed kval (kval (it_key it)) (leaves t) s p"
proof -
  let ?L = "leaves t" and ?k = "kval (it_key it)"
  note l = leaf_read [OF t j] and so = tree_in_sorted [OF t(1)]
  have place: "at_key kval ?k ?L j 0" if "\<forall>r \<in> set (concat (map snd (take j ?L))). kval r < ?k"
    using that above l(3) by (intro at_key_sorted [OF so j]) (auto simp: less_imp_le)
  show ?thesis
  proof (cases j)
    case 0
    then have "position_left io it (fst (?L ! j)) s = Some (noErr, None, Some (fst (?L ! j)), None, hint_nodeNum it, 0, False, s)"
      using l(8) by (simp add: position_left_def)
    moreover have "placed kval ?k ?L s (noErr, None, Some (fst (?L ! j)), None, hint_nodeNum it, 0, False, s)"
      using place 0 above by (intro placedI [of kval ?k ?L j]) auto
    ultimately show ?thesis by blast
  next
    case (Suc j')
    then have j': "j' < length ?L" using j by simp
    note l' = leaf_read [OF t j']
    obtain found i where sn: "SearchNode (btcb s) (buf s (fst (?L ! j'))) (it_key it) = Some (found, i)"
      "i \<le> length (snd (?L ! j'))" "\<And>m. m < i \<Longrightarrow> kval (snd (?L ! j') ! m) < ?k"
      "\<And>m. i \<le> m \<Longrightarrow> m < length (snd (?L ! j')) \<Longrightarrow> ?k \<le> kval (snd (?L ! j') ! m)"
      "found \<longleftrightarrow> i < length (snd (?L ! j')) \<and> kval (snd (?L ! j') ! i) = ?k"
      using leaf_search [OF t(1) j' key] by metis
    have eq: "position_left io it (fst (?L ! j)) s =
       (if found then Some (noErr, None, Some (fst (?L ! j')), Some (fst (?L ! j)), fst (?L ! j'), i, True, s)
        else if i = 0 then SearchTheTree io it (Some (fst (?L ! j'))) (Some (fst (?L ! j))) None s
        else if i \<ge> length (snd (?L ! j'))
        then Some (noErr, Some (fst (?L ! j')), Some (fst (?L ! j)), None, fst (?L ! Suc j'), 0, False, s)
        else Some (noErr, None, Some (fst (?L ! j')), Some (fst (?L ! j)), fst (?L ! j'), i, False, s))"
      using l(8) Suc l' sn(1) j by (simp add: position_left_def)
    consider (lost) "\<not> found" "i = 0" | (here) "i < length (snd (?L ! j'))" "found \<or> 0 < i" | (between) "\<not> found" "i = length (snd (?L ! j'))"
      using sn(2,5) l'(3) by (cases found; cases "i = 0"; cases "i = length (snd (?L ! j'))") auto
    then show ?thesis
    proof cases
      case lost
      then show ?thesis using SearchTheTree_placed [OF t(1) key] unfolding eq by simp
    next
      case here
      have "at_key kval ?k ?L j' i"
        using here sn(2,5) sn(3) [of "i - 1"] sn(4) [of i] by (intro at_key_sorted [OF so j']) auto
      from placedI [OF this] have "placed kval ?k ?L s (noErr, None, Some (fst (?L ! j')), Some (fst (?L ! j)), fst (?L ! j'), i, found, s)"
        using sn(5) Suc j by blast
      then show ?thesis using here unfolding eq by (cases found) auto
    next
      case between
      then have "\<forall>r \<in> set (concat (map snd (take j' ?L)) @ snd (?L ! j')). kval r < ?k"
        using below_place [OF so j', of "i - 1" ?k] sn(3) [of "i - 1"] l'(3) by simp
      then have "at_key kval ?k ?L j 0" using Suc j' by (intro place) (simp add: take_Suc_conv_app_nth)
      then have "placed kval ?k ?L s (noErr, Some (fst (?L ! j')), Some (fst (?L ! j)), None, fst (?L ! Suc j'), 0, False, s)"
        by (rule placedI) (use Suc above in auto)
      then show ?thesis using between l'(3) unfolding eq by auto
    qed
  qed
qed

lemma position_right_placed:
  fixes kval :: "byte list \<Rightarrow> 'k :: linorder"
  assumes t: "tree_in io valid kval s t" "leaf_chain s (leaves t)" and j: "j < length (leaves t)" and key: "valid (it_key it)"
    and below: "kval (last (snd (leaves t ! j))) < kval (it_key it)"
  shows "\<exists>p. position_right io it (fst (leaves t ! j)) (length (snd (leaves t ! j))) s = Some p \<and>
           placed kval (kval (it_key it)) (leaves t) s p"
proof -
  let ?L = "leaves t" and ?k = "kval (it_key it)"
  let ?num = "length (snd (?L ! j))"
  note l = leaf_read [OF t j] and so = tree_in_sorted [OF t(1)]
  have last: "kval (snd (?L ! j) ! (?num - 1)) < ?k" "0 < ?num" using below l(3) by (simp_all add: last_conv_nth)
  show ?thesis
  proof (cases "Suc j < length ?L")
    case False
    then have "position_right io it (fst (?L ! j)) ?num s =
        Some (noErr, None, Some (fst (?L ! j)), None, hint_nodeNum it, ?num, False, s)"
      using l(9) by (simp add: position_right_def)
    moreover have "at_key kval ?k ?L j ?num"
      using last False by (intro at_key_sorted [OF so j]) auto
    then have "placed kval ?k ?L s (noErr, None, Some (fst (?L ! j)), None, hint_nodeNum it, ?num, False, s)"
      by (rule placedI) simp_all
    ultimately show ?thesis by blast
  next
    case True
    note l' = leaf_read [OF t True]
    obtain found i where sn: "SearchNode (btcb s) (buf s (fst (?L ! Suc j))) (it_key it) = Some (found, i)"
      "i \<le> length (snd (?L ! Suc j))" "\<And>m. m < i \<Longrightarrow> kval (snd (?L ! Suc j) ! m) < ?k"
      "\<And>m. i \<le> m \<Longrightarrow> m < length (snd (?L ! Suc j)) \<Longrightarrow> ?k \<le> kval (snd (?L ! Suc j) ! m)"
      "found \<longleftrightarrow> i < length (snd (?L ! Suc j)) \<and> kval (snd (?L ! Suc j) ! i) = ?k"
      using leaf_search [OF t(1) True key] by metis
    have eq: "position_right io it (fst (?L ! j)) ?num s =
       (if i \<ge> length (snd (?L ! Suc j)) then SearchTheTree io it None (Some (fst (?L ! j))) (Some (fst (?L ! Suc j))) s
        else Some (noErr, Some (fst (?L ! j)), Some (fst (?L ! Suc j)), None, fst (?L ! Suc j), i, found, s))"
      using l(9) True l'(2,4-6) sn(1) by (simp add: position_right_def)
    show ?thesis
    proof (cases "i \<ge> length (snd (?L ! Suc j))")
      case True
      then show ?thesis using SearchTheTree_placed [OF t(1) key] unfolding eq by simp
    next
      case False
      have "\<forall>r \<in> set (concat (map snd (take j ?L)) @ snd (?L ! j)). kval r < ?k"
        using below_place [OF so j, of "?num - 1" ?k] last by simp
      then have "at_key kval ?k ?L (Suc j) i"
        using False sn(2) sn(3) [of "i - 1"] sn(4) [of i] j
        by (intro at_key_sorted [OF so True]) (auto simp: take_Suc_conv_app_nth)
      then have "placed kval ?k ?L s (noErr, Some (fst (?L ! j)), Some (fst (?L ! Suc j)), None, fst (?L ! Suc j), i, found, s)"
        by (rule placedI) (simp_all add: sn(5))
      then show ?thesis using False unfolding eq by simp
    qed
  qed
qed

lemma FindIteratorPosition_placed:
  fixes kval :: "byte list \<Rightarrow> 'k :: linorder"
  assumes t: "tree_in io valid kval s t" "leaf_chain s (leaves t)" and key: "valid (it_key it)"
    and h: "snd (IsItAHint (btcb s) it) \<Longrightarrow> readable io s (hint_nodeNum it)"
  shows "\<exists>p. FindIteratorPosition io (Some it) s = Some p \<and> placed kval (kval (it_key it)) (leaves t) s p"
proof (cases "snd (IsItAHint (btcb s) it)")
  case False
  then have "FindIteratorPosition io (Some it) s = SearchTheTree io it None None None s"
    by (auto simp: FindIteratorPosition_def IsItAHint_eq)
  then show ?thesis using SearchTheTree_placed [OF t(1) key] by simp
next
  case True
  let ?n = "hint_nodeNum it" and ?L = "leaves t" and ?k = "kval (it_key it)"
  have ok: "snd (IsItAHint (btcb s) it)" "GetNode io ?n s = Some (noErr, Some ?n, s)"
    using True h GetNode_readable by auto
  have ne: "noErr \<noteq> fsBTInvalidNodeErr" by (simp add: fsBTInvalidNodeErr_def oserr_defs)
  obtain u where u: "usable_leaf (buf s ?n) = Some u" using usable_leaf_total [of s ?n] t(1) by (auto simp: tree_in_def)
  show ?thesis
  proof (cases u)
    case False
    then have "FindIteratorPosition io (Some it) s = SearchTheTree io it None (Some ?n) None s"
      using ok u ne by (simp add: FindIteratorPosition_def IsItAHint_eq)
    then show ?thesis using SearchTheTree_placed [OF t(1) key] by simp
  next
    case True
    then obtain recs where "(?n, recs) \<in> set ?L" using usable_in_tree [OF t(1) h [OF ok(1)]] u by auto
    then obtain j where j: "j < length ?L" "?n = fst (?L ! j)" by (metis fst_conv in_set_conv_nth)
    note l = leaf_read [OF t j(1)] and so = tree_in_sorted [OF t(1)]
    let ?recs = "snd (?L ! j)"
    obtain found i where sn: "SearchNode (btcb s) (buf s (fst (?L ! j))) (it_key it) = Some (found, i)"
      "i \<le> length ?recs" "\<And>m. m < i \<Longrightarrow> kval (?recs ! m) < ?k"
      "\<And>m. i \<le> m \<Longrightarrow> m < length ?recs \<Longrightarrow> ?k \<le> kval (?recs ! m)"
      "found \<longleftrightarrow> i < length ?recs \<and> kval (?recs ! i) = ?k"
      using leaf_search [OF t(1) j(1) key] by metis
    have eq: "FindIteratorPosition io (Some it) s =
       (if found then Some (noErr, None, Some (fst (?L ! j)), None, ?n, i, True, s)
        else if i = 0 then position_left io it (fst (?L ! j)) s
        else if i \<ge> length ?recs then position_right io it (fst (?L ! j)) i s
        else SearchTheTree io it None (Some (fst (?L ! j))) None s)"
      using ok l(4-6) sn(1) j(2) ne by (simp add: FindIteratorPosition_def IsItAHint_eq Let_def)
    consider (hit) found | (before) "\<not> found" "i = 0" | (after) "\<not> found" "i = length ?recs" "0 < i" | (inside) "\<not> found" "0 < i" "i < length ?recs"
      using sn(2) by (cases "i = 0"; cases "i = length ?recs") auto
    then show ?thesis
    proof cases
      case hit
      then have "at_key kval ?k ?L j i" using sn(2,5) by (intro at_key_sorted [OF so j(1)]) auto
      then have "placed kval ?k ?L s (noErr, None, Some (fst (?L ! j)), None, ?n, i, True, s)"
        by (rule placedI) (use hit sn(5) in simp_all)
      then show ?thesis using hit unfolding eq by simp
    next
      case before
      then have "?k < kval (?recs ! 0)" using sn(4) [of 0] sn(5) l(3) by (simp add: less_le)
      from position_left_placed [OF t j(1) key this] show ?thesis using before unfolding eq by simp
    next
      case after
      then have "kval (last ?recs) < ?k" using sn(3) [of "i - 1"] l(3) by (simp add: last_conv_nth)
      from position_right_placed [OF t j(1) key this] show ?thesis using after unfolding eq by simp
    next
      case inside
      then show ?thesis using SearchTheTree_placed [OF t(1) key] unfolding eq by simp
    qed
  qed
qed

section \<open>The record an iteration goes to\<close>

text \<open>
  The specification: among the records in key order, the first, the last, the one
  before and the one after the key \<open>k\<close>.
\<close>

definition iteration_target ::
  "nat \<Rightarrow> (byte list \<Rightarrow> 'k :: linorder) \<Rightarrow> 'k \<Rightarrow> byte list list \<Rightarrow> byte list option" where
  "iteration_target operation kval k rs =
     (if operation = kBTreeFirstRecord then Some (hd rs)
      else if operation = kBTreeLastRecord then Some (last rs)
      else if operation = kBTreePrevRecord then
        (let below = filter (\<lambda>r. kval r < k) rs in if below = [] then None else Some (last below))
      else
        (let above = filter (\<lambda>r. k < kval r) rs in if above = [] then None else Some (hd above)))"

lemma at_key_filter:
  fixes kval :: "byte list \<Rightarrow> 'k :: linorder"
  assumes sorted: "sorted_wrt (<) (map kval (concat (map snd lvs)))" and at: "at_key kval k lvs j i"
  defines "recs \<equiv> snd (lvs ! j)"
  shows "filter (\<lambda>r. kval r < k) (concat (map snd lvs)) = concat (map snd (take j lvs)) @ take i recs"
    "filter (\<lambda>r. k < kval r) (concat (map snd lvs)) =
       drop (if i < length recs \<and> kval (recs ! i) = k then Suc i else i) recs @ concat (map snd (drop (Suc j) lvs))"
proof -
  define A where "A = concat (map snd (take j lvs))"
  define B where "B = concat (map snd (drop (Suc j) lvs))"
  have at': "j < length lvs" "\<forall>r \<in> set (A @ take i recs). kval r < k" "\<forall>r \<in> set (drop i recs). k \<le> kval r"
    "\<forall>r \<in> set B. k < kval r" using at unfolding at_key_def A_def B_def recs_def by simp_all
  have eq: "concat (map snd lvs) = (A @ take i recs) @ drop i recs @ B"
    using concat_split [OF at'(1)] by (simp add: A_def B_def recs_def)
  have low: "filter (\<lambda>r. kval r < k) (A @ take i recs) = A @ take i recs" "filter (\<lambda>r. k < kval r) (A @ take i recs) = []"
    using at'(2) by (simp_all only: filter_id_conv filter_empty_conv) (auto dest: less_asym)
  have high: "filter (\<lambda>r. kval r < k) (drop i recs @ B) = []" "filter (\<lambda>r. k < kval r) B = B"
    using at'(3,4) by (simp_all only: filter_id_conv filter_empty_conv set_append ball_Un) (auto dest: less_asym leD)
  have mid: "filter (\<lambda>r. k < kval r) (drop i recs) = drop (if i < length recs \<and> kval (recs ! i) = k then Suc i else i) recs"
  proof (cases "i < length recs")
    case True
    have "\<forall>r \<in> set (drop (Suc i) recs). kval (recs ! i) < kval r"
      using records_around(2) [OF sorted at'(1), of i] True by (simp add: recs_def)
    moreover have k: "k \<le> kval (recs ! i)" using at'(3) True by (metis Cons_nth_drop_Suc list.set_intros(1))
    ultimately have "\<forall>r \<in> set (drop (Suc i) recs). k < kval r" by (meson le_less_trans)
    then have "filter (\<lambda>r. k < kval r) (drop (Suc i) recs) = drop (Suc i) recs" by (simp add: filter_id_conv)
    then show ?thesis using True k Cons_nth_drop_Suc [OF True, symmetric] by (auto simp: less_le)
  qed simp
  show "filter (\<lambda>r. kval r < k) (concat (map snd lvs)) = concat (map snd (take j lvs)) @ take i recs"
    "filter (\<lambda>r. k < kval r) (concat (map snd lvs)) =
       drop (if i < length recs \<and> kval (recs ! i) = k then Suc i else i) recs @ concat (map snd (drop (Suc j) lvs))"
    unfolding eq filter_append [of _ "A @ take i recs"] low high mid
    by (simp_all add: A_def [symmetric] B_def [symmetric] high mid del: filter_append add: filter_append [of _ _ B])
qed

lemma CopyData_copies:
  assumes t: "tree_in io valid kval s t" and n: "(n, recs) \<in> set (leaves t)" "i < length recs" and b: "buffers_ok rd it"
  shows "\<exists>it'. CopyData op num (Some n) i (Some rd) (Some it) s =
             Some (noErr, Some (copied_record (btcb s) rd (recs ! i)), length (rec_data (btcb s) (recs ! i)), Some it', s) \<and>
           carries valid kval (kval (recs ! i)) it'"
proof -
  note l = tree_in_leaf [OF t n(1)]
  have rep: "node_rep (btcb s) 14 recs (buf s n)" using l(1) by (simp add: node_at_def)
  have ok: "key_ok (btcb s) valid (recs ! i)" using l(5) n(2) by simp
  obtain a d k where r: "GetRecordByIndex (btcb s) (buf s n) i = Some (Inr (a, d, length (rec_data (btcb s) (recs ! i))))"
    "copy_record (Some rd) (buf s n) d (length (rec_data (btcb s) (recs ! i))) = Some (Some (copied_record (btcb s) rd (recs ! i)))"
    "CalcKeySize (btcb s) (drop a (buf s n)) = Some k" "CalcKeySize (btcb s) (recs ! i) = Some k"
    "valid (take k (recs ! i))" "k \<le> length (recs ! i)"
    "BlockMoveData (buf s n) a (it_key it) k = Some (overwrite (it_key it) 0 (take k (recs ! i)))"
    using record_read [OF rep n(2) ok b] by blast
  have k: "k \<le> sizeof_BTreeKey" using ok r(4) by (simp add: key_ok_def)
  have len: "length (it_key it) = sizeof_BTreeKey" using b by (simp add: buffers_ok_def)
  have "key_order (keyCompareProc (btcb s)) valid kval" using t by (simp add: tree_in_def)
  note c = copied_key [OF this r(5,6) len k]
  show ?thesis using r c k len by (simp add: CopyData_def carries_def)
qed

text \<open>What the caller gets when the iteration goes to \<open>target\<close>.\<close>

definition iterated ::
  "(byte list \<Rightarrow> bool) \<Rightarrow> (byte list \<Rightarrow> 'k) \<Rightarrow> nat \<Rightarrow> byte list option \<Rightarrow> FSBufferDescriptor \<Rightarrow> btree \<Rightarrow> bt_iterate \<Rightarrow> bool" where
  "iterated valid kval operation target rd s res \<longleftrightarrow>
     (case target of
        None \<Rightarrow> \<exists>it. res = (if operation = kBTreePrevRecord then fsBTStartOfIterationErr else fsBTRecordNotFoundErr,
                           Some rd, 0, Some it, s)
      | Some r \<Rightarrow> \<exists>it. res = (noErr, Some (copied_record (btcb s) rd r), length (rec_data (btcb s) r), Some it, s) \<and>
                        carries valid kval (kval r) it)"

lemma iterated_copy:
  assumes "tree_in io valid kval s t" "(n, recs) \<in> set (leaves t)" "i < length recs" "buffers_ok rd it"
  shows "\<exists>res. CopyData op num (Some n) i (Some rd) (Some it) s = Some res \<and>
           iterated valid kval op (Some (recs ! i)) rd s res"
proof -
  obtain it' where "CopyData op num (Some n) i (Some rd) (Some it) s =
      Some (noErr, Some (copied_record (btcb s) rd (recs ! i)), length (rec_data (btcb s) (recs ! i)), Some it', s)"
    "carries valid kval (kval (recs ! i)) it'"
    using CopyData_copies [OF assms] by blast
  then show ?thesis by (auto simp: iterated_def)
qed

lemma iterated_error:
  assumes "buffers_ok rd it" "err = (if op = kBTreePrevRecord then fsBTStartOfIterationErr else fsBTEndOfIterationErr)"
  shows "\<exists>res. BTIterateRecord_error err (Some rd) (Some it) s = Some res \<and> iterated valid kval op None rd s res"
proof -
  have "\<exists>it'. clear_iterator it = Some it'"
    using assms(1) by (simp add: clear_iterator_def buffers_ok_def sizeof_BTreeKey_def copy_in_def)
  then obtain it' where "clear_iterator it = Some it'" by blast
  moreover have "fsBTStartOfIterationErr \<noteq> fsBTEmptyErr" "fsBTStartOfIterationErr \<noteq> fsBTEndOfIterationErr"
    by (simp_all add: fsBTStartOfIterationErr_def fsBTEmptyErr_def fsBTEndOfIterationErr_def)
  ultimately show ?thesis using assms(2) by (simp add: BTIterateRecord_error_def iterated_def)
qed

lemma operations_distinct:
  "kBTreePrevRecord \<noteq> kBTreeFirstRecord" "kBTreePrevRecord \<noteq> kBTreeLastRecord" "kBTreePrevRecord \<noteq> kBTreeNextRecord"
  "kBTreeNextRecord \<noteq> kBTreeFirstRecord" "kBTreeNextRecord \<noteq> kBTreeLastRecord" "kBTreeNextRecord \<noteq> kBTreePrevRecord"
  "kBTreeLastRecord \<noteq> kBTreeFirstRecord"
  by (simp_all add: kBTreePrevRecord_def kBTreeFirstRecord_def kBTreeLastRecord_def kBTreeNextRecord_def)

lemma BTIterateRecord_prev:
  fixes kval :: "byte list \<Rightarrow> 'k :: linorder"
  assumes t: "tree_in io valid kval s t" "leaf_chain s (leaves t)" and b: "buffers_ok rd it" and key: "valid (it_key it)"
    and h: "snd (IsItAHint (btcb s) it) \<Longrightarrow> readable io s (hint_nodeNum it)"
  shows "\<exists>res. BTIterateRecord io kBTreePrevRecord (Some it) (Some rd) s = Some res \<and>
           iterated valid kval kBTreePrevRecord (iteration_target kBTreePrevRecord kval (kval (it_key it)) (records t)) rd s res"
proof -
  let ?L = "leaves t" and ?k = "kval (it_key it)" and ?op = kBTreePrevRecord
  obtain left right num i j found where p: "FindIteratorPosition io (Some it) s = Some (noErr, left, Some (fst (?L ! j)), right, num, i, found, s)"
    "at_key kval ?k ?L j i" "left = None \<or> 0 < j \<and> left = Some (fst (?L ! (j - 1)))"
    using FindIteratorPosition_placed [OF t key h] unfolding placed_def by blast
  have j: "j < length ?L" "i \<le> length (snd (?L ! j))" using p(2) by (simp_all add: at_key_def)
  note l = leaf_read [OF t j(1)]
  have below: "filter (\<lambda>r. kval r < ?k) (records t) = concat (map snd (take j ?L)) @ take i (snd (?L ! j))"
    using at_key_filter(1) [OF tree_in_sorted [OF t(1)] p(2)] by (simp add: records_def)
  consider (node) "0 < i" | (start) "i = 0" "j = 0" | (sibling) j' where "i = 0" "j = Suc j'" by (cases j) auto
  then show ?thesis
  proof cases
    case node
    then have "iteration_target ?op kval ?k (records t) = Some (snd (?L ! j) ! (i - 1))"
      using j(2) by (auto simp: iteration_target_def below operations_distinct last_append last_conv_nth min_def)
    moreover have "BTIterateRecord io ?op (Some it) (Some rd) s = CopyData ?op num (Some (fst (?L ! j))) (i - 1) (Some rd) (Some it) s"
      using p(1) l node by (simp add: BTIterateRecord_def operations_distinct)
    ultimately show ?thesis using iterated_copy [OF t(1) l(1) _ b, of "i - 1"] node j(2) by simp
  next
    case start
    then have "iteration_target ?op kval ?k (records t) = None"
      by (simp add: iteration_target_def below operations_distinct)
    moreover have "BTIterateRecord io ?op (Some it) (Some rd) s = BTIterateRecord_error fsBTStartOfIterationErr (Some rd) (Some it) s"
      using p l start by (simp add: BTIterateRecord_def operations_distinct fsBTStartOfIterationErr_def oserr_defs)
    ultimately show ?thesis using iterated_error [OF b, of fsBTStartOfIterationErr ?op] by simp
  next
    case sibling
    then have j': "j' < length ?L" using j(1) by simp
    note l' = leaf_read [OF t j']
    let ?i = "length (snd (?L ! j')) - 1"
    have "take j ?L = take j' ?L @ [?L ! j']" using sibling j' by (simp add: take_Suc_conv_app_nth)
    then have "iteration_target ?op kval ?k (records t) = Some (snd (?L ! j') ! ?i)"
      using l'(3) sibling by (simp add: iteration_target_def below operations_distinct last_append last_conv_nth)
    moreover have "u16_sub (length (snd (?L ! j'))) 1 = ?i" using l'(3,7) by (cases "snd (?L ! j')") (auto simp: u16_sub_def)
    then have "\<exists>num. BTIterateRecord io ?op (Some it) (Some rd) s = CopyData ?op num (Some (fst (?L ! j'))) ?i (Some rd) (Some it) s"
      using p l sibling l' by (auto simp: BTIterateRecord_def operations_distinct)
    ultimately show ?thesis using iterated_copy [OF t(1) l'(1) _ b, of ?i ?op] l'(3) by auto
  qed
qed

lemma BTIterateRecord_next:
  fixes kval :: "byte list \<Rightarrow> 'k :: linorder"
  assumes t: "tree_in io valid kval s t" "leaf_chain s (leaves t)" and b: "buffers_ok rd it" and key: "valid (it_key it)"
    and h: "snd (IsItAHint (btcb s) it) \<Longrightarrow> readable io s (hint_nodeNum it)"
  shows "\<exists>res. BTIterateRecord io kBTreeNextRecord (Some it) (Some rd) s = Some res \<and>
           iterated valid kval kBTreeNextRecord (iteration_target kBTreeNextRecord kval (kval (it_key it)) (records t)) rd s res"
proof -
  let ?L = "leaves t" and ?k = "kval (it_key it)" and ?op = kBTreeNextRecord
  obtain left right num i j where p: "FindIteratorPosition io (Some it) s = Some (noErr, left, Some (fst (?L ! j)), right, num, i,
        i < length (snd (?L ! j)) \<and> kval (snd (?L ! j) ! i) = ?k, s)"
    "at_key kval ?k ?L j i" "right = None \<or> Suc j < length ?L \<and> right = Some (fst (?L ! Suc j))"
    using FindIteratorPosition_placed [OF t key h] unfolding placed_def by blast
  have j: "j < length ?L" "i \<le> length (snd (?L ! j))" using p(2) by (simp_all add: at_key_def)
  note l = leaf_read [OF t j(1)]
  define found where "found \<longleftrightarrow> i < length (snd (?L ! j)) \<and> kval (snd (?L ! j) ! i) = ?k"
  define i' where "i' = (if found then Suc i else i)"
  have i': "i' \<le> length (snd (?L ! j))" using j(2) by (auto simp: i'_def found_def)
  have above: "filter (\<lambda>r. ?k < kval r) (records t) = drop i' (snd (?L ! j)) @ concat (map snd (drop (Suc j) ?L))"
    using at_key_filter(2) [OF tree_in_sorted [OF t(1)] p(2)] by (simp add: records_def i'_def found_def)
  note pos = p(1) [folded found_def]
  have fi: "found \<Longrightarrow> i < length (snd (?L ! j))" by (simp add: found_def)
  consider (node) "i' < length (snd (?L ! j))" | (end') "i' = length (snd (?L ! j))" "Suc j = length ?L"
    | (sibling) "i' = length (snd (?L ! j))" "Suc j < length ?L" using i' j(1) by linarith
  then show ?thesis
  proof cases
    case node
    then have "iteration_target ?op kval ?k (records t) = Some (snd (?L ! j) ! i')"
      by (simp add: iteration_target_def above operations_distinct hd_append hd_drop_conv_nth)
    moreover have "BTIterateRecord io ?op (Some it) (Some rd) s = CopyData ?op num (Some (fst (?L ! j))) i' (Some rd) (Some it) s"
      using pos l node by (cases found) (simp_all add: BTIterateRecord_def operations_distinct i'_def)
    ultimately show ?thesis using iterated_copy [OF t(1) l(1) _ b, of i'] node by simp
  next
    case end'
    then have "iteration_target ?op kval ?k (records t) = None"
      by (simp add: iteration_target_def above operations_distinct)
    moreover have "BTIterateRecord io ?op (Some it) (Some rd) s = BTIterateRecord_error fsBTEndOfIterationErr (Some rd) (Some it) s"
      using pos p(3) l end' fi
      by (cases found) (simp_all add: BTIterateRecord_def operations_distinct i'_def fsBTEndOfIterationErr_def oserr_defs)
    ultimately show ?thesis using iterated_error [OF b, of fsBTEndOfIterationErr ?op] operations_distinct by simp
  next
    case sibling
    note l' = leaf_read [OF t sibling(2)]
    have "drop (Suc j) ?L = ?L ! Suc j # drop (Suc (Suc j)) ?L" using sibling(2) by (simp add: Cons_nth_drop_Suc)
    then have "iteration_target ?op kval ?k (records t) = Some (snd (?L ! Suc j) ! 0)"
      using l'(3) sibling by (simp add: iteration_target_def above operations_distinct hd_append hd_conv_nth)
    moreover have "\<exists>num. BTIterateRecord io ?op (Some it) (Some rd) s = CopyData ?op num (Some (fst (?L ! Suc j))) 0 (Some rd) (Some it) s"
      using pos p(3) l sibling fi l'(2,4) by (cases found) (auto simp: BTIterateRecord_def operations_distinct i'_def)
    ultimately show ?thesis using iterated_copy [OF t(1) l'(1) _ b, of 0 ?op] l'(3) by auto
  qed
qed

lemma holds_leaves: "holds s h t \<Longrightarrow> leaves t \<noteq> []"
proof (induction t arbitrary: h rule: tnode_induct)
  case (TIndex m ch)
  then obtain q ch' where q: "ch = q # ch'" by (cases ch) auto
  then have "holds s (h - 1) (snd q)" using TIndex.prems by (simp add: case_prod_unfold)
  then have "leaves (snd q) \<noteq> []" using TIndex.IH [of q "h - 1"] q by simp
  then show ?case using q by (simp add: case_prod_unfold)
qed simp

text \<open>Where the header says the chain of leaves begins and ends.\<close>

definition leaf_ends :: "btree \<Rightarrow> (nat \<times> byte list list) list \<Rightarrow> bool" where
  "leaf_ends s lvs \<longleftrightarrow> firstLeafNode (btcb s) = fst (hd lvs) \<and> lastLeafNode (btcb s) = fst (last lvs)"

lemma BTIterateRecord_ends:
  fixes kval :: "byte list \<Rightarrow> 'k :: linorder"
  assumes t: "tree_in io valid kval s t" "leaf_chain s (leaves t)" and ends: "leaf_ends s (leaves t)" and b: "buffers_ok rd it"
    and op: "op = kBTreeFirstRecord \<or> op = kBTreeLastRecord"
  shows "\<exists>res. BTIterateRecord io op (Some it) (Some rd) s = Some res \<and>
           iterated valid kval op (iteration_target op kval (kval (it_key it)) (records t)) rd s res"
proof -
  let ?L = "leaves t"
  have ne: "?L \<noteq> []" using t(1) holds_leaves by (auto simp: tree_in_def)
  define j where "j = (if op = kBTreeFirstRecord then 0 else length ?L - 1)"
  have j: "j < length ?L" using ne by (simp add: j_def)
  note l = leaf_read [OF t j]
  define i where "i = (if op = kBTreeFirstRecord then 0 else length (snd (?L ! j)) - 1)"
  have i: "i < length (snd (?L ! j))" using l(3) by (simp add: i_def)
  have "(if op = kBTreeFirstRecord then firstLeafNode (btcb s) else lastLeafNode (btcb s)) = fst (?L ! j)"
    using ends ne by (simp add: leaf_ends_def j_def hd_conv_nth last_conv_nth)
  then have "BTIterateRecord io op (Some it) (Some rd) s = CopyData op (fst (?L ! j)) (Some (fst (?L ! j))) i (Some rd) (Some it) s"
    using l(2,4-6) op by (auto simp: BTIterateRecord_def i_def Let_def)
  moreover have "iteration_target op kval k (records t) = Some (snd (?L ! j) ! i)" for k
  proof (cases "op = kBTreeFirstRecord")
    case True
    then have "hd (records t) = hd (snd (?L ! j))" "j = 0" "i = 0"
      using ne l(3) by (cases ?L; simp add: records_def j_def i_def)+
    then show ?thesis using True l(3) by (simp add: iteration_target_def hd_conv_nth)
  next
    case False
    then have "last (records t) = last (snd (?L ! j))" "i = length (snd (?L ! j)) - 1"
      using ne l(3) by (cases ?L rule: rev_cases; simp add: records_def j_def i_def nth_append)+
    then show ?thesis using False op l(3) by (simp add: iteration_target_def last_conv_nth)
  qed
  ultimately show ?thesis using iterated_copy [OF t(1) l(1) i b, of op] by simp
qed

section \<open>Properties\<close>

text \<open>
  C29: \<^verbatim>\<open>BTIterateRecord\<close> walks the records in key order. On every searchable tree whose
  leaves are linked, the first, last, previous and next operation return the record
  that the sorted list of all records has there, however stale the hint of the iterator
  is, and whether or not the key of the iterator is in the tree; the iterator moves to
  the key of that record. Where there is no such record, the start or the end of the
  iteration is reported.
\<close>

theorem BTIterateRecord_correct:
  fixes kval :: "byte list \<Rightarrow> 'k :: linorder"
  assumes "tree_in io valid kval s t" "leaf_chain s (leaves t)" "leaf_ends s (leaves t)" "buffers_ok rd it" "valid (it_key it)"
    and "snd (IsItAHint (btcb s) it) \<longrightarrow> readable io s (hint_nodeNum it)"
    and "op \<in> {kBTreeFirstRecord, kBTreeLastRecord, kBTreePrevRecord, kBTreeNextRecord}"
  shows "case iteration_target op kval (kval (it_key it)) (records t) of
           None \<Rightarrow> \<exists>it'. BTIterateRecord io op (Some it) (Some rd) s =
             Some (if op = kBTreePrevRecord then fsBTStartOfIterationErr else fsBTRecordNotFoundErr, Some rd, 0, Some it', s)
         | Some r \<Rightarrow> \<exists>it'. BTIterateRecord io op (Some it) (Some rd) s =
             Some (noErr, Some (copied_record (btcb s) rd r), length (rec_data (btcb s) r), Some it', s) \<and>
             carries valid kval (kval r) it'"
proof -
  obtain res where "BTIterateRecord io op (Some it) (Some rd) s = Some res"
    "iterated valid kval op (iteration_target op kval (kval (it_key it)) (records t)) rd s res"
    using assms BTIterateRecord_ends [OF assms(1-4)] BTIterateRecord_prev [OF assms(1,2,4,5)]
      BTIterateRecord_next [OF assms(1,2,4,5)] by blast
  then show ?thesis unfolding iterated_def by (auto split: option.splits)
qed

definition next_record :: "byte list" where
  "next_record = [10, 0, 0, 0, 16, 0, 0, 0, 9, 0, 0, 0] @ replicate 64 7"

theorem BTIterateRecord_correct_witness:
  "\<exists>node it'.
     BTIterateRecord warm_cache kBTreeNextRecord
       (Some \<lparr>hint_writeCount = 0, hint_nodeNum = 1, hint_index = 0, hitCount = 0, maxLeafRecs = 0, it_key = start_key\<rparr>)
       (Some \<lparr>bufferAddress = replicate 64 1, itemSize = 64, itemCount = 1\<rparr>) (leaf_tree node) =
     Some (noErr, Some \<lparr>bufferAddress = replicate 64 7, itemSize = 64, itemCount = 1\<rparr>, 64, Some it', leaf_tree node) \<and>
     extent_kval_plus (it_key it') = extent_kval_plus next_record"
proof -
  let ?v = "\<lambda>key :: byte list. 12 \<le> length key"
  let ?it = "\<lparr>hint_writeCount = 0, hint_nodeNum = 1, hint_index = 0, hitCount = 0, maxLeafRecs = 0, it_key = start_key\<rparr>"
  let ?rd = "\<lparr>bufferAddress = replicate 64 (1 :: byte), itemSize = 64, itemCount = 1\<rparr>"
  let ?recs = "[extents_record, next_record]"
  have size: "CalcKeySize extents_btree ([10, 0, 0, 0, 16, 0, 0, 0, 9, 0, 0, 0] @ u) = Some 12" for u
    by (simp add: CalcKeySize_def extents_btree_def small_btree_def BigKeys_def kBTBigKeysMask_def load_def slice_def)
  have ok: "key_ok extents_btree ?v next_record"
    unfolding key_ok_def next_record_def size by (simp add: sizeof_BTreeKey_def)
  have v: "?v extents_record" "?v next_record" "length (concat ?recs) = 152"
    by (simp_all add: extents_record_def next_record_def)
  have ord: "extent_kval_plus extents_record < extent_kval_plus next_record"
    by (simp add: extent_kval_plus_def extents_record_def next_record_def slice_def)
  have kv: "extent_kval_plus start_key = extent_kval_plus extents_record"
    using extent_keys_plus.prefix [of "[10, 0, 0, 0, 16, 0, 0, 0, 5, 0, 0, 0]"]
    unfolding extents_record_def start_key_def by (metis (no_types, lifting) extent_key_length)
  obtain node where t: "tree_in warm_cache ?v extent_kval_plus (leaf_tree node) (TLeaf 1 ?recs)" "descr node 0 0 kBTLeafNode 1"
    using leaf_tree_in [of ?recs] extents_record_ok ok v ord by auto
  have links: "leaf_chain (leaf_tree node) (leaves (TLeaf 1 ?recs))" "leaf_ends (leaf_tree node) (leaves (TLeaf 1 ?recs))"
    using t(2) by (simp_all add: leaf_chain_def leaf_ends_def leaf_tree_def descr_def extents_btree_def small_btree_def)
  have b: "buffers_ok ?rd ?it" "?v start_key" by (simp_all add: buffers_ok_def sizeof_BTreeKey_def start_key_def)
  have bt: "btcb (leaf_tree node) = extents_btree" "totalNodes extents_btree = 8"
    by (simp_all add: leaf_tree_def extents_btree_def small_btree_def)
  have tg: "iteration_target kBTreeNextRecord extent_kval_plus (extent_kval_plus start_key) (records (TLeaf 1 ?recs)) = Some next_record"
    using ord kv by (simp add: iteration_target_def operations_distinct records_def)
  have "copied_record extents_btree ?rd next_record = \<lparr>bufferAddress = replicate 64 7, itemSize = 64, itemCount = 1\<rparr>"
    "length (rec_data extents_btree next_record) = 64"
    unfolding copied_record_def rec_data_def next_record_def size by (simp_all add: overwrite_def)
  then show ?thesis
    using BTIterateRecord_correct [OF t(1) links b(1), of kBTreeNextRecord] b(2) bt tg
    by (auto simp: carries_def)
qed

end
