(* ===== verification/BTreeHeader.thy ===== *)
theory BTreeHeader
  imports BTreeSearch
begin

unbundle bit_operations_syntax

text \<open>
  The header record of a B-tree file and the control block made from it:
  \<^verbatim>\<open>VerifyHeader\<close> and \<^verbatim>\<open>UpdateHeader\<close> of \<^verbatim>\<open>src/hfsplus/hfscommon/BTree/BTreeMiscOps.c\<close>,
  \<^verbatim>\<open>BTOpenPath\<close>, \<^verbatim>\<open>BTClosePath\<close>, \<^verbatim>\<open>BTReloadData\<close>, \<^verbatim>\<open>BTFlushPath\<close> and the routines that read
  or set one field in \<^verbatim>\<open>BTree.c\<close>, and \<^verbatim>\<open>SetBTreeBlockSize\<close> of \<^verbatim>\<open>src/hfsplus/hfs_btreeio.c\<close>.

  The header record is at byte 14 of node 0, after the node descriptor, packed to
  two bytes. The function arguments of \<^verbatim>\<open>BTOpenPath\<close> are the fixed routines the file
  system passes, and none is nil.
\<close>

section \<open>The header record\<close>

definition fsBTInvalidHeaderErr :: OSErr where "fsBTInvalidHeaderErr = - 32767 + 37"
definition fsBTInvalidFileErr :: OSErr where "fsBTInvalidFileErr = - 32767 + 770"
definition fsBTBadNodeSize :: OSErr where "fsBTBadNodeSize = - 32767 + 780"
definition fsBTUnknownVersionErr :: OSErr where "fsBTUnknownVersionErr = - 32767 + 853"
definition paramErr :: OSErr where "paramErr = - 50"
definition memFullErr :: OSErr where "memFullErr = - 108"

definition kMinNodeSize :: int where "kMinNodeSize = 512"
definition kUserBTreeType :: nat where "kUserBTreeType = 128"
definition kReservedBTreeType :: nat where "kReservedBTreeType = 255"
definition kBTBadCloseMask :: nat where "kBTBadCloseMask = 1"

record BTHeaderRec =
  h_treeDepth :: nat
  h_rootNode :: nat
  h_leafRecords :: nat
  h_firstLeafNode :: nat
  h_lastLeafNode :: nat
  h_nodeSize :: nat
  h_maxKeyLength :: nat
  h_totalNodes :: nat
  h_freeNodes :: nat
  h_btreeType :: nat
  h_attributes :: nat

text \<open>The header record of a node buffer.\<close>

definition header_of :: "byte list \<Rightarrow> BTHeaderRec option" where
  "header_of node = do {
     treeDepth \<leftarrow> load16 node 14;
     rootNode \<leftarrow> load32 node 16;
     leafRecords \<leftarrow> load32 node 20;
     firstLeafNode \<leftarrow> load32 node 24;
     lastLeafNode \<leftarrow> load32 node 28;
     nodeSize \<leftarrow> load16 node 32;
     maxKeyLength \<leftarrow> load16 node 34;
     totalNodes \<leftarrow> load32 node 36;
     freeNodes \<leftarrow> load32 node 40;
     btreeType \<leftarrow> load8 node 50;
     attributes \<leftarrow> load32 node 52;
     Some \<lparr>h_treeDepth = treeDepth, h_rootNode = rootNode, h_leafRecords = leafRecords,
           h_firstLeafNode = firstLeafNode, h_lastLeafNode = lastLeafNode, h_nodeSize = nodeSize,
           h_maxKeyLength = maxKeyLength, h_totalNodes = totalNodes, h_freeNodes = freeNodes,
           h_btreeType = btreeType, h_attributes = attributes\<rparr>
   }"

definition VerifyHeader :: "int \<Rightarrow> BTHeaderRec \<Rightarrow> OSErr" where
  "VerifyHeader eof header =
     (if h_nodeSize header \<notin> {512, 1024, 2048, 4096, 8192, 16384, 32768} then fsBTInvalidHeaderErr
      else
        let totalNodes = h_totalNodes header;
            forkSize = totalNodes * h_nodeSize header
        in if int forkSize \<noteq> eof then fsBTInvalidHeaderErr
           else if h_freeNodes header \<ge> totalNodes then fsBTInvalidHeaderErr
           else if h_rootNode header \<ge> totalNodes then fsBTInvalidHeaderErr
           else if h_firstLeafNode header \<ge> totalNodes then fsBTInvalidHeaderErr
           else if h_lastLeafNode header \<ge> totalNodes then fsBTInvalidHeaderErr
           else if h_treeDepth header > kMaxTreeDepth then fsBTInvalidHeaderErr
           else if h_btreeType header \<notin> {0, kUserBTreeType, kReservedBTreeType} then fsBTUnknownVersionErr
           else noErr)"

section \<open>Writing the header\<close>

definition TreeIsDirty :: "BTreeControlBlock \<Rightarrow> nat" where
  "TreeIsDirty bt = btflags bt AND kBTHeaderDirty"

definition clear_bits :: "nat \<Rightarrow> nat \<Rightarrow> nat" where "clear_bits v m = v - (v AND m)"

definition write_header :: "BTreeControlBlock \<Rightarrow> byte list \<Rightarrow> byte list option" where
  "write_header bt node = do {
     node \<leftarrow> store16 node 14 (treeDepth bt);
     node \<leftarrow> store32 node 16 (rootNode bt);
     node \<leftarrow> store32 node 20 (leafRecords bt);
     node \<leftarrow> store32 node 24 (firstLeafNode bt);
     node \<leftarrow> store32 node 28 (lastLeafNode bt);
     node \<leftarrow> store16 node 32 (nodeSize bt);
     node \<leftarrow> store16 node 34 (maxKeyLength bt);
     node \<leftarrow> store32 node 36 (totalNodes bt);
     node \<leftarrow> store32 node 40 (freeNodes bt);
     copy_in node 50 (le_bytes 1 (btreeType bt))
   }"

definition UpdateHeader :: "buffer_cache \<Rightarrow> bool \<Rightarrow> btree \<Rightarrow> (OSErr \<times> btree) option" where
  "UpdateHeader io forceWrite s =
     (if btflags (btcb s) AND kBTHeaderDirty = 0 then Some (noErr, s)
      else do {
        (err, node, s) \<leftarrow> GetNode io kHeaderNodeNum s;
        if err \<noteq> noErr then Some (err, s)
        else do {
          n \<leftarrow> node;
          b \<leftarrow> write_header (btcb s) (buf s n);
          let s = put_node n b s;
          let options = (if forceWrite then kForceWriteBlock else kLockTransaction);
          (err, node) \<leftarrow> UpdateNode io node options s;
          Some (err, s\<lparr>btcb := (btcb s)\<lparr>btflags := clear_bits (btflags (btcb s)) kBTHeaderDirty\<rparr>\<rparr>)
        }
      })"

definition BTFlushPath :: "buffer_cache \<Rightarrow> btree \<Rightarrow> (OSErr \<times> btree) option" where
  "BTFlushPath io s = UpdateHeader io False s"

section \<open>Reading the header\<close>

definition BTReloadData :: "buffer_cache \<Rightarrow> btree \<Rightarrow> (OSErr \<times> btree) option" where
  "BTReloadData io s = do {
     (err, node, s) \<leftarrow> GetNode io kHeaderNodeNum s;
     if err \<noteq> noErr then Some (err, s)
     else do {
       n \<leftarrow> node;
       header \<leftarrow> header_of (buf s n);
       let err = VerifyHeader (fcbEOF s) header;
       let s = (if err = noErr then
                  s\<lparr>btcb := (btcb s)
                     \<lparr>treeDepth := h_treeDepth header, rootNode := h_rootNode header,
                      leafRecords := h_leafRecords header, firstLeafNode := h_firstLeafNode header,
                      lastLeafNode := h_lastLeafNode header, maxKeyLength := h_maxKeyLength header,
                      totalNodes := h_totalNodes header, freeNodes := h_freeNodes header,
                      btreeType := h_btreeType header,
                      btflags := clear_bits (btflags (btcb s)) kBTHeaderDirty\<rparr>\<rparr>
                else s);
       let (_, node) = ReleaseNode io node;
       Some (err, s)
     }
   }"

text \<open>
  What \<^verbatim>\<open>BTOpenPath\<close> finds: the file's control block if it is open, the physical block
  size, the first block of that size, whether the medium is writeable, whether memory
  for a control block can be had, and the largest block of the buffer cache.
\<close>

record open_env =
  physBlockSize :: nat
  header_block :: "byte list"
  media_writeable :: bool
  no_memory :: bool
  MAXBSIZE :: nat

text \<open>\<^verbatim>\<open>SetBTreeBlockSize\<close> keeps the block size in the control block.\<close>

definition SetBTreeBlockSize :: "open_env \<Rightarrow> nat \<Rightarrow> BTreeControlBlock \<Rightarrow> OSErr \<times> BTreeControlBlock" where
  "SetBTreeBlockSize env blockSize bt =
     (if blockSize > MAXBSIZE env then (fsBTBadNodeSize, bt) else (noErr, bt\<lparr>nodeSize := blockSize mod 2 ^ 16\<rparr>))"

definition cleared_btcb :: "(KeyPtr \<Rightarrow> KeyPtr \<Rightarrow> int option) \<Rightarrow> BTreeControlBlock" where
  "cleared_btcb cmp =
     \<lparr>treeDepth = 0, keyCompareProc = cmp, rootNode = 0, leafRecords = 0, firstLeafNode = 0, lastLeafNode = 0,
      nodeSize = 0, maxKeyLength = 0, totalNodes = 0, freeNodes = 0, btflags = 0, attributes = 0, writeCount = 0,
      lastfsync = 0, btreeType = 0\<rparr>"

definition btcb_of_header :: "BTHeaderRec \<Rightarrow> BTreeControlBlock \<Rightarrow> BTreeControlBlock" where
  "btcb_of_header header bt = bt
     \<lparr>treeDepth := h_treeDepth header, rootNode := h_rootNode header, leafRecords := h_leafRecords header,
      firstLeafNode := h_firstLeafNode header, lastLeafNode := h_lastLeafNode header,
      nodeSize := h_nodeSize header, maxKeyLength := h_maxKeyLength header, totalNodes := h_totalNodes header,
      freeNodes := h_freeNodes header, btreeType := h_btreeType header,
      attributes := (if h_maxKeyLength header > 40
                     then h_attributes header OR (kBTBigKeysMask + kBTVariableIndexKeysMask)
                     else h_attributes header),
      btflags := 0, writeCount := 1\<rparr>"

text \<open>A file, with its control block once it is open as a B-tree.\<close>

record btree_file =
  fcbBTCBPtr :: "BTreeControlBlock option"
  file_nodes :: "nat \<Rightarrow> byte list"
  file_EOF :: int
  file_damaged :: bool

definition opened :: "BTreeControlBlock \<Rightarrow> btree_file \<Rightarrow> btree" where
  "opened bt f = \<lparr>btcb = bt, node_store = file_nodes f, fcbEOF = file_EOF f, damagedVolume = file_damaged f\<rparr>"

text \<open>The header node is checked at its own size, and read again if that is not the block size.\<close>

definition BTOpenPath_check ::
  "buffer_cache \<Rightarrow> open_env \<Rightarrow> BTreeControlBlock \<Rightarrow> btree_file \<Rightarrow> (OSErr \<times> BTreeControlBlock \<times> btree_file) option" where
  "BTOpenPath_check io env bt f =
     (if nodeSize bt < physBlockSize env \<and> (leafRecords bt > 0 \<or> media_writeable env)
      then Some (fsBTBadNodeSize, bt, f)
      else if nodeSize bt = physBlockSize env then do {
        err \<leftarrow> CheckNode bt (file_EOF f) (header_block env);
        let f = (if err \<noteq> noErr then f\<lparr>file_damaged := True\<rparr> else f);
        Some (err, bt, f)
      }
      else do {
        let (err, bt) = SetBTreeBlockSize env (nodeSize bt) bt;
        if err \<noteq> noErr then Some (err, bt, f)
        else do {
          let err = ReleaseBTreeBlock io (Some kHeaderNodeNum) kTrashBlock;
          if err \<noteq> noErr then Some (err, bt, f)
          else do {
            (err, node, s) \<leftarrow> GetNode io kHeaderNodeNum (opened bt f);
            Some (err, bt, f\<lparr>file_damaged := damagedVolume s\<rparr>)
          }
        }
      })"

definition BTOpenPath ::
  "buffer_cache \<Rightarrow> open_env \<Rightarrow> (KeyPtr \<Rightarrow> KeyPtr \<Rightarrow> int option) \<Rightarrow> btree_file \<Rightarrow> (OSErr \<times> btree_file) option" where
  "BTOpenPath io env cmp f =
     (if fcbBTCBPtr f \<noteq> None then Some (noErr, f)
      else if file_EOF f < kMinNodeSize then Some (fsBTInvalidFileErr, f)
      else if no_memory env then Some (memFullErr, f)
      else do {
        let (err, bt) = SetBTreeBlockSize env (physBlockSize env) (cleared_btcb cmp);
        if err \<noteq> noErr then Some (err, f)
        else do {
          let (err, _) = GetBTreeBlock io kHeaderNodeNum kGetBlock;
          if err \<noteq> noErr then Some (err, f)
          else do {
            header \<leftarrow> header_of (header_block env);
            let err = VerifyHeader (file_EOF f) header;
            if err \<noteq> noErr then Some (err, f)
            else do {
              (err, bt, f) \<leftarrow> BTOpenPath_check io env (btcb_of_header header bt) f;
              Some (err, if err = noErr then f\<lparr>fcbBTCBPtr := Some bt\<rparr> else f)
            }
          }
        }
      })"

definition BTClosePath :: "buffer_cache \<Rightarrow> btree_file \<Rightarrow> (OSErr \<times> btree_file) option" where
  "BTClosePath io f =
     (case fcbBTCBPtr f of
        None \<Rightarrow> Some (fsBTInvalidFileErr, f)
      | Some bt \<Rightarrow> do {
          let bt = bt\<lparr>attributes := clear_bits (attributes bt) kBTBadCloseMask\<rparr>;
          (err, s) \<leftarrow> UpdateHeader io True (opened bt f);
          let f = f\<lparr>file_nodes := node_store s, file_damaged := damagedVolume s\<rparr>;
          Some (if err \<noteq> noErr then (err, f\<lparr>fcbBTCBPtr := Some (btcb s)\<rparr>) else (noErr, f\<lparr>fcbBTCBPtr := None\<rparr>))
        })"

section \<open>Single fields\<close>

record BTreeInfoRec =
  i_nodeSize :: nat
  i_maxKeyLength :: nat
  i_treeDepth :: nat
  i_lastfsync :: nat
  i_numRecords :: nat
  i_numNodes :: nat
  i_numFreeNodes :: nat

definition BTGetInformation :: "BTreeControlBlock option \<Rightarrow> BTreeInfoRec option \<Rightarrow> OSErr \<times> BTreeInfoRec option" where
  "BTGetInformation btreePtr info =
     (case btreePtr of
        None \<Rightarrow> (fsBTInvalidFileErr, info)
      | Some bt \<Rightarrow>
          case info of
            None \<Rightarrow> (paramErr, None)
          | Some _ \<Rightarrow> (noErr, Some \<lparr>i_nodeSize = nodeSize bt, i_maxKeyLength = maxKeyLength bt, i_treeDepth = treeDepth bt,
                                  i_lastfsync = lastfsync bt, i_numRecords = leafRecords bt, i_numNodes = totalNodes bt,
                                  i_numFreeNodes = freeNodes bt\<rparr>))"

definition BTIsDirty :: "BTreeControlBlock \<Rightarrow> nat" where "BTIsDirty bt = TreeIsDirty bt"

definition BTGetLastSync :: "BTreeControlBlock option \<Rightarrow> OSErr \<times> nat option" where
  "BTGetLastSync btreePtr =
     (case btreePtr of None \<Rightarrow> (fsBTInvalidFileErr, None) | Some bt \<Rightarrow> (noErr, Some (lastfsync bt)))"

definition BTSetLastSync :: "nat \<Rightarrow> BTreeControlBlock option \<Rightarrow> OSErr \<times> BTreeControlBlock option" where
  "BTSetLastSync lastsync btreePtr =
     (case btreePtr of
        None \<Rightarrow> (fsBTInvalidFileErr, None)
      | Some bt \<Rightarrow> if lastsync \<noteq> 0 then (paramErr, Some bt) else (noErr, Some (bt\<lparr>lastfsync := lastsync\<rparr>)))"

section \<open>Round trip\<close>

text \<open>The header that belongs to a control block, and fields that fit it.\<close>

definition header_for :: "BTreeControlBlock \<Rightarrow> nat \<Rightarrow> BTHeaderRec" where
  "header_for bt attr =
     \<lparr>h_treeDepth = treeDepth bt, h_rootNode = rootNode bt, h_leafRecords = leafRecords bt,
      h_firstLeafNode = firstLeafNode bt, h_lastLeafNode = lastLeafNode bt, h_nodeSize = nodeSize bt,
      h_maxKeyLength = maxKeyLength bt, h_totalNodes = totalNodes bt, h_freeNodes = freeNodes bt,
      h_btreeType = btreeType bt, h_attributes = attr\<rparr>"

definition fields_fit :: "BTreeControlBlock \<Rightarrow> bool" where
  "fields_fit bt \<longleftrightarrow>
     treeDepth bt < 2 ^ 16 \<and> rootNode bt < 2 ^ 32 \<and> leafRecords bt < 2 ^ 32 \<and> firstLeafNode bt < 2 ^ 32 \<and>
     lastLeafNode bt < 2 ^ 32 \<and> nodeSize bt < 2 ^ 16 \<and> maxKeyLength bt < 2 ^ 16 \<and> totalNodes bt < 2 ^ 32 \<and>
     freeNodes bt < 2 ^ 32 \<and> btreeType bt < 2 ^ 8"

lemma write_field:
  assumes "i + w \<le> length m"
  shows "v < 256 ^ w \<Longrightarrow> load w (overwrite m i (le_bytes w v)) i = Some v"
    "j + n \<le> i \<or> i + w \<le> j \<Longrightarrow> load n (overwrite m i (le_bytes w v)) j = load n m j"
  using assms load_overwrite [of i "le_bytes w v" m] by (auto simp: le_nat_le_bytes)

lemma write_header_read:
  assumes "fields_fit bt" "56 \<le> length node"
  shows "\<exists>node' attr. write_header bt node = Some node' \<and> length node' = length node \<and>
           load32 node 52 = Some attr \<and> header_of node' = Some (header_for bt attr)"
proof -
  obtain attr where attr: "load32 node 52 = Some attr" using assms(2) by (simp add: load_def)
  define n1 where "n1 = overwrite node 14 (le_bytes 2 (treeDepth bt))"
  define n2 where "n2 = overwrite n1 16 (le_bytes 4 (rootNode bt))"
  define n3 where "n3 = overwrite n2 20 (le_bytes 4 (leafRecords bt))"
  define n4 where "n4 = overwrite n3 24 (le_bytes 4 (firstLeafNode bt))"
  define n5 where "n5 = overwrite n4 28 (le_bytes 4 (lastLeafNode bt))"
  define n6 where "n6 = overwrite n5 32 (le_bytes 2 (nodeSize bt))"
  define n7 where "n7 = overwrite n6 34 (le_bytes 2 (maxKeyLength bt))"
  define n8 where "n8 = overwrite n7 36 (le_bytes 4 (totalNodes bt))"
  define n9 where "n9 = overwrite n8 40 (le_bytes 4 (freeNodes bt))"
  define n10 where "n10 = overwrite n9 50 (le_bytes 1 (btreeType bt))"
  have l1: "length n1 = length node" using assms(2)  by (simp add: n1_def del: le_bytes.simps)
  have l2: "length n2 = length node" using assms(2) l1 by (simp add: n2_def del: le_bytes.simps)
  have l3: "length n3 = length node" using assms(2) l2 by (simp add: n3_def del: le_bytes.simps)
  have l4: "length n4 = length node" using assms(2) l3 by (simp add: n4_def del: le_bytes.simps)
  have l5: "length n5 = length node" using assms(2) l4 by (simp add: n5_def del: le_bytes.simps)
  have l6: "length n6 = length node" using assms(2) l5 by (simp add: n6_def del: le_bytes.simps)
  have l7: "length n7 = length node" using assms(2) l6 by (simp add: n7_def del: le_bytes.simps)
  have l8: "length n8 = length node" using assms(2) l7 by (simp add: n8_def del: le_bytes.simps)
  have l9: "length n9 = length node" using assms(2) l8 by (simp add: n9_def del: le_bytes.simps)
  have l10: "length n10 = length node" using assms(2) l9 by (simp add: n10_def del: le_bytes.simps)
  have r1: "load 2 n1 14 = Some (treeDepth bt)" "\<And>n j. j + n \<le> 14 \<or> 16 \<le> j \<Longrightarrow> load n n1 j = load n node j"
    using write_field(1) [of 14 2 node "treeDepth bt"] write_field(2) [of 14 2 node _ _ "treeDepth bt"] assms  by (simp_all add: n1_def fields_fit_def)
  have r2: "load 4 n2 16 = Some (rootNode bt)" "\<And>n j. j + n \<le> 16 \<or> 20 \<le> j \<Longrightarrow> load n n2 j = load n n1 j"
    using write_field(1) [of 16 4 n1 "rootNode bt"] write_field(2) [of 16 4 n1 _ _ "rootNode bt"] assms l1 by (simp_all add: n2_def fields_fit_def)
  have r3: "load 4 n3 20 = Some (leafRecords bt)" "\<And>n j. j + n \<le> 20 \<or> 24 \<le> j \<Longrightarrow> load n n3 j = load n n2 j"
    using write_field(1) [of 20 4 n2 "leafRecords bt"] write_field(2) [of 20 4 n2 _ _ "leafRecords bt"] assms l2 by (simp_all add: n3_def fields_fit_def)
  have r4: "load 4 n4 24 = Some (firstLeafNode bt)" "\<And>n j. j + n \<le> 24 \<or> 28 \<le> j \<Longrightarrow> load n n4 j = load n n3 j"
    using write_field(1) [of 24 4 n3 "firstLeafNode bt"] write_field(2) [of 24 4 n3 _ _ "firstLeafNode bt"] assms l3 by (simp_all add: n4_def fields_fit_def)
  have r5: "load 4 n5 28 = Some (lastLeafNode bt)" "\<And>n j. j + n \<le> 28 \<or> 32 \<le> j \<Longrightarrow> load n n5 j = load n n4 j"
    using write_field(1) [of 28 4 n4 "lastLeafNode bt"] write_field(2) [of 28 4 n4 _ _ "lastLeafNode bt"] assms l4 by (simp_all add: n5_def fields_fit_def)
  have r6: "load 2 n6 32 = Some (nodeSize bt)" "\<And>n j. j + n \<le> 32 \<or> 34 \<le> j \<Longrightarrow> load n n6 j = load n n5 j"
    using write_field(1) [of 32 2 n5 "nodeSize bt"] write_field(2) [of 32 2 n5 _ _ "nodeSize bt"] assms l5 by (simp_all add: n6_def fields_fit_def)
  have r7: "load 2 n7 34 = Some (maxKeyLength bt)" "\<And>n j. j + n \<le> 34 \<or> 36 \<le> j \<Longrightarrow> load n n7 j = load n n6 j"
    using write_field(1) [of 34 2 n6 "maxKeyLength bt"] write_field(2) [of 34 2 n6 _ _ "maxKeyLength bt"] assms l6 by (simp_all add: n7_def fields_fit_def)
  have r8: "load 4 n8 36 = Some (totalNodes bt)" "\<And>n j. j + n \<le> 36 \<or> 40 \<le> j \<Longrightarrow> load n n8 j = load n n7 j"
    using write_field(1) [of 36 4 n7 "totalNodes bt"] write_field(2) [of 36 4 n7 _ _ "totalNodes bt"] assms l7 by (simp_all add: n8_def fields_fit_def)
  have r9: "load 4 n9 40 = Some (freeNodes bt)" "\<And>n j. j + n \<le> 40 \<or> 44 \<le> j \<Longrightarrow> load n n9 j = load n n8 j"
    using write_field(1) [of 40 4 n8 "freeNodes bt"] write_field(2) [of 40 4 n8 _ _ "freeNodes bt"] assms l8 by (simp_all add: n9_def fields_fit_def)
  have r10: "load 1 n10 50 = Some (btreeType bt)" "\<And>n j. j + n \<le> 50 \<or> 51 \<le> j \<Longrightarrow> load n n10 j = load n n9 j"
    using write_field(1) [of 50 1 n9 "btreeType bt"] write_field(2) [of 50 1 n9 _ _ "btreeType bt"] assms l9 by (simp_all add: n10_def fields_fit_def)
  have "write_header bt node = Some n10"
    using assms(2) by (simp add: write_header_def copy_in_def l1 l2 l3 l4 l5 l6 l7 l8 l9 del: le_bytes.simps
        flip: n1_def n2_def n3_def n4_def n5_def n6_def n7_def n8_def n9_def) (simp add: n10_def)
  moreover have "header_of n10 = Some (header_for bt attr)"
    using attr r10(1) by (simp add: header_of_def header_for_def r1 r2 r3 r4 r5 r6 r7 r8 r9 r10(2))
  ultimately show ?thesis using attr l10 by blast
qed

lemma clear_dirty [simp]: "clear_bits f kBTHeaderDirty AND kBTHeaderDirty = 0"
  by (simp add: clear_bits_def kBTHeaderDirty_def and_one_eq mod_2_eq_odd)

section \<open>Well-formed control blocks\<close>

definition btcb_ok :: "int \<Rightarrow> BTreeControlBlock \<Rightarrow> bool" where
  "btcb_ok eof bt \<longleftrightarrow>
     nodeSize bt \<in> {512, 1024, 2048, 4096, 8192, 16384, 32768} \<and> int (totalNodes bt * nodeSize bt) = eof \<and>
     freeNodes bt < totalNodes bt \<and> rootNode bt < totalNodes bt \<and> firstLeafNode bt < totalNodes bt \<and>
     lastLeafNode bt < totalNodes bt \<and> treeDepth bt \<le> kMaxTreeDepth \<and>
     btreeType bt \<in> {0, kUserBTreeType, kReservedBTreeType}"

lemma VerifyHeader_ok:
  "VerifyHeader eof h = noErr \<longleftrightarrow>
     h_nodeSize h \<in> {512, 1024, 2048, 4096, 8192, 16384, 32768} \<and> int (h_totalNodes h * h_nodeSize h) = eof \<and>
     h_freeNodes h < h_totalNodes h \<and> h_rootNode h < h_totalNodes h \<and> h_firstLeafNode h < h_totalNodes h \<and>
     h_lastLeafNode h < h_totalNodes h \<and> h_treeDepth h \<le> kMaxTreeDepth \<and>
     h_btreeType h \<in> {0, kUserBTreeType, kReservedBTreeType}"
  by (auto simp: VerifyHeader_def Let_def fsBTInvalidHeaderErr_def fsBTUnknownVersionErr_def noErr_def)

lemma VerifyHeader_for: "VerifyHeader eof (header_for bt a) = noErr \<longleftrightarrow> btcb_ok eof bt"
  by (simp add: VerifyHeader_ok btcb_ok_def header_for_def)

lemma btcb_of_header_ok: "VerifyHeader eof h = noErr \<Longrightarrow> btcb_ok eof (btcb_of_header h bt)"
  by (simp add: VerifyHeader_ok btcb_ok_def btcb_of_header_def)

lemma btcb_ok_nodeSize: "btcb_ok eof bt \<Longrightarrow> nodeSize bt < 2 ^ 16"
  by (auto simp: btcb_ok_def)

lemma SetBTreeBlockSize_same:
  "nodeSize bt < 2 ^ 16 \<Longrightarrow>
   SetBTreeBlockSize env (nodeSize bt) bt = (if nodeSize bt > MAXBSIZE env then fsBTBadNodeSize else noErr, bt)"
  by (simp add: SetBTreeBlockSize_def)

lemma BTOpenPath_check_keeps:
  assumes "BTOpenPath_check io env bt f = Some (err, bt', f')" "nodeSize bt < 2 ^ 16"
  shows "(bt' = bt \<or> err \<noteq> noErr) \<and> (f' = f \<or> f' = f\<lparr>file_damaged := True\<rparr>)"
  using assms(1)
  by (auto simp: BTOpenPath_check_def SetBTreeBlockSize_same [OF assms(2)] GetNode_def opened_def Let_def split: if_splits prod.splits
      Option.bind_splits)

lemma BTOpenPath_check_returns:
  assumes "btcb_ok eof bt" "length (header_block env) = physBlockSize env" "length (file_nodes f 0) = nodeSize bt"
  shows "\<exists>r. BTOpenPath_check io env bt f = Some r"
proof -
  have sz: "16 \<le> nodeSize bt" "nodeSize bt \<le> 32768" "even (nodeSize bt)" using assms(1) by (auto simp: btcb_ok_def)
  have chk: "length node = nodeSize bt \<Longrightarrow> \<exists>err. CheckNode bt e node = Some err" for node e
    using CheckNode_total sz by blast
  have "\<exists>err. CheckNode bt (file_EOF f) (file_nodes f 0) = Some err" using chk assms(3) by blast
  then have "\<exists>err nd s. GetNode io kHeaderNodeNum (opened bt f) = Some (err, nd, s)"
    by (auto simp: GetNode_def opened_def kHeaderNodeNum_def Let_def split: prod.splits)
  moreover have "\<exists>err. nodeSize bt = physBlockSize env \<longrightarrow> CheckNode bt (file_EOF f) (header_block env) = Some err"
    using chk [of "header_block env"] assms(2) by fastforce
  then obtain e where "nodeSize bt = physBlockSize env \<Longrightarrow> CheckNode bt (file_EOF f) (header_block env) = Some e" by blast
  moreover have "nodeSize bt < 2 ^ 16" using sz by simp
  ultimately show ?thesis by (auto simp: BTOpenPath_check_def SetBTreeBlockSize_same Let_def)
qed

lemma header_of_total: "56 \<le> length node \<Longrightarrow> \<exists>h. header_of node = Some h"
  by (simp add: header_of_def load_def)

text \<open>Node 0 is in the cache.\<close>

definition header_cached :: "buffer_cache \<Rightarrow> bool" where
  "header_cached io \<longleftrightarrow> bread io 0 = noErr \<and> \<not> nobuf io 0 \<and> \<not> from_disk io 0"

lemma GetNode_header:
  "header_cached io \<Longrightarrow> 0 < totalNodes (btcb s) \<Longrightarrow> GetNode io kHeaderNodeNum s = Some (noErr, Some 0, s)"
  by (simp add: GetNode_def kHeaderNodeNum_def GetBTreeBlock_bits header_cached_def)

section \<open>Properties\<close>

text \<open>
  C30: opening a B-tree file always returns. When it succeeds the file has a control
  block with a legal node size, a size that agrees with the length of the file, node
  numbers inside the file and a legal depth and type, that is not dirty and compares
  keys with the given routine; when it fails, the file stays closed. The nodes and the
  length of the file are not changed either way.
\<close>

theorem BTOpenPath_well_formed:
  assumes "fcbBTCBPtr f = None" "length (header_block env) = physBlockSize env" "512 \<le> physBlockSize env"
    and size: "\<And>h. header_of (header_block env) = Some h \<Longrightarrow> length (file_nodes f 0) = h_nodeSize h"
  shows "\<exists>err f'. BTOpenPath io env cmp f = Some (err, f') \<and> file_nodes f' = file_nodes f \<and> file_EOF f' = file_EOF f \<and>
           (case fcbBTCBPtr f' of
              None \<Rightarrow> err \<noteq> noErr
            | Some bt \<Rightarrow> err = noErr \<and> btcb_ok (file_EOF f) bt \<and> btflags bt = 0 \<and> keyCompareProc bt = cmp)"
proof -
  obtain h where h: "header_of (header_block env) = Some h" using header_of_total [of "header_block env"] assms(2,3) by auto
  have ne: "fsBTInvalidFileErr \<noteq> noErr" "memFullErr \<noteq> noErr" "fsBTBadNodeSize \<noteq> noErr"
    by (simp_all add: fsBTInvalidFileErr_def memFullErr_def fsBTBadNodeSize_def noErr_def)
  let ?bt = "btcb_of_header h ((cleared_btcb cmp)\<lparr>nodeSize := physBlockSize env mod 2 ^ 16\<rparr>)"
  let ?go = "\<not> file_EOF f < kMinNodeSize \<and> \<not> no_memory env \<and> physBlockSize env \<le> MAXBSIZE env \<and>
    fst (GetBTreeBlock io kHeaderNodeNum kGetBlock) = noErr \<and> VerifyHeader (file_EOF f) h = noErr"
  show ?thesis
  proof (cases ?go)
    case True
    have ok: "btcb_ok (file_EOF f) ?bt" using btcb_of_header_ok True by blast
    have "length (file_nodes f 0) = nodeSize ?bt" using size [OF h] by (simp add: btcb_of_header_def)
    from BTOpenPath_check_returns [OF ok assms(2) this] obtain err bt' f' where
      c: "BTOpenPath_check io env ?bt f = Some (err, bt', f')" by (metis prod_cases3)
    have "BTOpenPath io env cmp f = Some (err, if err = noErr then f'\<lparr>fcbBTCBPtr := Some bt'\<rparr> else f')"
      using True assms(1) h c by (auto simp: BTOpenPath_def SetBTreeBlockSize_def Let_def split: prod.splits)
    then show ?thesis
      using BTOpenPath_check_keeps [OF c] ok assms(1) btcb_ok_nodeSize [OF ok]
      by (auto simp: btcb_of_header_def cleared_btcb_def)
  next
    case False
    then have "\<exists>err. BTOpenPath io env cmp f = Some (err, f) \<and> err \<noteq> noErr"
      using assms(1) h ne by (auto simp: BTOpenPath_def SetBTreeBlockSize_def Let_def split: prod.splits)
    then show ?thesis using assms(1) by auto
  qed
qed

theorem BTOpenPath_well_formed_witness:
  "\<exists>block f'. BTOpenPath warm_cache
       \<lparr>physBlockSize = 1024, header_block = block, media_writeable = False, no_memory = False, MAXBSIZE = 65536\<rparr>
       CompareExtentKeysPlus \<lparr>fcbBTCBPtr = None, file_nodes = (\<lambda>n. take 512 block), file_EOF = 4096, file_damaged = False\<rparr> =
     Some (noErr, f') \<and> map_option (btcb_ok 4096) (fcbBTCBPtr f') = Some True"
proof -
  let ?f = "\<lambda>block. \<lparr>fcbBTCBPtr = None, file_nodes = (\<lambda>n. take 512 block), file_EOF = 4096, file_damaged = False\<rparr>"
  let ?env = "\<lambda>block. \<lparr>physBlockSize = 1024, header_block = block, media_writeable = False, no_memory = False, MAXBSIZE = 65536\<rparr>"
  have "fields_fit small_btree" by (simp add: fields_fit_def small_btree_def)
  then obtain block a where block: "length block = 1024" "header_of block = Some (header_for small_btree a)"
    using write_header_read [of small_btree "replicate 1024 0"] by auto
  have "btcb_ok 4096 small_btree" by (simp add: btcb_ok_def small_btree_def kMaxTreeDepth_def)
  then have v: "VerifyHeader 4096 (header_for small_btree a) = noErr" by (simp add: VerifyHeader_for)
  have "\<exists>f'. BTOpenPath warm_cache (?env block) CompareExtentKeysPlus (?f block) = Some (noErr, f')"
    using block v
    by (simp add: BTOpenPath_def BTOpenPath_check_def SetBTreeBlockSize_def GetNode_def GetBTreeBlock_bits Let_def
        kMinNodeSize_def warm_cache_def header_for_def small_btree_def btcb_of_header_def ReleaseBTreeBlock_def
        kTrashBlock_def opened_def kHeaderNodeNum_def)
  then show ?thesis
    using BTOpenPath_well_formed [of "?f block" "?env block" warm_cache CompareExtentKeysPlus] block
    by (auto simp: header_for_def small_btree_def split: option.splits)
qed

text \<open>
  C31: what \<^verbatim>\<open>UpdateHeader\<close> writes, \<^verbatim>\<open>BTReloadData\<close> reads back. When a well-formed control
  block is dirty, flushing it succeeds and leaves it clean, and reloading any other
  control block of the same file afterwards gives it the depth, root, leaf chain,
  record and node counts, key length and type of the one that was flushed. (The header node
  is taken to be in the buffer cache, so that reading it does not fail.)
\<close>

theorem header_round_trip:
  assumes "store_ok s" "btcb_ok (fcbEOF s) (btcb s)" "fields_fit (btcb s)" "header_cached io"
    and "TreeIsDirty (btcb s) \<noteq> 0"
  shows "\<exists>s1. BTFlushPath io s = Some (noErr, s1) \<and> TreeIsDirty (btcb s1) = 0 \<and>
           (\<forall>bt. 0 < totalNodes bt \<longrightarrow>
              BTReloadData io (s1\<lparr>btcb := bt\<rparr>) = Some (noErr, s1\<lparr>btcb := bt
                \<lparr>treeDepth := treeDepth (btcb s), rootNode := rootNode (btcb s), leafRecords := leafRecords (btcb s),
                 firstLeafNode := firstLeafNode (btcb s), lastLeafNode := lastLeafNode (btcb s),
                 maxKeyLength := maxKeyLength (btcb s), totalNodes := totalNodes (btcb s),
                 freeNodes := freeNodes (btcb s), btreeType := btreeType (btcb s),
                 btflags := clear_bits (btflags bt) kBTHeaderDirty\<rparr>\<rparr>))"
proof -
  have n: "0 < totalNodes (btcb s)" "56 \<le> length (buf s 0)" using assms(1,2) by (auto simp: btcb_ok_def store_ok_def)
  obtain b a where b: "write_header (btcb s) (buf s 0) = Some b" "length b = length (buf s 0)"
    "header_of b = Some (header_for (btcb s) a)"
    using write_header_read [OF assms(3) n(2)] by blast
  let ?s = "put_node 0 b s"
  have st: "store_ok ?s" using assms(1) b(2) by (simp add: store_ok_def put_node_def)
  have flush: "BTFlushPath io s = Some (noErr, ?s\<lparr>btcb := (btcb s)\<lparr>btflags := clear_bits (btflags (btcb s)) kBTHeaderDirty\<rparr>\<rparr>)"
    using assms(4,5) GetNode_header [OF assms(4) n(1)] b(1) UpdateNode_ok [OF st, of kLockTransaction io]
    by (simp add: BTFlushPath_def UpdateHeader_def TreeIsDirty_def put_node_def)
  have v: "VerifyHeader (fcbEOF s) (header_for (btcb s) a) = noErr" using assms(2) by (simp add: VerifyHeader_for)
  have "BTReloadData io (?s\<lparr>btcb := bt\<rparr>) = Some (noErr, ?s\<lparr>btcb := bt
                \<lparr>treeDepth := treeDepth (btcb s), rootNode := rootNode (btcb s), leafRecords := leafRecords (btcb s),
                 firstLeafNode := firstLeafNode (btcb s), lastLeafNode := lastLeafNode (btcb s),
                 maxKeyLength := maxKeyLength (btcb s), totalNodes := totalNodes (btcb s),
                 freeNodes := freeNodes (btcb s), btreeType := btreeType (btcb s),
                 btflags := clear_bits (btflags bt) kBTHeaderDirty\<rparr>\<rparr>)" if "0 < totalNodes bt" for bt
    using GetNode_header [OF assms(4), of "?s\<lparr>btcb := bt\<rparr>"] that b(3) v
    by (simp add: BTReloadData_def put_node_def header_for_def)
  then show ?thesis using flush by (simp add: TreeIsDirty_def)
qed

theorem header_round_trip_witness:
  "\<exists>s1 s2. BTFlushPath warm_cache
       \<lparr>btcb = extents_btree\<lparr>btflags := 1\<rparr>, node_store = (\<lambda>n. replicate 512 0), fcbEOF = 4096, damagedVolume = False\<rparr> =
       Some (noErr, s1) \<and>
     BTReloadData warm_cache (s1\<lparr>btcb := extents_btree\<lparr>rootNode := 7, treeDepth := 3\<rparr>\<rparr>) = Some (noErr, s2) \<and>
     rootNode (btcb s2) = 1 \<and> treeDepth (btcb s2) = 1"
proof -
  let ?s = "\<lparr>btcb = extents_btree\<lparr>btflags := 1\<rparr>, node_store = (\<lambda>n. replicate 512 (0 :: byte)), fcbEOF = 4096, damagedVolume = False\<rparr>"
  have "store_ok ?s" "btcb_ok (fcbEOF ?s) (btcb ?s)" "fields_fit (btcb ?s)" "header_cached warm_cache" "TreeIsDirty (btcb ?s) \<noteq> 0"
    by (simp_all add: store_ok_def btcb_ok_def fields_fit_def header_cached_def warm_cache_def TreeIsDirty_def
        kBTHeaderDirty_def extents_btree_def small_btree_def kMaxTreeDepth_def)
  from header_round_trip [OF this] obtain s1 where
    s1: "BTFlushPath warm_cache ?s = Some (noErr, s1)"
    "\<And>bt. 0 < totalNodes bt \<Longrightarrow> \<exists>s2. BTReloadData warm_cache (s1\<lparr>btcb := bt\<rparr>) = Some (noErr, s2) \<and>
       rootNode (btcb s2) = 1 \<and> treeDepth (btcb s2) = 1"
    by (auto simp: extents_btree_def small_btree_def)
  then show ?thesis using s1(2) [of "extents_btree\<lparr>rootNode := 7, treeDepth := 3\<rparr>"]
    by (auto simp: extents_btree_def small_btree_def)
qed

text \<open>
  C32: \<^verbatim>\<open>VerifyHeader\<close> lets through a tree of depth 16, but the path table has the levels
  0 to 15 only. On a tree of that depth whose root is an index node of height 16,
  \<^verbatim>\<open>SearchTree\<close> writes behind the end of its caller's path table.
\<close>

theorem SearchTree_depth_overflow:
  fixes kval :: "byte list \<Rightarrow> 'k :: linorder"
  assumes "key_order (keyCompareProc (btcb s)) valid kval" "btcb_ok (fcbEOF s) (btcb s)" "treeDepth (btcb s) = 16"
    and "node_at s (rootNode (btcb s)) 16 kBTIndexNode recs" "readable io s (rootNode (btcb s))"
    and "\<forall>r \<in> set recs. valid r" "sorted_wrt (<) (map kval recs)" "valid key"
  shows "VerifyHeader (fcbEOF s) (header_for (btcb s) (attributes (btcb s))) = noErr \<and> SearchTree io key tp s = None"
proof -
  have "\<exists>found i. SearchNode (btcb s) (buf s (rootNode (btcb s))) key = Some (found, i)"
    using SearchNode_finds [OF _ refl _ assms(8) assms(6,7), of "btcb s" 14] assms(1,4)
    unfolding node_at_def by blast
  then obtain found i where sn: "SearchNode (btcb s) (buf s (rootNode (btcb s))) key = Some (found, i)" by blast
  have k: "kBTIndexNode \<noteq> kBTLeafNode" by (simp add: kBTIndexNode_def kBTLeafNode_def)
  have "SearchTree_loop io key (Suc 15) (rootNode (btcb s)) (tp(0 := (0, 0))) s = None"
    using assms(4) GetNode_readable [OF assms(5)] sn k unfolding SearchTree_loop.simps(2) [of io key 15]
    by (simp add: node_at_def set_path_def kMaxTreeDepth_def)
  then show ?thesis
    using assms(2,3) by (simp add: VerifyHeader_for SearchTree_def set_path_def kMaxTreeDepth_def)
qed

definition deep_tree :: "byte list \<Rightarrow> btree" where
  "deep_tree node =
     \<lparr>btcb = extents_btree\<lparr>treeDepth := 16\<rparr>, node_store = (\<lambda>n. node), fcbEOF = 4096, damagedVolume = False\<rparr>"

theorem SearchTree_depth_overflow_witness:
  "\<exists>node. VerifyHeader 4096 (header_for (extents_btree\<lparr>treeDepth := 16\<rparr>) 2) = noErr \<and>
     SearchTree warm_cache [10, 0, 0, 0, 16, 0, 0, 0, 5, 0, 0, 0] (\<lambda>_. (0, 0)) (deep_tree node) = None"
proof -
  let ?bt = "extents_btree\<lparr>treeDepth := 16\<rparr>"
  have sz: "nodeSize ?bt = 512" "length extents_record = 76"
    by (simp_all add: extents_btree_def small_btree_def extents_record_def)
  then obtain node where node: "node_rep ?bt 14 [extents_record] node" "descr node 0 0 kBTIndexNode 16"
    using make_node [of ?bt "[extents_record]" 0 0 kBTIndexNode 16] by (auto simp: kBTIndexNode_def)
  have bt: "btcb (deep_tree node) = ?bt" "fcbEOF (deep_tree node) = 4096" "rootNode ?bt = 1" "totalNodes ?bt = 8"
    "keyCompareProc ?bt = CompareExtentKeysPlus" "attributes ?bt = 2" "buf (deep_tree node) 1 = node"
    by (simp_all add: deep_tree_def extents_btree_def small_btree_def)
  have ok: "btcb_ok 4096 ?bt" by (simp add: btcb_ok_def extents_btree_def small_btree_def kMaxTreeDepth_def)
  have "node_at (deep_tree node) 1 16 kBTIndexNode [extents_record]"
    using node bt by (simp add: node_at_def descr_def)
  then show ?thesis
    using SearchTree_depth_overflow [of "deep_tree node" "\<lambda>key. 12 \<le> length key" extent_kval_plus "[extents_record]" warm_cache
        "[10, 0, 0, 0, 16, 0, 0, 0, 5, 0, 0, 0]" "\<lambda>_. (0, 0)"] extent_keys_plus.key_order_axioms ok bt sz(2)
    by auto
qed

end
