(* ===== verification/ExtentMap.thy ===== *)
theory ExtentMap
  imports BTreeIterate VolAlloc
begin

text \<open>
  From file positions to disk blocks: \<^verbatim>\<open>FindExtentRecord\<close>, \<^verbatim>\<open>SearchExtentRecord\<close>,
  \<^verbatim>\<open>SearchExtentFile\<close>, \<^verbatim>\<open>MapFileBlockC\<close>, \<^verbatim>\<open>ReleaseExtents\<close> and \<^verbatim>\<open>NodesAreContiguous\<close> of
  \<^verbatim>\<open>src/hfsplus/hfscommon/Misc/FileExtentMapping.c\<close>. The first extents of a fork are in its
  FCB, the others in records of the extents B-tree, found with \<^verbatim>\<open>BTSearchRecord\<close> and
  \<^verbatim>\<open>BTIterateRecord\<close>.

  File positions are not negative. Buffers on the stack that the C code leaves
  uninitialised are arguments (\<open>junk\<close>, and the key and data a caller passes in).
  Keys and extent records are in the byte order of the machine.
\<close>

section \<open>Extent records\<close>

definition kHFSSigWord :: nat where "kHFSSigWord = 0x4244"
definition kHFSExtentDensity :: nat where "kHFSExtentDensity = 3"
definition kHFSPlusExtentDensity :: nat where "kHFSPlusExtentDensity = 8"
definition kHFSExtentKeyMaximumLength :: nat where "kHFSExtentKeyMaximumLength = 7"
definition kHFSPlusExtentKeyMaximumLength :: nat where "kHFSPlusExtentKeyMaximumLength = 10"
definition kDataForkType :: nat where "kDataForkType = 0"
definition kResourceForkType :: nat where "kResourceForkType = 0xFF"
definition kNoHint :: nat where "kNoHint = 0"

type_synonym HFSPlusExtentRecord = "HFSPlusExtentDescriptor list"

record HFSPlusExtentKey =
  xk_keyLength :: nat
  xk_forkType :: nat
  xk_pad :: nat
  xk_fileID :: nat
  xk_startBlock :: nat

text \<open>The part of the file fork and cnode that is used here.\<close>

record FCB =
  fcbExtents :: HFSPlusExtentRecord
  ff_blocks :: nat
  ff_size :: int
  is_rsrc :: bool
  c_fileid :: nat

definition extent_at :: "byte list \<Rightarrow> nat \<Rightarrow> nat \<Rightarrow> HFSPlusExtentDescriptor" where
  "extent_at bs w i =
     \<lparr>startBlock = le_nat (slice bs (2 * w * i) w), blockCount = le_nat (slice bs (2 * w * i + w) w)\<rparr>"

definition plus_extents :: "byte list \<Rightarrow> HFSPlusExtentRecord" where
  "plus_extents bs = map (extent_at bs 4) [0 ..< kHFSPlusExtentDensity]"

definition hfs_extents :: "byte list \<Rightarrow> HFSPlusExtentRecord" where
  "hfs_extents bs =
     map (extent_at bs 2) [0 ..< kHFSExtentDensity] @
     replicate (kHFSPlusExtentDensity - kHFSExtentDensity) \<lparr>startBlock = 0, blockCount = 0\<rparr>"

definition hfs_key_bytes :: "nat \<Rightarrow> nat \<Rightarrow> nat \<Rightarrow> byte list" where
  "hfs_key_bytes forkType fileID start =
     le_bytes 1 kHFSExtentKeyMaximumLength @ le_bytes 1 forkType @ le_bytes 4 fileID @ le_bytes 2 start"

definition plus_key_bytes :: "nat \<Rightarrow> nat \<Rightarrow> nat \<Rightarrow> byte list" where
  "plus_key_bytes forkType fileID start =
     le_bytes 2 kHFSPlusExtentKeyMaximumLength @ le_bytes 1 forkType @ le_bytes 1 0 @ le_bytes 4 fileID @ le_bytes 4 start"

section \<open>\<open>FindExtentRecord\<close>\<close>

text \<open>A cleared iterator with a key.\<close>

definition key_iterator :: "byte list \<Rightarrow> BTreeIterator" where
  "key_iterator key =
     \<lparr>hint_writeCount = 0, hint_nodeNum = 0, hint_index = 0, hitCount = 0, maxLeafRecs = 0,
      it_key = key @ replicate (sizeof_BTreeKey - length key) 0\<rparr>"

text \<open>
  The search both branches make: the record with the key, or the one before if that
  is allowed and it is of the same fork. The outputs: status, iterator, data, tree.
\<close>

definition find_extent ::
  "buffer_cache \<Rightarrow> byte list \<Rightarrow> nat \<Rightarrow> byte list \<Rightarrow> bool \<Rightarrow> (byte list \<Rightarrow> bool) \<Rightarrow> btree \<Rightarrow>
   (OSErr \<times> BTreeIterator \<times> byte list \<times> btree) option" where
  "find_extent io key itemsize junk allowPrevious same_fork s = do {
     let it = key_iterator key;
     let btRecord = \<lparr>bufferAddress = take itemsize junk, itemSize = itemsize, itemCount = 1\<rparr>;
     (err, btRecord, btRecordSize, _, it, s) \<leftarrow> BTSearchRecord io it (Some btRecord) 0 (Some it) s;
     if err = btNotFound \<and> allowPrevious then do {
       (err, btRecord, btRecordSize, it, s) \<leftarrow> BTIterateRecord io kBTreePrevRecord it btRecord s;
       it \<leftarrow> it;
       btRecord \<leftarrow> btRecord;
       let err = (if err = fsBTStartOfIterationErr then btNotFound else err);
       let err = (if err = noErr \<and> \<not> same_fork (it_key it) then btNotFound else err);
       Some (err, it, bufferAddress btRecord, s)
     }
     else do {
       it \<leftarrow> it;
       btRecord \<leftarrow> btRecord;
       Some (err, it, bufferAddress btRecord, s)
     }
   }"

text \<open>The outputs: status, key, data, hint and tree.\<close>

definition FindExtentRecord ::
  "buffer_cache \<Rightarrow> ExtendedVCB \<Rightarrow> byte list \<Rightarrow> nat \<Rightarrow> nat \<Rightarrow> nat \<Rightarrow> bool \<Rightarrow> HFSPlusExtentKey \<Rightarrow> HFSPlusExtentRecord \<Rightarrow>
   btree \<Rightarrow> (OSErr \<times> HFSPlusExtentKey \<times> HFSPlusExtentRecord \<times> nat \<times> btree) option" where
  "FindExtentRecord io vcb junk forkType fileID start allowPrevious foundKey foundData s =
     (if vcbSigWord vcb = kHFSSigWord then do {
        (err, it, d, s) \<leftarrow> find_extent io (hfs_key_bytes forkType fileID start) 12 junk allowPrevious
           (\<lambda>key. le_nat (slice key 2 4) = fileID \<and> le_nat (slice key 1 1) = forkType) s;
        let k = it_key it;
        let (foundKey, foundData) =
          (if err = noErr
           then (\<lparr>xk_keyLength = kHFSPlusExtentKeyMaximumLength, xk_forkType = le_nat (slice k 1 1), xk_pad = 0,
                  xk_fileID = le_nat (slice k 2 4), xk_startBlock = le_nat (slice k 6 2)\<rparr>, hfs_extents d)
           else (foundKey, foundData));
        Some (err, foundKey, foundData, hint_nodeNum it, s)
      }
      else do {
        (err, it, d, s) \<leftarrow> find_extent io (plus_key_bytes forkType fileID start) 64 junk allowPrevious
           (\<lambda>key. le_nat (slice key 4 4) = fileID \<and> le_nat (slice key 2 1) = forkType) s;
        let k = it_key it;
        let (foundKey, foundData) =
          (if err = noErr
           then (\<lparr>xk_keyLength = le_nat (slice k 0 2), xk_forkType = le_nat (slice k 2 1), xk_pad = le_nat (slice k 3 1),
                  xk_fileID = le_nat (slice k 4 4), xk_startBlock = le_nat (slice k 8 4)\<rparr>, plus_extents d)
           else (foundKey, foundData));
        Some (err, foundKey, foundData, hint_nodeNum it, s)
      })"

section \<open>\<open>SearchExtentRecord\<close> and \<open>SearchExtentFile\<close>\<close>

definition numberOfExtents :: "ExtendedVCB \<Rightarrow> nat" where
  "numberOfExtents vcb = (if vcbSigWord vcb = kHFSPlusSigWord then kHFSPlusExtentDensity else kHFSExtentDensity)"

text \<open>The loop: whether the extent was found, its index and the end so far.\<close>

primrec SearchExtentRecord_loop ::
  "nat \<Rightarrow> HFSPlusExtentDescriptor list \<Rightarrow> nat \<Rightarrow> nat \<Rightarrow> bool \<times> nat \<times> nat" where
  "SearchExtentRecord_loop searchFABN [] extentIndex ending = (False, extentIndex, ending)"
| "SearchExtentRecord_loop searchFABN (e # es) extentIndex ending =
     (if blockCount e = 0 then (False, extentIndex, ending)
      else
        let ending = u32_add ending (blockCount e)
        in if searchFABN < ending then (True, extentIndex, ending)
           else SearchExtentRecord_loop searchFABN es (extentIndex + 1) ending)"

text \<open>The outputs: status, index, \<^verbatim>\<open>endingFABNPlusOne\<close> and \<^verbatim>\<open>noMoreExtents\<close>.\<close>

definition SearchExtentRecord ::
  "ExtendedVCB \<Rightarrow> nat \<Rightarrow> HFSPlusExtentRecord \<Rightarrow> nat \<Rightarrow> OSErr \<times> nat \<times> nat \<times> bool" where
  "SearchExtentRecord vcb searchFABN extentData extentDataStartFABN =
     (case SearchExtentRecord_loop searchFABN (take (numberOfExtents vcb) extentData) 0 extentDataStartFABN of
        (foundExtent, extentIndex, ending) \<Rightarrow>
          if foundExtent then (noErr, extentIndex, ending, False)
          else (fxRangeErr, if extentIndex > 0 then extentIndex - 1 else 0, ending,
                extentIndex < numberOfExtents vcb))"

definition GetFCBExtentRecord :: "FCB \<Rightarrow> OSErr \<times> HFSPlusExtentRecord" where
  "GetFCBExtentRecord fcb = (noErr, fcbExtents fcb)"

text \<open>The outputs: status, key, data, index, hint, \<^verbatim>\<open>endingFABNPlusOne\<close> and tree.\<close>

definition SearchExtentFile ::
  "buffer_cache \<Rightarrow> ExtendedVCB \<Rightarrow> FCB \<Rightarrow> byte list \<Rightarrow> HFSPlusExtentKey \<Rightarrow> nat \<Rightarrow> btree \<Rightarrow>
   (OSErr \<times> HFSPlusExtentKey \<times> HFSPlusExtentRecord \<times> nat \<times> nat \<times> nat \<times> btree) option" where
  "SearchExtentFile io vcb fcb junk foundKey filePosition s =
     (let filePositionBlock = (filePosition div blockSize vcb) mod 2 ^ 32;
          foundData = fcbExtents fcb;
          (err, foundIndex, ending, noMoreExtents) = SearchExtentRecord vcb filePositionBlock foundData 0
      in if err = noErr then Some (noErr, foundKey\<lparr>xk_keyLength := 0\<rparr>, foundData, foundIndex, kNoHint, ending, s)
         else if noMoreExtents
         then Some (fxRangeErr, foundKey\<lparr>xk_keyLength := 0\<rparr>, foundData, foundIndex, kNoHint, ending, s)
         else do {
           (err, foundKey, foundData, hint, s) \<leftarrow>
             FindExtentRecord io vcb junk (if is_rsrc fcb then kResourceForkType else kDataForkType) (c_fileid fcb)
               filePositionBlock True foundKey foundData s;
           if err = btNotFound
           then Some (fxRangeErr, foundKey\<lparr>xk_keyLength := 0\<rparr>, snd (GetFCBExtentRecord fcb), foundIndex, kNoHint, ending, s)
           else if err = noErr then
             let (err, foundIndex, ending, noMoreExtents) =
                   SearchExtentRecord vcb filePositionBlock foundData (xk_startBlock foundKey)
             in Some (err, foundKey, foundData, foundIndex, hint, ending, s)
           else Some (err, foundKey, foundData, foundIndex, hint, ending, s)
         })"

section \<open>\<open>MapFileBlockC\<close>\<close>

text \<open>The outputs: status, start sector and available bytes, and the tree.\<close>

text \<open>The cast of a \<^verbatim>\<open>size_t\<close> to the signed \<^verbatim>\<open>off_t\<close>, both of 64 bits.\<close>

definition off_t :: "nat \<Rightarrow> int" where
  "off_t n = (if n < 2 ^ 63 then int n else int n - 2 ^ 64)"

definition MapFileBlockC ::
  "buffer_cache \<Rightarrow> ExtendedVCB \<Rightarrow> FCB \<Rightarrow> byte list \<Rightarrow> HFSPlusExtentKey \<Rightarrow> nat \<Rightarrow> nat \<Rightarrow> btree \<Rightarrow>
   (OSErr \<times> (int \<times> int) option \<times> btree) option" where
  "MapFileBlockC io vcb fcb junk key0 numberOfBytes offset s = do {
     let allocBlockSize = blockSize vcb;
     let sectorSize = hfs_phys_block_size vcb;
     (err, foundKey, foundData, foundIndex, hint, nextFABN, s) \<leftarrow> SearchExtentFile io vcb fcb junk key0 offset s;
     if err \<noteq> noErr then Some (err, None, s)
     else do {
       let startBlock = startBlock (foundData ! foundIndex);
       let firstFABN = u32_sub nextFABN (blockCount (foundData ! foundIndex));
       let dataEnd = int (nextFABN * allocBlockSize);
       let dataEnd = (if int (ff_blocks fcb * allocBlockSize) < dataEnd then int (ff_blocks fcb * allocBlockSize) else dataEnd);
       let sectorsPerBlock = (allocBlockSize div sectorSize) mod 2 ^ 32;
       let temp = c_div (int offset - int (firstFABN * allocBlockSize)) (int sectorSize);
       let temp = temp + int ((startBlock * sectorsPerBlock) mod 2 ^ 32);
       let temp = temp + (if vcbSigWord vcb = kHFSPlusSigWord then int (hfsPlusIOPosOffset vcb div sectorSize) else vcbAlBlSt vcb);
       let tmpOff = dataEnd - int offset;
       let availableBytes = (if tmpOff > off_t numberOfBytes then int numberOfBytes else tmpOff mod 2 ^ 64);
       Some (noErr, Some (temp, availableBytes), s)
     }
   }"

section \<open>\<open>ReleaseExtents\<close>\<close>

text \<open>The loop: status, volume, blocks released so far and whether an empty extent was met.\<close>

primrec ReleaseExtents_loop ::
  "(block_ref \<Rightarrow> OSErr) \<Rightarrow> HFSPlusExtentDescriptor list \<Rightarrow> ExtendedVCB \<Rightarrow> nat \<Rightarrow> (OSErr \<times> ExtendedVCB \<times> nat \<times> bool) option" where
  "ReleaseExtents_loop rd [] vcb released = Some (noErr, vcb, released, False)"
| "ReleaseExtents_loop rd (e # es) vcb released =
     (if blockCount e = 0 then Some (noErr, vcb, released, True)
      else do {
        (err, vcb) \<leftarrow> BlockDeallocate rd vcb (startBlock e) (blockCount e);
        if err \<noteq> noErr then Some (err, vcb, released, False)
        else ReleaseExtents_loop rd es vcb (u32_add released (blockCount e))
      })"

definition ReleaseExtents ::
  "(block_ref \<Rightarrow> OSErr) \<Rightarrow> ExtendedVCB \<Rightarrow> HFSPlusExtentRecord \<Rightarrow> (OSErr \<times> ExtendedVCB \<times> nat \<times> bool) option" where
  "ReleaseExtents rd vcb extentRecord = ReleaseExtents_loop rd (take (numberOfExtents vcb) extentRecord) vcb 0"

section \<open>\<open>NodesAreContiguous\<close>\<close>

text \<open>The loop of \<^verbatim>\<open>ExtentsAreIntegral\<close>: result, blocks checked and whether an empty extent was met.\<close>

primrec ExtentsAreIntegral_loop :: "nat \<Rightarrow> HFSPlusExtentDescriptor list \<Rightarrow> nat \<Rightarrow> bool \<times> nat \<times> bool" where
  "ExtentsAreIntegral_loop msk [] blocksChecked = (True, blocksChecked, False)"
| "ExtentsAreIntegral_loop msk (e # es) blocksChecked =
     (if blockCount e = 0 then (True, blocksChecked, True)
      else
        let blocksChecked = u32_add blocksChecked (blockCount e)
        in if and (blockCount e) msk \<noteq> 0 then (False, blocksChecked, False)
           else ExtentsAreIntegral_loop msk es blocksChecked)"

definition ExtentsAreIntegral :: "HFSPlusExtentRecord \<Rightarrow> nat \<Rightarrow> bool \<times> nat \<times> bool" where
  "ExtentsAreIntegral extentRecord msk = ExtentsAreIntegral_loop msk (take kHFSPlusExtentDensity extentRecord) 0"

partial_function (option) NodesAreContiguous_loop ::
  "buffer_cache \<Rightarrow> ExtendedVCB \<Rightarrow> byte list \<Rightarrow> nat \<Rightarrow> nat \<Rightarrow> nat \<Rightarrow> HFSPlusExtentKey \<Rightarrow> HFSPlusExtentRecord \<Rightarrow> btree \<Rightarrow>
   (bool \<times> btree) option" where
  "NodesAreContiguous_loop io vcb junk fileID msk start key extents s = do {
     (result, key, extents, hint, s) \<leftarrow> FindExtentRecord io vcb junk kDataForkType fileID start False key extents s;
     if result \<noteq> noErr then Some (True, s)
     else
       let (ok, blocksChecked, lastExtentReached) = ExtentsAreIntegral extents msk
       in if \<not> ok then Some (False, s)
          else if lastExtentReached then Some (True, s)
          else NodesAreContiguous_loop io vcb junk fileID msk (u32_add start blocksChecked) key extents s
   }"

definition NodesAreContiguous ::
  "buffer_cache \<Rightarrow> ExtendedVCB \<Rightarrow> FCB \<Rightarrow> byte list \<Rightarrow> HFSPlusExtentKey \<Rightarrow> nat \<Rightarrow> btree \<Rightarrow> (bool \<times> btree) option" where
  "NodesAreContiguous io vcb fcb junk key0 nodesize s =
     (if blockSize vcb \<ge> nodesize then Some (True, s)
      else
        let msk = nodesize div blockSize vcb - 1;
            extents = snd (GetFCBExtentRecord fcb);
            (ok, blocksChecked, lastExtentReached) = ExtentsAreIntegral extents msk
        in if \<not> ok then Some (False, s)
           else if lastExtentReached \<or> int (blocksChecked * blockSize vcb) \<ge> ff_size fcb then Some (True, s)
           else NodesAreContiguous_loop io vcb junk (c_fileid fcb) msk blocksChecked key0 extents s)"

section \<open>Finding an extent record\<close>

lemma last_at_most:
  fixes kval :: "byte list \<Rightarrow> 'k :: linorder"
  assumes "sorted_wrt (<) (map kval rs)" "r \<in> set rs"
  shows "filter (\<lambda>x. kval x \<le> kval r) rs \<noteq> [] \<and> last (filter (\<lambda>x. kval x \<le> kval r) rs) = r"
proof -
  obtain a b where rs: "rs = a @ r # b" using assms(2) by (auto simp: in_set_conv_decomp)
  have "\<forall>x \<in> set b. kval r < kval x" using assms(1) unfolding rs by (simp add: sorted_wrt_append)
  then have "filter (\<lambda>x. kval x \<le> kval r) b = []" by (auto simp: filter_empty_conv)
  then show ?thesis unfolding rs by simp
qed

lemma leaf_chain_damaged [simp]: "leaf_chain (s\<lparr>damagedVolume := b\<rparr>) lvs = leaf_chain s lvs"
  by (simp add: leaf_chain_def)

lemma key_position_readable:
  assumes "tree_in io valid kval s t" "key_position kval k (leaves t) n i"
  shows "readable io s n"
proof -
  obtain pre recs post where "leaves t = pre @ (n, recs) # post" using assms(2) unfolding key_position_def by blast
  then have "(n, recs) \<in> set (leaves t)" by simp
  from tree_in_leaf(4) [OF assms(1) this] show ?thesis .
qed

text \<open>What a search among the records \<open>rs\<close> is to give: the last one whose key is at most \<open>k\<close>, if it is one of the fork.\<close>

definition extent_target ::
  "(byte list \<Rightarrow> 'k :: linorder) \<Rightarrow> ('k \<Rightarrow> bool) \<Rightarrow> 'k \<Rightarrow> byte list list \<Rightarrow> byte list option" where
  "extent_target kval fork k rs =
     (let below = filter (\<lambda>r. kval r \<le> k) rs in if below \<noteq> [] \<and> fork (kval (last below)) then Some (last below) else None)"

lemma copied_whole:
  "length b = n \<Longrightarrow> length (rec_data bt r) = n \<Longrightarrow> n < 2 ^ 32 \<Longrightarrow>
     bufferAddress (copied_record bt \<lparr>bufferAddress = b, itemSize = n, itemCount = 1\<rparr> r) = rec_data bt r"
  by (simp add: copied_record_def overwrite_def)

lemma find_extent_finds:
  fixes kval :: "byte list \<Rightarrow> 'k :: linorder"
  assumes t: "tree_in io valid kval s t" "leaf_chain s (leaves t)"
    and key: "key_ok (btcb s) valid (it_key (key_iterator key))" "length key \<le> sizeof_BTreeKey"
    and k: "kval (it_key (key_iterator key)) = k" "fork k"
    and sf: "\<And>key. valid key \<Longrightarrow> same_fork key \<longleftrightarrow> fork (kval key)"
    and d: "\<And>r. r \<in> set (records t) \<Longrightarrow> length (rec_data (btcb s) r) = n" "n \<le> length junk" "n < 2 ^ 32"
  shows "\<exists>err it data s'. find_extent io key n junk True same_fork s = Some (err, it, data, s') \<and>
           (s' = s \<or> s' = s\<lparr>damagedVolume := True\<rparr>) \<and>
           (case extent_target kval fork k (records t) of
              None \<Rightarrow> err = btNotFound
            | Some r \<Rightarrow> err = noErr \<and> valid (it_key it) \<and> kval (it_key it) = kval r \<and> data = rec_data (btcb s) r)"
proof -
  let ?it = "key_iterator key" and ?rd = "\<lparr>bufferAddress = take n junk, itemSize = n, itemCount = 1\<rparr>"
  have len: "length (it_key ?it) = sizeof_BTreeKey" using key(2) by (simp add: key_iterator_def)
  have b: "buffers_ok ?rd ?it" using len d(2) by (simp add: buffers_ok_def)
  have so: "sorted_wrt (<) (map kval (records t))" using tree_in_sorted [OF t(1)] by (simp add: records_def)
  have nf: "fsBTRecordNotFoundErr = btNotFound" "btNotFound \<noteq> noErr" "fsBTStartOfIterationErr \<noteq> noErr"
    by (simp_all add: fsBTRecordNotFoundErr_def oserr_defs fsBTStartOfIterationErr_def)
  obtain res where res: "BTSearchRecord io ?it (Some ?rd) 0 (Some ?it) s = Some res" "found_or_not valid kval s t k ?rd 0 res"
    using BTSearchRecord_finds [OF t(1) key(1) len b, of 0] k(1) by blast
  from res(2) obtain sit rit s' where s': "s' = s \<or> s' = s\<lparr>damagedVolume := True\<rparr>" and c: "carries valid kval k rit"
    and alt: "(\<exists>r \<in> set (records t). kval r = k \<and>
        res = (noErr, Some (copied_record (btcb s) ?rd r), length (rec_data (btcb s) r), sit, Some rit, s')) \<or>
      (\<forall>r \<in> set (records t). kval r \<noteq> k) \<and> res = (fsBTRecordNotFoundErr, Some ?rd, 0, sit, Some rit, s') \<and>
      (\<exists>i. key_position kval k (leaves t) (hint_nodeNum rit) i)"
    unfolding found_or_not_def by blast
  from alt show ?thesis
  proof (elim disjE bexE conjE exE)
    fix r
    assume r: "r \<in> set (records t)" "kval r = k"
      "res = (noErr, Some (copied_record (btcb s) ?rd r), length (rec_data (btcb s) r), sit, Some rit, s')"
    then have "find_extent io key n junk True same_fork s = Some (noErr, rit, rec_data (btcb s) r, s')"
      using res(1) nf d d(3) copied_whole [of "take n junk" n "btcb s" r] by (simp add: find_extent_def)
    moreover have "extent_target kval fork k (records t) = Some r"
      using last_at_most [OF so r(1)] r(2) k(2) by (simp add: extent_target_def)
    ultimately show ?thesis using s' c r(2) by (auto simp: carries_def)
  next
    fix i
    assume no: "\<forall>r \<in> set (records t). kval r \<noteq> k" "res = (fsBTRecordNotFoundErr, Some ?rd, 0, sit, Some rit, s')"
      and pos: "key_position kval k (leaves t) (hint_nodeNum rit) i"
    have t': "tree_in io valid kval s' t" "leaf_chain s' (leaves t)" "btcb s' = btcb s" using t s' by auto
    have kv: "kval (it_key rit) = k" "valid (it_key rit)" "length (it_key rit) = sizeof_BTreeKey" using c by (simp_all add: carries_def)
    have b': "buffers_ok ?rd rit" using kv(3) d(2) by (simp add: buffers_ok_def)
    obtain res' where it: "BTIterateRecord io kBTreePrevRecord (Some rit) (Some ?rd) s' = Some res'"
      "iterated valid kval kBTreePrevRecord (iteration_target kBTreePrevRecord kval k (records t)) ?rd s' res'"
      using BTIterateRecord_prev [OF t'(1,2) b' kv(2)] key_position_readable [OF t'(1) pos] kv(1) by blast
    have "filter (\<lambda>r. kval r < k) (records t) = filter (\<lambda>r. kval r \<le> k) (records t)"
      using no(1) by (intro filter_cong) (auto simp: less_le)
    then have tg: "iteration_target kBTreePrevRecord kval k (records t) =
        (let below = filter (\<lambda>r. kval r \<le> k) (records t) in if below = [] then None else Some (last below))"
      by (simp add: iteration_target_def operations_distinct)
    show ?thesis
    proof (cases "filter (\<lambda>r. kval r \<le> k) (records t) = []")
      case True
      then have "\<exists>it'. res' = (fsBTStartOfIterationErr, Some ?rd, 0, Some it', s')"
        using it(2) tg by (simp add: iterated_def)
      then obtain it' where "find_extent io key n junk True same_fork s = Some (btNotFound, it', take n junk, s')"
        using res(1) no(2) nf it(1) by (auto simp: find_extent_def)
      then show ?thesis using s' True by (auto simp: extent_target_def)
    next
      case False
      let ?r = "last (filter (\<lambda>r. kval r \<le> k) (records t))"
      have r: "?r \<in> set (records t)" using False last_in_set filter_is_subset by fastforce
      obtain it' where it': "res' = (noErr, Some (copied_record (btcb s) ?rd ?r), length (rec_data (btcb s) ?r), Some it', s')"
        "carries valid kval (kval ?r) it'"
        using it(2) tg False t'(3) by (auto simp: iterated_def Let_def)
      have "find_extent io key n junk True same_fork s =
          Some (if fork (kval ?r) then noErr else btNotFound, it', rec_data (btcb s) ?r, s')"
        using res(1) no(2) nf it(1) it' sf [of "it_key it'"] d(2,3) d(1) [OF r] copied_whole [of "take n junk" n "btcb s" ?r]
        by (auto simp: find_extent_def carries_def)
      then show ?thesis using s' False it'(2) by (auto simp: extent_target_def carries_def)
    qed
  qed
qed

text \<open>The keys \<^verbatim>\<open>FindExtentRecord\<close> makes on an HFS Plus volume.\<close>

lemma plus_key:
  assumes "f < 256" "fid < 2 ^ 32" "st < 2 ^ 32" "BigKeys bt"
  shows "extent_kval_plus (it_key (key_iterator (plus_key_bytes f fid st))) = (fid, f, st)"
    "key_ok bt (\<lambda>key. 12 \<le> length key) (it_key (key_iterator (plus_key_bytes f fid st)))"
    "length (plus_key_bytes f fid st) = 12"
proof -
  show len: "length (plus_key_bytes f fid st) = 12" by (simp add: plus_key_bytes_def del: le_bytes.simps)
  let ?k = "plus_key_bytes f fid st"
  have sl: "slice ?k 0 2 = le_bytes 2 10" "slice ?k 2 (Suc 0) = le_bytes (Suc 0) f" "slice ?k 4 4 = le_bytes 4 fid" "slice ?k 8 4 = le_bytes 4 st"
    by (simp_all add: plus_key_bytes_def slice_def kHFSPlusExtentKeyMaximumLength_def del: le_bytes.simps)
  have ext: "slice (?k @ z) i n = slice ?k i n" if "i + n \<le> 12" for z i n
    using slice_prefix that len by simp
  show "extent_kval_plus (it_key (key_iterator ?k)) = (fid, f, st)"
    using assms by (simp add: extent_kval_plus_def key_iterator_def ext sl le_nat_le_bytes del: le_bytes.simps)
  have "CalcKeySize bt (it_key (key_iterator ?k)) = Some 12"
    using assms(4) len by (simp add: CalcKeySize_def key_iterator_def load_def ext sl le_nat_le_bytes del: le_bytes.simps)
  then show "key_ok bt (\<lambda>key. 12 \<le> length key) (it_key (key_iterator ?k))"
    using len by (simp add: key_ok_def key_iterator_def sizeof_BTreeKey_def)
qed

text \<open>The extents B-tree of an HFS Plus volume, and the records it has of a fork.\<close>

definition extents_tree :: "buffer_cache \<Rightarrow> btree \<Rightarrow> tnode \<Rightarrow> bool" where
  "extents_tree io s t \<longleftrightarrow>
     tree_in io (\<lambda>key. 12 \<le> length key) extent_kval_plus s t \<and> leaf_chain s (leaves t) \<and> BigKeys (btcb s) \<and>
     (\<forall>r \<in> set (records t). length (rec_data (btcb s) r) = 64)"

definition same_fork :: "nat \<Rightarrow> nat \<Rightarrow> nat \<times> nat \<times> nat \<Rightarrow> bool" where
  "same_fork fid f k \<longleftrightarrow> fst k = fid \<and> fst (snd k) = f"

definition overflow :: "BTreeControlBlock \<Rightarrow> tnode \<Rightarrow> nat \<Rightarrow> nat \<Rightarrow> (nat \<times> HFSPlusExtentRecord) list" where
  "overflow bt t fid f =
     map (\<lambda>r. (snd (snd (extent_kval_plus r)), plus_extents (rec_data bt r)))
       (filter (\<lambda>r. same_fork fid f (extent_kval_plus r)) (records t))"

lemma last_filter_same: "xs \<noteq> [] \<Longrightarrow> P (last xs) \<Longrightarrow> filter P xs \<noteq> [] \<and> last (filter P xs) = last xs"
  by (induction xs rule: rev_induct) auto

lemma extent_target_overflow:
  fixes t :: tnode
  assumes so: "sorted_wrt (<) (map extent_kval_plus (records t))"
  shows "map_option (\<lambda>r. (snd (snd (extent_kval_plus r)), plus_extents (rec_data bt r)))
           (extent_target extent_kval_plus (same_fork fid f) (fid, f, b) (records t)) =
         (let below = filter (\<lambda>(k, es). k \<le> b) (overflow bt t fid f) in if below = [] then None else Some (last below))"
proof -
  let ?kv = extent_kval_plus and ?g = "\<lambda>r. (snd (snd (extent_kval_plus r)), plus_extents (rec_data bt r))"
  define B where "B = filter (\<lambda>r. ?kv r \<le> (fid, f, b)) (records t)"
  have "filter (\<lambda>(k, es). k \<le> b) (overflow bt t fid f) =
      map ?g (filter (\<lambda>r. same_fork fid f (?kv r) \<and> snd (snd (?kv r)) \<le> b) (records t))"
    by (simp add: overflow_def filter_map comp_def conj_commute)
  also have "filter (\<lambda>r. same_fork fid f (?kv r) \<and> snd (snd (?kv r)) \<le> b) (records t) = filter (\<lambda>r. same_fork fid f (?kv r)) B"
    by (simp add: B_def, rule filter_cong) (auto simp: same_fork_def less_eq_prod_def)
  finally have eq: "filter (\<lambda>(k, es). k \<le> b) (overflow bt t fid f) = map ?g (filter (\<lambda>r. same_fork fid f (?kv r)) B)" .
  show ?thesis
  proof (cases "B \<noteq> [] \<and> same_fork fid f (?kv (last B))")
    case True
    then have "filter (\<lambda>r. same_fork fid f (?kv r)) B \<noteq> [] \<and> last (filter (\<lambda>r. same_fork fid f (?kv r)) B) = last B"
      using last_filter_same [of B "\<lambda>r. same_fork fid f (?kv r)"] by blast
    then show ?thesis using True unfolding eq by (simp add: extent_target_def B_def [symmetric] last_map)
  next
    case False
    have "\<not> same_fork fid f (?kv r)" if r: "r \<in> set B" for r
    proof
      assume sf: "same_fork fid f (?kv r)"
      have ne: "B \<noteq> []" using r by auto
      have "sorted_wrt (\<lambda>x y. ?kv x < ?kv y) B" using so unfolding B_def sorted_wrt_map by (rule sorted_wrt_filter)
      then have "?kv r \<le> ?kv (last B)" using r ne
        by (cases B rule: rev_cases) (auto simp: sorted_wrt_append less_imp_le)
      moreover have "last B \<in> set B" using ne by simp
      then have "?kv (last B) \<le> (fid, f, b)" by (simp add: B_def)
      ultimately have "same_fork fid f (?kv (last B))" using sf by (auto simp: same_fork_def less_eq_prod_def)
      with False ne show False by simp
    qed
    then have "filter (\<lambda>r. same_fork fid f (?kv r)) B = []" by (simp add: filter_empty_conv)
    then show ?thesis using False unfolding eq by (auto simp: extent_target_def B_def [symmetric])
  qed
qed

section \<open>The blocks of a fork\<close>

text \<open>The blocks an extent record stands for, up to its first empty extent, and those of a whole fork.\<close>

definition extent_blocks :: "HFSPlusExtentRecord \<Rightarrow> nat list" where
  "extent_blocks es =
     concat (map (\<lambda>e. [startBlock e ..< startBlock e + blockCount e]) (takeWhile (\<lambda>e. blockCount e \<noteq> 0) es))"

definition fork_blocks :: "FCB \<Rightarrow> (nat \<times> HFSPlusExtentRecord) list \<Rightarrow> nat list" where
  "fork_blocks fcb ovs = extent_blocks (fcbExtents fcb) @ concat (map (\<lambda>(k, es). extent_blocks es) ovs)"

lemma extent_blocks_Nil [simp]: "extent_blocks [] = []"
  by (simp add: extent_blocks_def)

lemma extent_blocks_Cons:
  "extent_blocks (e # es) =
     (if blockCount e = 0 then [] else [startBlock e ..< startBlock e + blockCount e] @ extent_blocks es)"
  by (simp add: extent_blocks_def)

lemma extent_blocks_empty [simp]: "extent_blocks (replicate n \<lparr>startBlock = b, blockCount = 0\<rparr>) = []"
  by (cases n) (simp_all add: extent_blocks_Cons)

lemma SearchExtentRecord_loop_finds:
  assumes "start + length (extent_blocks es) < 2 ^ 32" "start \<le> b" "b < start + length (extent_blocks es)"
  shows "\<exists>i first. i < length es \<and>
           SearchExtentRecord_loop b es idx start = (True, idx + i, first + blockCount (es ! i)) \<and>
           start \<le> first \<and> first \<le> b \<and> b < first + blockCount (es ! i) \<and>
           first + blockCount (es ! i) \<le> start + length (extent_blocks es) \<and>
           (\<forall>c. first \<le> c \<and> c < first + blockCount (es ! i) \<longrightarrow>
              extent_blocks es ! (c - start) = startBlock (es ! i) + (c - first))"
  using assms
proof (induction es arbitrary: idx start)
  case (Cons e es)
  have ne: "blockCount e \<noteq> 0" using Cons.prems by (auto simp: extent_blocks_Cons split: if_splits)
  let ?n = "start + blockCount e"
  have len: "length (extent_blocks (e # es)) = blockCount e + length (extent_blocks es)"
    using ne by (simp add: extent_blocks_Cons)
  have u: "u32_add start (blockCount e) = ?n" using Cons.prems(1) len by (simp add: u32_add_exact)
  show ?case
  proof (cases "b < ?n")
    case True
    then show ?thesis
      using ne u Cons.prems len by (intro exI [of _ 0] exI [of _ start]) (auto simp: Let_def extent_blocks_Cons nth_append)
  next
    case False
    then obtain i first where IH: "i < length es"
      "SearchExtentRecord_loop b es (idx + 1) ?n = (True, idx + 1 + i, first + blockCount (es ! i))"
      "?n \<le> first" "first \<le> b" "b < first + blockCount (es ! i)"
      "first + blockCount (es ! i) \<le> ?n + length (extent_blocks es)"
      "\<forall>c. first \<le> c \<and> c < first + blockCount (es ! i) \<longrightarrow>
         extent_blocks es ! (c - ?n) = startBlock (es ! i) + (c - first)"
      using Cons.IH [of ?n "idx + 1"] Cons.prems len by auto
    have "extent_blocks (e # es) ! (c - start) = extent_blocks es ! (c - ?n)" if "?n \<le> c" for c
    proof -
      have "\<not> c - start < blockCount e" "c - start - blockCount e = c - ?n" using that by linarith+
      then show ?thesis using ne by (simp add: extent_blocks_Cons nth_append)
    qed
    then show ?thesis
      using IH ne u False len by (intro exI [of _ "Suc i"] exI [of _ first]) (auto simp: Let_def)
  qed
qed simp

lemma SearchExtentRecord_loop_beyond:
  assumes "start + length (extent_blocks es) < 2 ^ 32" "start + length (extent_blocks es) \<le> b"
  shows "SearchExtentRecord_loop b es idx start =
           (False, idx + length (takeWhile (\<lambda>e. blockCount e \<noteq> 0) es), start + length (extent_blocks es))"
  using assms
proof (induction es arbitrary: idx start)
  case (Cons e es)
  show ?case
  proof (cases "blockCount e = 0")
    case False
    then have len: "length (extent_blocks (e # es)) = blockCount e + length (extent_blocks es)"
      by (simp add: extent_blocks_Cons)
    then have "u32_add start (blockCount e) = start + blockCount e" using Cons.prems(1) by (simp add: u32_add_exact)
    then show ?thesis using Cons.IH [of "start + blockCount e" "idx + 1"] Cons.prems len False by simp
  qed (simp add: extent_blocks_Cons)
qed simp

text \<open>Overflow records in order: each begins where the one before it ends.\<close>

fun chained :: "nat \<Rightarrow> (nat \<times> HFSPlusExtentRecord) list \<Rightarrow> bool" where
  "chained n [] \<longleftrightarrow> True"
| "chained n ((k, es) # ovs) \<longleftrightarrow> k = n \<and> extent_blocks es \<noteq> [] \<and> chained (n + length (extent_blocks es)) ovs"

lemma chained_find:
  assumes "chained n ovs" "n \<le> b" "ovs \<noteq> []"
  shows "\<exists>pre k es post. ovs = pre @ (k, es) # post \<and>
           filter (\<lambda>(k, es). k \<le> b) ovs \<noteq> [] \<and> last (filter (\<lambda>(k, es). k \<le> b) ovs) = (k, es) \<and>
           k = n + length (concat (map (\<lambda>(k, es). extent_blocks es) pre)) \<and> k \<le> b \<and>
           (b < k + length (extent_blocks es) \<or> post = [])"
  using assms
proof (induction ovs arbitrary: n)
  case (Cons o' ovs)
  obtain es where o': "o' = (n, es)" and ch: "chained (n + length (extent_blocks es)) ovs"
    using Cons.prems(1) by (cases o') auto
  show ?case
  proof (cases "n + length (extent_blocks es) \<le> b \<and> ovs \<noteq> []")
    case True
    then obtain pre k es' post where IH: "ovs = pre @ (k, es') # post" "filter (\<lambda>(k, es). k \<le> b) ovs \<noteq> []"
      "last (filter (\<lambda>(k, es). k \<le> b) ovs) = (k, es')"
      "k = n + length (extent_blocks es) + length (concat (map (\<lambda>(k, es). extent_blocks es) pre))" "k \<le> b"
      "b < k + length (extent_blocks es') \<or> post = []"
      using Cons.IH [OF ch] by blast
    show ?thesis
      by (rule exI [of _ "o' # pre"], rule exI [of _ k], rule exI [of _ es'], rule exI [of _ post])
        (use IH o' Cons.prems(2) in simp)
  next
    case False
    have key: "n + length (extent_blocks es) \<le> k" if "(k, e) \<in> set ovs" for k e
      using that ch
    proof (induction ovs arbitrary: es n)
      case (Cons a ovs)
      then show ?case by (cases a) fastforce
    qed simp
    have "filter (\<lambda>(k, es). k \<le> b) ovs = []"
      using False key by (fastforce simp: filter_empty_conv)
    then show ?thesis
      using o' Cons.prems(2) False
      by (intro exI [of _ "[]"] exI [of _ n] exI [of _ es] exI [of _ ovs]) auto
  qed
qed simp

section \<open>Searching the extents of a fork\<close>

definition fork_type :: "FCB \<Rightarrow> nat" where
  "fork_type fcb = (if is_rsrc fcb then kResourceForkType else kDataForkType)"

text \<open>
  A fork whose overflow records follow on from the extents in its FCB, which are all in
  use if there are overflow records.
\<close>

definition fork_ok :: "FCB \<Rightarrow> (nat \<times> HFSPlusExtentRecord) list \<Rightarrow> bool" where
  "fork_ok fcb ovs \<longleftrightarrow>
     length (fcbExtents fcb) = kHFSPlusExtentDensity \<and> chained (length (extent_blocks (fcbExtents fcb))) ovs \<and>
     (ovs \<noteq> [] \<longrightarrow> (\<forall>e \<in> set (fcbExtents fcb). blockCount e \<noteq> 0)) \<and>
     length (fork_blocks fcb ovs) < 2 ^ 32 \<and> c_fileid fcb < 2 ^ 32"

lemma plus_extents_length [simp]: "length (plus_extents bs) = kHFSPlusExtentDensity"
  by (simp add: plus_extents_def)

lemma FindExtentRecord_plus:
  assumes t: "extents_tree io s t" and sig: "vcbSigWord vcb = kHFSPlusSigWord"
    and k: "f < 256" "fid < 2 ^ 32" "b < 2 ^ 32" and junk: "64 \<le> length junk"
  shows "\<exists>s'. (s' = s \<or> s' = s\<lparr>damagedVolume := True\<rparr>) \<and>
    (let below = filter (\<lambda>(k, es). k \<le> b) (overflow (btcb s) t fid f) in
     if below = [] then \<exists>hint. FindExtentRecord io vcb junk f fid b True key0 data0 s = Some (btNotFound, key0, data0, hint, s')
     else \<exists>key hint. FindExtentRecord io vcb junk f fid b True key0 data0 s = Some (noErr, key, snd (last below), hint, s') \<and>
            xk_startBlock key = fst (last below))"
proof -
  let ?v = "\<lambda>key :: byte list. 12 \<le> length key" and ?key = "plus_key_bytes f fid b"
  let ?sf = "\<lambda>key :: byte list. le_nat (slice key 4 4) = fid \<and> le_nat (slice key 2 1) = f"
  have tr: "tree_in io ?v extent_kval_plus s t" "leaf_chain s (leaves t)" "BigKeys (btcb s)"
    "\<And>r. r \<in> set (records t) \<Longrightarrow> length (rec_data (btcb s) r) = 64"
    using t by (simp_all add: extents_tree_def)
  note pk = plus_key [OF k tr(3)]
  have so: "sorted_wrt (<) (map extent_kval_plus (records t))" using tree_in_sorted [OF tr(1)] by (simp add: records_def)
  have sf: "?v key \<Longrightarrow> ?sf key \<longleftrightarrow> same_fork fid f (extent_kval_plus key)" for key
    by (simp add: same_fork_def extent_kval_plus_def)
  have len: "length ?key \<le> sizeof_BTreeKey" "same_fork fid f (fid, f, b)"
    using pk(3) by (simp_all add: sizeof_BTreeKey_def same_fork_def)
  obtain err it d s' where fe: "find_extent io ?key 64 junk True ?sf s = Some (err, it, d, s')" "s' = s \<or> s' = s\<lparr>damagedVolume := True\<rparr>"
    "case extent_target extent_kval_plus (same_fork fid f) (fid, f, b) (records t) of
       None \<Rightarrow> err = btNotFound
     | Some r \<Rightarrow> err = noErr \<and> ?v (it_key it) \<and> extent_kval_plus (it_key it) = extent_kval_plus r \<and> d = rec_data (btcb s) r"
    using find_extent_finds [OF tr(1,2) pk(2) len(1) pk(1) len(2) sf tr(4) junk] by auto
  have sig': "vcbSigWord vcb \<noteq> kHFSSigWord" using sig by (simp add: kHFSSigWord_def kHFSPlusSigWord_def)
  have ne: "btNotFound \<noteq> noErr" by (simp add: oserr_defs)
  let ?below = "filter (\<lambda>(k, es). k \<le> b) (overflow (btcb s) t fid f)"
  have tg: "map_option (\<lambda>r. (snd (snd (extent_kval_plus r)), plus_extents (rec_data (btcb s) r)))
       (extent_target extent_kval_plus (same_fork fid f) (fid, f, b) (records t)) =
     (if ?below = [] then None else Some (last ?below))"
    using extent_target_overflow [OF so, of "btcb s" fid f b] by (simp add: Let_def)
  show ?thesis
  proof (cases "extent_target extent_kval_plus (same_fork fid f) (fid, f, b) (records t)")
    case None
    then have "FindExtentRecord io vcb junk f fid b True key0 data0 s = Some (btNotFound, key0, data0, hint_nodeNum it, s')"
      using fe(1,3) sig' ne by (simp add: FindExtentRecord_def)
    moreover have "?below = []" using tg None by (simp split: if_splits)
    ultimately show ?thesis using fe(2) by (intro exI [of _ s']) (simp add: Let_def)
  next
    case (Some r)
    then have r: "?below \<noteq> []" "last ?below = (snd (snd (extent_kval_plus r)), plus_extents (rec_data (btcb s) r))"
      using tg by (simp_all split: if_splits)
    have "err = noErr" "extent_kval_plus (it_key it) = extent_kval_plus r" "d = rec_data (btcb s) r" using fe(3) Some by simp_all
    then have "\<exists>key hint. FindExtentRecord io vcb junk f fid b True key0 data0 s = Some (noErr, key, snd (last ?below), hint, s') \<and>
            xk_startBlock key = fst (last ?below)"
      using fe(1) sig' r(2) by (auto simp: FindExtentRecord_def extent_kval_plus_def Let_def)
    then show ?thesis using fe(2) r(1) by (intro exI [of _ s']) (simp add: Let_def)
  qed
qed

text \<open>The extent a search found: where block \<open>b\<close> of the fork is, in the run that starts at \<open>first\<close>.\<close>

definition found_run :: "nat list \<Rightarrow> nat \<Rightarrow> HFSPlusExtentDescriptor \<Rightarrow> nat \<Rightarrow> bool" where
  "found_run bs b e first \<longleftrightarrow>
     first \<le> b \<and> b < first + blockCount e \<and> first + blockCount e \<le> length bs \<and>
     (\<forall>c. first \<le> c \<and> c < first + blockCount e \<longrightarrow> bs ! c = startBlock e + (c - first))"

lemma SearchExtentRecord_in:
  assumes bs: "bs = pre @ extent_blocks es @ post" "length bs < 2 ^ 32" and b: "length pre \<le> b" "b < length pre + length (extent_blocks es)"
    and n: "length es = kHFSPlusExtentDensity" "vcbSigWord vcb = kHFSPlusSigWord"
  shows "\<exists>i first. i < length es \<and> SearchExtentRecord vcb b es (length pre) = (noErr, i, first + blockCount (es ! i), False) \<and>
           found_run bs b (es ! i) first"
proof -
  obtain i first where r: "i < length es" "SearchExtentRecord_loop b es 0 (length pre) = (True, 0 + i, first + blockCount (es ! i))"
    "length pre \<le> first" "first \<le> b" "b < first + blockCount (es ! i)"
    "first + blockCount (es ! i) \<le> length pre + length (extent_blocks es)"
    "\<forall>c. first \<le> c \<and> c < first + blockCount (es ! i) \<longrightarrow> extent_blocks es ! (c - length pre) = startBlock (es ! i) + (c - first)"
    using SearchExtentRecord_loop_finds [of "length pre" es b 0] assms(1-4) by auto
  have "bs ! c = startBlock (es ! i) + (c - first)" if c: "first \<le> c" "c < first + blockCount (es ! i)" for c
  proof -
    have "length pre \<le> c" "c - length pre < length (extent_blocks es)" using c r(3,6) by linarith+
    then have "bs ! c = extent_blocks es ! (c - length pre)" using bs(1) by (simp add: nth_append)
    then show ?thesis using r(7) c by simp
  qed
  then have "found_run bs b (es ! i) first" using r bs(1) by (simp add: found_run_def)
  moreover have "take (numberOfExtents vcb) es = es" using n by (simp add: numberOfExtents_def)
  ultimately show ?thesis using r(1,2) by (auto simp: SearchExtentRecord_def)
qed

lemma SearchExtentRecord_beyond:
  assumes "n + length (extent_blocks es) < 2 ^ 32" "n + length (extent_blocks es) \<le> b"
    and "length es = kHFSPlusExtentDensity" "vcbSigWord vcb = kHFSPlusSigWord"
  shows "\<exists>i. SearchExtentRecord vcb b es n = (fxRangeErr, i, n + length (extent_blocks es), \<exists>e \<in> set es. blockCount e = 0)"
proof -
  have tw: "length (takeWhile P es) < length es \<longleftrightarrow> (\<exists>e \<in> set es. \<not> P e)" for P
    by (induction es) auto
  have "take (numberOfExtents vcb) es = es" "numberOfExtents vcb = length es" using assms(3,4) by (simp_all add: numberOfExtents_def)
  then show ?thesis
    using SearchExtentRecord_loop_beyond [OF assms(1,2), of 0] tw [of "\<lambda>e. blockCount e \<noteq> 0"] by (simp add: SearchExtentRecord_def)
qed

lemma SearchExtentFile_finds:
  assumes t: "extents_tree io s t" and sig: "vcbSigWord vcb = kHFSPlusSigWord"
    and ok: "fork_ok fcb (overflow (btcb s) t (c_fileid fcb) (fork_type fcb))"
    and b: "b = pos div blockSize vcb" "b < 2 ^ 32" and junk: "64 \<le> length junk"
  defines "bs \<equiv> fork_blocks fcb (overflow (btcb s) t (c_fileid fcb) (fork_type fcb))"
  shows "\<exists>s'. (s' = s \<or> s' = s\<lparr>damagedVolume := True\<rparr>) \<and>
    (if b < length bs
     then \<exists>key data i hint first. SearchExtentFile io vcb fcb junk key0 pos s =
            Some (noErr, key, data, i, hint, first + blockCount (data ! i), s') \<and> found_run bs b (data ! i) first
     else \<exists>key data i hint e. SearchExtentFile io vcb fcb junk key0 pos s = Some (fxRangeErr, key, data, i, hint, e, s'))"
proof -
  define ovs where "ovs = overflow (btcb s) t (c_fileid fcb) (fork_type fcb)"
  let ?es = "fcbExtents fcb"
  let ?n = "length (extent_blocks ?es)"
  have fo: "length ?es = kHFSPlusExtentDensity" "chained ?n ovs" "ovs \<noteq> [] \<Longrightarrow> \<forall>e \<in> set ?es. blockCount e \<noteq> 0"
    "length bs < 2 ^ 32" "c_fileid fcb < 2 ^ 32"
    using ok by (simp_all add: fork_ok_def ovs_def bs_def)
  have bs: "bs = [] @ extent_blocks ?es @ concat (map (\<lambda>(k, es). extent_blocks es) ovs)"
    by (simp add: bs_def fork_blocks_def ovs_def)
  have err: "fxRangeErr \<noteq> noErr" "btNotFound \<noteq> noErr" "fxRangeErr \<noteq> btNotFound" by (simp_all add: oserr_defs)
  define found where "found = SearchExtentFile io vcb fcb junk key0 pos s"
  have bm: "pos div blockSize vcb mod 2 ^ 32 = b" using b by simp
  have eq: "found =
     (case SearchExtentRecord vcb b ?es 0 of
        (err, i, e, noMore) \<Rightarrow>
          if err = noErr then Some (noErr, key0\<lparr>xk_keyLength := 0\<rparr>, ?es, i, kNoHint, e, s)
          else if noMore then Some (fxRangeErr, key0\<lparr>xk_keyLength := 0\<rparr>, ?es, i, kNoHint, e, s)
          else do {
            (err, key, data, hint, s) \<leftarrow> FindExtentRecord io vcb junk (fork_type fcb) (c_fileid fcb) b True key0 ?es s;
            if err = btNotFound then Some (fxRangeErr, key\<lparr>xk_keyLength := 0\<rparr>, ?es, i, kNoHint, e, s)
            else if err = noErr
            then (case SearchExtentRecord vcb b data (xk_startBlock key) of (err, i, e, _) \<Rightarrow> Some (err, key, data, i, hint, e, s))
            else Some (err, key, data, i, hint, e, s)
          })"
    unfolding found_def SearchExtentFile_def bm Let_def fork_type_def GetFCBExtentRecord_def snd_conv ..
  have main: "\<exists>s'. (s' = s \<or> s' = s\<lparr>damagedVolume := True\<rparr>) \<and>
    (if b < length bs
     then \<exists>key data i hint first. found = Some (noErr, key, data, i, hint, first + blockCount (data ! i), s') \<and>
            found_run bs b (data ! i) first
     else \<exists>key data i hint e. found = Some (fxRangeErr, key, data, i, hint, e, s'))"
  proof (cases "b < ?n")
    case True
    then obtain i first where r: "SearchExtentRecord vcb b ?es 0 = (noErr, i, first + blockCount (?es ! i), False)"
      "found_run bs b (?es ! i) first"
      using SearchExtentRecord_in [OF bs fo(4), of b vcb] fo(1) sig by auto
    moreover have "b < length bs" using True bs by simp
    ultimately have "b < length bs" "found = Some (noErr, key0\<lparr>xk_keyLength := 0\<rparr>, ?es, i, kNoHint, first + blockCount (?es ! i), s)"
      unfolding eq by simp_all
    with r(2) show ?thesis by auto
  next
    case False
    then obtain i where r: "SearchExtentRecord vcb b ?es 0 = (fxRangeErr, i, ?n, \<exists>e \<in> set ?es. blockCount e = 0)"
      using SearchExtentRecord_beyond [of 0 ?es b vcb] fo(1,4) sig bs by auto
    show ?thesis
    proof (cases "\<exists>e \<in> set ?es. blockCount e = 0")
      case True
      then have "ovs = []" using fo(3) by blast
      then have "\<not> b < length bs" using False bs by simp
      then show ?thesis using r True err unfolding eq by auto
    next
      case full: False
      let ?below = "filter (\<lambda>(k, es). k \<le> b) ovs"
      have ft: "fork_type fcb < 256" by (simp add: fork_type_def kResourceForkType_def kDataForkType_def)
      obtain s' where s': "s' = s \<or> s' = s\<lparr>damagedVolume := True\<rparr>"
        and fe: "if ?below = [] then \<exists>hint. FindExtentRecord io vcb junk (fork_type fcb) (c_fileid fcb) b True key0 ?es s = Some (btNotFound, key0, ?es, hint, s')
          else \<exists>key hint. FindExtentRecord io vcb junk (fork_type fcb) (c_fileid fcb) b True key0 ?es s = Some (noErr, key, snd (last ?below), hint, s') \<and>
            xk_startBlock key = fst (last ?below)"
        using FindExtentRecord_plus [OF t sig ft fo(5) b(2) junk, of key0 ?es] unfolding ovs_def Let_def by blast
      show ?thesis
      proof (cases "ovs = []")
        case True
        then have "\<not> b < length bs" using False bs by simp
        then show ?thesis
          using r full fe True s' err unfolding eq by (intro exI [of _ s']) auto
      next
        case ne: False
        obtain pre k es post where c: "ovs = pre @ (k, es) # post" "?below \<noteq> []" "last ?below = (k, es)"
          "k = ?n + length (concat (map (\<lambda>(k, es). extent_blocks es) pre))" "k \<le> b"
          "b < k + length (extent_blocks es) \<or> post = []"
          using chained_find [OF fo(2) _ ne, of b] False by fastforce
        have es: "length es = kHFSPlusExtentDensity" using c(1) by (auto simp: ovs_def overflow_def map_eq_append_conv map_eq_Cons_conv)
        let ?pre = "extent_blocks ?es @ concat (map (\<lambda>(k, es). extent_blocks es) pre)"
        have bs': "bs = ?pre @ extent_blocks es @ concat (map (\<lambda>(k, es). extent_blocks es) post)" using bs c(1) by simp
        have k: "k = length ?pre" using c(4) by simp
        obtain key hint where f: "FindExtentRecord io vcb junk (fork_type fcb) (c_fileid fcb) b True key0 ?es s = Some (noErr, key, es, hint, s')"
          "xk_startBlock key = k" using fe c(2,3) by auto
        show ?thesis
        proof (cases "b < k + length (extent_blocks es)")
          case True
          then obtain i first where r': "SearchExtentRecord vcb b es k = (noErr, i, first + blockCount (es ! i), False)"
            "found_run bs b (es ! i) first"
            using SearchExtentRecord_in [OF bs' fo(4) _ _ es sig, of b] c(5) k by auto
          have "b < length bs" using True k bs' by simp
          moreover have "found = Some (noErr, key, es, i, hint, first + blockCount (es ! i), s')"
            using r full f r'(1) err unfolding eq by simp
          ultimately show ?thesis using r'(2) s' by auto
        next
          case beyond: False
          then have len: "length bs = k + length (extent_blocks es)" using c(6) k bs' by auto
          then obtain i' where r': "SearchExtentRecord vcb b es k = (fxRangeErr, i', k + length (extent_blocks es), \<exists>e \<in> set es. blockCount e = 0)"
            using SearchExtentRecord_beyond [of k es b vcb] fo(4) beyond es sig by auto
          then have "found = Some (fxRangeErr, key, es, i', hint, k + length (extent_blocks es), s')"
            using r full f err unfolding eq by simp
          then show ?thesis using len beyond s' by auto
        qed
      qed
    qed
  qed
  then show ?thesis unfolding found_def .
qed

section \<open>Sectors\<close>

lemma sector_in_run:
  assumes "0 < (ss :: nat)" "ss dvd bsz" "0 < bsz" "first \<le> off div bsz"
  shows "(off - first * bsz) div ss + st * (bsz div ss) =
           (st + (off div bsz - first)) * (bsz div ss) + off mod bsz div ss"
proof -
  obtain q where q: "bsz = ss * q" using assms(2) by blast
  have "off - first * bsz = (off div bsz - first) * bsz + off mod bsz"
    using assms(4) by (metis (no_types, lifting) diff_add_assoc2 diff_mult_distrib div_mult_mod_eq mult_le_mono1)
  also have "\<dots> div ss = (off div bsz - first) * q + off mod bsz div ss"
    using assms(1) by (simp add: q div_add1_eq mult.assoc [symmetric])
  finally show ?thesis using assms(1) q by (simp add: algebra_simps)
qed

text \<open>The bytes reported as available, of \<open>n\<close> wanted and \<open>m\<close> there.\<close>

definition mapped_bytes :: "nat \<Rightarrow> nat \<Rightarrow> nat" where
  "mapped_bytes n m = (if off_t n < int m then n else m)"


lemma MapFileBlockC_run:
  fixes n :: nat
  assumes sf: "SearchExtentFile io vcb fcb junk key0 off s = Some (noErr, key, data, i, hint, first + blockCount (data ! i), s')"
    and run: "found_run bs (off div blockSize vcb) (data ! i) first" "length bs < 2 ^ 32" "ff_blocks fcb = length bs"
    and sz: "0 < hfs_phys_block_size vcb" "hfs_phys_block_size vcb dvd blockSize vcb" "0 < blockSize vcb" "blockSize vcb < 2 ^ 32"
    and sig: "vcbSigWord vcb = kHFSPlusSigWord"
  defines "b \<equiv> off div blockSize vcb" and "spb \<equiv> blockSize vcb div hfs_phys_block_size vcb"
    and "avail \<equiv> mapped_bytes n ((first + blockCount (data ! i)) * blockSize vcb - off)"
  shows "startBlock (data ! i) \<in> set bs"
    and "MapFileBlockC io vcb fcb junk key0 n off s =
    Some (noErr, Some (int (bs ! b * spb + off mod blockSize vcb div hfs_phys_block_size vcb + hfsPlusIOPosOffset vcb div hfs_phys_block_size vcb)
        - int (startBlock (data ! i) * spb div 2 ^ 32 * 2 ^ 32),
      int avail), s')"
proof -
  let ?B = "blockSize vcb" and ?ss = "hfs_phys_block_size vcb" and ?e = "data ! i"
  let ?next = "first + blockCount ?e"
  have r: "first \<le> b" "b < ?next" "?next \<le> length bs" "bs ! c = startBlock ?e + (c - first)" if "first \<le> c" "c < ?next" for c
    using run(1) that by (auto simp: found_run_def b_def)
  have r': "first \<le> b" "b < ?next" "?next \<le> length bs" using run(1) by (simp_all add: found_run_def b_def)
  have "bs ! first = startBlock ?e" "first < length bs" using r(4) [of first] r' by simp_all
  then show "startBlock ?e \<in> set bs" by (metis nth_mem)
  have spb: "spb < 2 ^ 32" using sz(4) by (metis div_le_dividend le_less_trans spb_def)
  have first: "u32_sub ?next (blockCount ?e) = first" using r'(3) run(2) by (simp add: u32_sub_exact)
  have lo: "first * ?B \<le> off" using r'(1) sz(3) by (simp add: b_def less_eq_div_iff_mult_less_eq)
  have hi: "off < ?next * ?B" using r'(2) sz(3) by (simp add: b_def div_less_iff_less_mult)
  have "?next * ?B < 2 ^ 32 * 2 ^ 32" using r'(3) run(2) sz(4) by (intro mult_strict_mono) auto
  then have big: "?next * ?B < 2 ^ 64" by simp
  have sec: "(off - first * ?B) div ?ss + startBlock ?e * spb = bs ! b * spb + off mod ?B div ?ss"
    using sector_in_run [OF sz(1-3), of first off "startBlock ?e"] r'(1,2) r(4) [of b] by (simp add: b_def spb_def)
  have cd: "c_div (int off - int (first * ?B)) (int ?ss) = int ((off - first * ?B) div ?ss)"
  proof -
    have "int off - int (first * ?B) = int (off - first * ?B)" using lo by simp
    then show ?thesis using sz(1) by (simp only: c_div_nonneg of_nat_0_le_iff of_nat_0_less_iff zdiv_int)
  qed
  have "?next * ?B \<le> ff_blocks fcb * ?B" using run(3) r'(3) by (intro mult_le_mono1) simp
  then have dataEnd: "\<not> int (ff_blocks fcb * ?B) < int (?next * ?B)" by (simp only: of_nat_less_iff not_less)
  have tmp: "int (?next * ?B) - int off = int (?next * ?B - off)" using hi by simp
  have av: "(if int (?next * ?B - off) > off_t n then int n else int (?next * ?B - off) mod 2 ^ 64) = int avail"
    using big by (auto simp: avail_def mapped_bytes_def)
  have "MapFileBlockC io vcb fcb junk key0 n off s =
    Some (noErr, Some (c_div (int off - int (first * ?B)) (int ?ss) + int ((startBlock ?e * spb) mod 2 ^ 32) + int (hfsPlusIOPosOffset vcb div ?ss),
      if int (?next * ?B) - int off > off_t n then int n else (int (?next * ?B) - int off) mod 2 ^ 64), s')"
    using sf first dataEnd sig spb by (simp add: MapFileBlockC_def Let_def spb_def del: of_nat_mult of_nat_add of_nat_less_iff)
  also have "c_div (int off - int (first * ?B)) (int ?ss) + int ((startBlock ?e * spb) mod 2 ^ 32) =
      int (bs ! b * spb + off mod ?B div ?ss) - int (startBlock ?e * spb div 2 ^ 32 * 2 ^ 32)"
  proof -
    have "startBlock ?e * spb = startBlock ?e * spb div 2 ^ 32 * 2 ^ 32 + (startBlock ?e * spb) mod 2 ^ 32"
      by (rule div_mult_mod_eq [symmetric])
    then show ?thesis unfolding cd sec [symmetric] by linarith
  qed
  finally show "MapFileBlockC io vcb fcb junk key0 n off s =
    Some (noErr, Some (int (bs ! b * spb + off mod ?B div ?ss + hfsPlusIOPosOffset vcb div ?ss)
        - int (startBlock ?e * spb div 2 ^ 32 * 2 ^ 32), int avail), s')"
    unfolding tmp av by simp
qed

section \<open>Releasing extents\<close>

lemma ReleaseExtents_loop_frees:
  assumes "vol_inv rd vcb" "distinct (extent_blocks es)" "\<forall>b \<in> set (extent_blocks es). b < totalBlocks vcb \<and> block_used vcb b"
    and "n + length (extent_blocks es) < 2 ^ 32"
  shows "\<exists>vcb'. ReleaseExtents_loop rd es vcb n = Some (noErr, vcb', n + length (extent_blocks es), \<exists>e \<in> set es. blockCount e = 0) \<and>
           vol_inv rd vcb' \<and> free_blocks vcb' = free_blocks vcb \<union> set (extent_blocks es)"
  using assms
proof (induction es arbitrary: vcb n)
  case (Cons e es)
  show ?case
  proof (cases "blockCount e = 0")
    case False
    let ?f = "startBlock e" and ?k = "blockCount e"
    have eb: "extent_blocks (e # es) = [?f ..< ?f + ?k] @ extent_blocks es" using False by (simp add: extent_blocks_Cons)
    have "used_run vcb ?f (?f + ?k)" "?f + ?k \<le> totalBlocks vcb"
      using Cons.prems(3) False unfolding eb by (auto simp: used_run_def dest: bspec [of _ _ "?f + ?k - 1"])
    then obtain v1 where v1: "BlockDeallocate rd vcb ?f ?k = Some (noErr, v1)" "vol_inv rd v1"
      "free_blocks v1 = free_blocks vcb \<union> {?f ..< ?f + ?k}" "totalBlocks v1 = totalBlocks vcb"
      using BlockDeallocate_outcome [OF Cons.prems(1)] by blast
    have "\<forall>b \<in> set (extent_blocks es). b < totalBlocks v1 \<and> block_used v1 b"
      using Cons.prems(2,3) v1(3,4) unfolding eb free_blocks_def by auto
    moreover have "distinct (extent_blocks es)" "n + ?k + length (extent_blocks es) < 2 ^ 32"
      using Cons.prems(2,4) unfolding eb by simp_all
    ultimately obtain v2 where "ReleaseExtents_loop rd es v1 (n + ?k) = Some (noErr, v2, n + ?k + length (extent_blocks es), \<exists>e \<in> set es. blockCount e = 0)"
      "vol_inv rd v2" "free_blocks v2 = free_blocks v1 \<union> set (extent_blocks es)"
      using Cons.IH [OF v1(2)] by blast
    moreover have "u32_add n ?k = n + ?k" using Cons.prems(4) unfolding eb by (simp add: u32_add_exact)
    ultimately show ?thesis using False v1(1,3) eb by (auto simp: add.assoc)
  qed (use Cons.prems(1) in \<open>simp add: extent_blocks_Cons\<close>)
qed simp

lemma distinct_blocks_bound:
  assumes "vol_inv rd vcb" "distinct bs" "\<forall>b \<in> set bs. b < totalBlocks vcb \<and> block_used vcb b"
  shows "length bs < 2 ^ 32"
proof -
  have "card (set bs) \<le> card {..< totalBlocks vcb}" using assms(3) by (intro card_mono) auto
  then show ?thesis using assms(1,2) by (simp add: distinct_card vol_inv_def)
qed

section \<open>Properties\<close>


definition overflow_record :: "byte list" where
  "overflow_record = [10, 0, 0, 0, 16, 0, 0, 0, 9, 0, 0, 0] @ [50, 0, 0, 0, 2, 0, 0, 0] @ replicate 56 0"

definition fragmented_file :: FCB where
  "fragmented_file =
     \<lparr>fcbExtents = [\<lparr>startBlock = 100, blockCount = 2\<rparr>, \<lparr>startBlock = 21, blockCount = 1\<rparr>, \<lparr>startBlock = 22, blockCount = 1\<rparr>,
        \<lparr>startBlock = 23, blockCount = 1\<rparr>, \<lparr>startBlock = 24, blockCount = 1\<rparr>, \<lparr>startBlock = 25, blockCount = 1\<rparr>,
        \<lparr>startBlock = 26, blockCount = 1\<rparr>, \<lparr>startBlock = 27, blockCount = 1\<rparr>],
      ff_blocks = 11, ff_size = 5632, is_rsrc = False, c_fileid = 16\<rparr>"

lemma overflow_key_size: "CalcKeySize extents_btree ([10, 0, 0, 0, 16, 0, 0, 0, 9, 0, 0, 0] @ u) = Some 12"
  by (simp add: CalcKeySize_def extents_btree_def small_btree_def BigKeys_def kBTBigKeysMask_def load_def slice_def)

lemma overflow_record_facts:
  "key_ok extents_btree (\<lambda>key. 12 \<le> length key) overflow_record" "extent_kval_plus overflow_record = (16, 0, 9)"
  "rec_data extents_btree overflow_record = [50, 0, 0, 0, 2, 0, 0, 0] @ replicate 56 0" "length overflow_record = 76"
proof -
  show "key_ok extents_btree (\<lambda>key. 12 \<le> length key) overflow_record"
    unfolding key_ok_def overflow_record_def overflow_key_size by (simp add: sizeof_BTreeKey_def)
  show "rec_data extents_btree overflow_record = [50, 0, 0, 0, 2, 0, 0, 0] @ replicate 56 0"
    unfolding rec_data_def overflow_record_def overflow_key_size by simp
  show "extent_kval_plus overflow_record = (16, 0, 9)" "length overflow_record = 76"
    by (simp_all add: extent_kval_plus_def overflow_record_def slice_def le_nat_def)
qed



text \<open>
  C35: the sector of an extent's first block is a product of two 32-bit numbers. When a fork
  of an HFS Plus volume lies wholly beyond sector 2 to the power of 32 (2 terabytes with sectors of 512 bytes), every
  position of it is mapped to a wrong sector, too low by a multiple of 2 to the power of 32.
\<close>

theorem MapFileBlockC_wraps:
  fixes n :: nat
  assumes "extents_tree io s t" "vcbSigWord vcb = kHFSPlusSigWord"
    and "fork_ok fcb (overflow (btcb s) t (c_fileid fcb) (fork_type fcb))"
    and "0 < hfs_phys_block_size vcb" "hfs_phys_block_size vcb dvd blockSize vcb" "0 < blockSize vcb" "blockSize vcb < 2 ^ 32"
    and "64 \<le> length junk"
  defines "bs \<equiv> fork_blocks fcb (overflow (btcb s) t (c_fileid fcb) (fork_type fcb))" and "B \<equiv> blockSize vcb"
    and "ss \<equiv> hfs_phys_block_size vcb"
  assumes "ff_blocks fcb = length bs" "off < length bs * B" "\<forall>blk \<in> set bs. 2 ^ 32 \<le> blk * (B div ss)"
  shows "\<exists>s' avail k. 0 < k \<and> MapFileBlockC io vcb fcb junk key0 n off s =
     Some (noErr, Some (int (bs ! (off div B) * (B div ss) + off mod B div ss + hfsPlusIOPosOffset vcb div ss)
                        - int k * 2 ^ 32, int avail), s')"
proof -
  have len: "length bs < 2 ^ 32" using assms(3) by (simp add: fork_ok_def bs_def)
  have lt: "off div B < length bs" using assms(6,13) by (simp add: B_def div_less_iff_less_mult)
  then have "off div blockSize vcb < 2 ^ 32" using len by (simp add: B_def)
  from SearchExtentFile_finds [OF assms(1-3) refl this assms(8), of key0] lt obtain s' key data i hint first
    where sf: "SearchExtentFile io vcb fcb junk key0 off s = Some (noErr, key, data, i, hint, first + blockCount (data ! i), s')"
    and run: "found_run bs (off div B) (data ! i) first"
    unfolding bs_def B_def by (auto split: if_splits)
  note run1 = MapFileBlockC_run(1) [OF sf run [unfolded B_def] len assms(12) assms(4-7) assms(2)]
    and run2 = MapFileBlockC_run(2) [OF sf run [unfolded B_def] len assms(12) assms(4-7) assms(2), of n, folded B_def ss_def]
  have "2 ^ 32 \<le> startBlock (data ! i) * (B div ss)" using run1 assms(14) by blast
  then have "0 < startBlock (data ! i) * (B div ss) div 2 ^ 32" by (simp add: div_greater_zero_iff)
  with run2 show ?thesis by (intro exI conjI) (assumption, simp)
qed

theorem MapFileBlockC_wraps_witness:
  "\<exists>node s' avail k. 0 < k \<and>
     MapFileBlockC warm_cache (small_volume\<lparr>blockSize := 4096\<rparr>)
       (fragmented_file\<lparr>fcbExtents := \<lparr>startBlock = 2 ^ 29, blockCount = 1\<rparr> # replicate 7 \<lparr>startBlock = 0, blockCount = 0\<rparr>,
          ff_blocks := 1, c_fileid := 17\<rparr>) (replicate 64 0)
       \<lparr>xk_keyLength = 0, xk_forkType = 0, xk_pad = 0, xk_fileID = 0, xk_startBlock = 0\<rparr> 512 1024 (leaf_tree node) =
     Some (noErr, Some (2 ^ 32 + 2 - int k * 2 ^ 32, int avail), s')"
proof -
  let ?key0 = "\<lparr>xk_keyLength = 0, xk_forkType = 0, xk_pad = 0, xk_fileID = 0, xk_startBlock = 0\<rparr>"
  let ?vcb = "small_volume\<lparr>blockSize := 4096\<rparr>"
  let ?fcb = "fragmented_file\<lparr>fcbExtents := \<lparr>startBlock = 2 ^ 29, blockCount = 1\<rparr> # replicate 7 \<lparr>startBlock = 0, blockCount = 0\<rparr>,
      ff_blocks := 1, c_fileid := 17\<rparr>"
  obtain node where t: "tree_in warm_cache (\<lambda>key. 12 \<le> length key) extent_kval_plus (leaf_tree node) (TLeaf 1 [overflow_record])"
    "descr node 0 0 kBTLeafNode 1"
    using leaf_tree_in [of "[overflow_record]"] overflow_record_facts by auto
  have bt: "btcb (leaf_tree node) = extents_btree" "buf (leaf_tree node) 1 = node" "BigKeys extents_btree"
    by (simp_all add: leaf_tree_def extents_btree_def small_btree_def BigKeys_def kBTBigKeysMask_def)
  have tree: "extents_tree warm_cache (leaf_tree node) (TLeaf 1 [overflow_record])"
    using t bt overflow_record_facts(3) by (simp add: extents_tree_def leaf_chain_def descr_def records_def)
  have ov: "overflow (btcb (leaf_tree node)) (TLeaf 1 [overflow_record]) (c_fileid ?fcb) (fork_type ?fcb) = []"
    using overflow_record_facts(2) by (simp add: overflow_def records_def same_fork_def)
  have bs: "fork_blocks ?fcb [] = [2 ^ 29]"
    by (simp add: fork_blocks_def extent_blocks_Cons)
  have ok: "fork_ok ?fcb []" unfolding fork_ok_def bs by (simp add: kHFSPlusExtentDensity_def extent_blocks_Cons)
  have vol: "vcbSigWord ?vcb = kHFSPlusSigWord" "blockSize ?vcb = 4096" "hfs_phys_block_size ?vcb = 512"
    "hfsPlusIOPosOffset ?vcb = 0" by (simp_all add: small_volume_def)
  show ?thesis
    using MapFileBlockC_wraps [OF tree vol(1), where fcb = ?fcb and off = 1024 and junk = "replicate 64 0" and
        n = 512 and ?key0.0 = ?key0, unfolded ov bs vol, OF ok] by auto
qed

text \<open>
  C34: releasing an extent record of a fork frees exactly its blocks. When the blocks
  are distinct, in use and on the volume, \<^verbatim>\<open>ReleaseExtents\<close> succeeds, keeps the volume
  invariant (with the count of free blocks), adds just these blocks to the free ones,
  returns how many there were, and says whether the record had an empty extent, so
  that no other record follows.
\<close>

theorem ReleaseExtents_frees:
  assumes "vol_inv rd vcb" "vcbSigWord vcb = kHFSPlusSigWord" "length es = kHFSPlusExtentDensity"
    and "distinct (extent_blocks es)" "\<forall>b \<in> set (extent_blocks es). b < totalBlocks vcb \<and> block_used vcb b"
  shows "\<exists>vcb'. ReleaseExtents rd vcb es = Some (noErr, vcb', length (extent_blocks es), \<exists>e \<in> set es. blockCount e = 0) \<and>
           vol_inv rd vcb' \<and> free_blocks vcb' = free_blocks vcb \<union> set (extent_blocks es)"
  using ReleaseExtents_loop_frees [OF assms(1,4,5), of 0] distinct_blocks_bound [OF assms(1,4,5)] assms(2,3)
  by (simp add: ReleaseExtents_def numberOfExtents_def)

definition full_volume :: ExtendedVCB where
  "full_volume = small_volume\<lparr>freeBlocks := 0, vcb_buffers := (\<lambda>_ _. [- 1])\<rparr>"

lemma full_volume_facts:
  "vol_inv (\<lambda>_. noErr) full_volume" "block_used full_volume b" "totalBlocks full_volume = 64"
  "vcbSigWord full_volume = kHFSPlusSigWord" "free_blocks full_volume = {}"
proof -
  show t: "totalBlocks full_volume = 64" "vcbSigWord full_volume = kHFSPlusSigWord"
    by (simp_all add: full_volume_def small_volume_def)
  have "SWAP_BE32 (- 1) = - 1" by (simp add: bswap32_def mask_numeral)
  then show used: "block_used full_volume b" for b
    by (simp add: block_used_def bitmap_word_def full_volume_def small_volume_def wordsPerBlock_def Let_def)
  then show free: "free_blocks full_volume = {}" by (simp add: free_blocks_def)
  have wf: "bitmap_wf full_volume"
    using small_volume_wf(1) by (simp add: full_volume_def bitmap_wf_def bitsPerBlock_def wordsPerBlock_def bitmap_block_ref_def bitmap_vp_def
        small_volume_def)
  have "cache_free full_volume"
    by (rule cache_free_empty) (simp_all add: full_volume_def small_volume_def kMaxFreeExtents_def)
  then show "vol_inv (\<lambda>_. noErr) full_volume"
    using wf free by (simp add: vol_inv_def bitmap_readable_def) (simp add: full_volume_def small_volume_def)
qed

theorem ReleaseExtents_frees_witness:
  "\<exists>vcb'. ReleaseExtents (\<lambda>_. noErr) full_volume
      ([\<lparr>startBlock = 7, blockCount = 3\<rparr>, \<lparr>startBlock = 30, blockCount = 2\<rparr>] @ replicate 6 \<lparr>startBlock = 0, blockCount = 0\<rparr>) =
      Some (noErr, vcb', 5, True) \<and> free_blocks vcb' = {7, 8, 9, 30, 31}"
proof -
  let ?es = "[\<lparr>startBlock = 7, blockCount = 3\<rparr>, \<lparr>startBlock = 30, blockCount = 2\<rparr>] @ replicate 6 \<lparr>startBlock = 0, blockCount = 0\<rparr>"
  have es: "extent_blocks ?es = [7, 8, 9, 30, 31]" "length ?es = kHFSPlusExtentDensity" "\<exists>e \<in> set ?es. blockCount e = 0"
    "length [7, 8, 9, 30, 31 :: nat] = 5"
    by (simp_all add: extent_blocks_Cons upt_rec kHFSPlusExtentDensity_def)
  show ?thesis
    using ReleaseExtents_frees [OF full_volume_facts(1,4) es(2), unfolded es(1,4)] full_volume_facts(2,3,5) es(3) by auto
qed

end
