(* ===== verification/UtfDecomp.thy ===== *)
theory UtfDecomp
  imports UtfTables "HOL-Library.Monad_Syntax"
begin

text \<open>
  Composed and decomposed characters, after \<^verbatim>\<open>src/vfs/vfs_utfconv.c\<close>: the two bitmaps, the
  binary search in the mapping tables, and the decomposition and combination of characters.
  A 16-bit unit is a natural number. The arrays of the source are lists, and an access
  outside one is \<^const>\<open>None\<close>.
\<close>

section \<open>The routines of the source\<close>

definition cell :: "nat list \<Rightarrow> nat \<Rightarrow> nat option" where
  "cell a i = (if i < length a then Some (a ! i) else None)"

definition unicode_combinable :: "nat \<Rightarrow> bool option" where
  "unicode_combinable character =
     (if character < 0x0300 then Some False
      else do {
        value \<leftarrow> cell CFUniCharCombiningBitmap (character div 2 ^ 8 mod 256);
        if value = 0xFF then Some True
        else if value \<noteq> 0 then do {
          b \<leftarrow> cell CFUniCharCombiningBitmap ((value - 1) * 32 + 256 + character mod 256 div 8);
          Some (b AND 2 ^ (character mod 8) \<noteq> 0) }
        else Some False })"

definition unicode_decomposeable :: "nat \<Rightarrow> bool option" where
  "unicode_decomposeable character =
     (if character < 0x00C0 then Some False
      else do {
        value \<leftarrow> cell CFUniCharDecomposableBitmap (character div 2 ^ 8 mod 256);
        if value = 0xFF then Some True
        else if value \<noteq> 0 then do {
          b \<leftarrow> cell CFUniCharDecomposableBitmap ((value - 1) * 32 + 256 + character mod 256 div 8);
          Some (b AND 2 ^ (character mod 8) \<noteq> 0) }
        else Some False })"

text \<open>
  The tables are arrays of numbers that the code casts to arrays of pairs of a key and a value.
  The loop of the two searches is the same. Its bounds are the indices the pointers \<^verbatim>\<open>p\<close> and
  \<^verbatim>\<open>q\<close> stand for; \<^verbatim>\<open>q\<close> can come to lie before the table.
\<close>

fun unicode_mappings :: "nat list \<Rightarrow> (nat \<times> nat) list" where
  "unicode_mappings (k # v # r) = (k, v) # unicode_mappings r"
| "unicode_mappings _ = []"

function mapped_search :: "(nat \<times> nat) list \<Rightarrow> nat \<Rightarrow> int \<Rightarrow> int \<Rightarrow> nat option" where
  "mapped_search theTable character p q =
     (if p \<le> q then
        let divider = p + (q - p) div 2 in
        if 0 \<le> divider \<and> divider < int (length theTable) then
          let (key, value) = theTable ! nat divider in
          if character < key then mapped_search theTable character p (divider - 1)
          else if key < character then mapped_search theTable character (divider + 1) q
          else Some value
        else None
      else Some 0)"
  by auto
termination
  by (relation "measure (\<lambda>(t, c, p, q). nat (q - p + 1))") auto

definition getmappedvalue32 :: "(nat \<times> nat) list \<Rightarrow> nat \<Rightarrow> nat \<Rightarrow> nat option" where
  "getmappedvalue32 theTable numElem character =
     (if theTable \<noteq> [] \<and> u32_sub numElem 1 < length theTable then
        if character < fst (theTable ! 0) \<or> fst (theTable ! u32_sub numElem 1) < character then Some 0
        else mapped_search theTable character 0 (int (u32_sub numElem 1))
      else None)"

definition getmappedvalue16 :: "(nat \<times> nat) list \<Rightarrow> nat \<Rightarrow> nat \<Rightarrow> nat option" where
  "getmappedvalue16 theTable numElem character =
     (if theTable \<noteq> [] \<and> u32_sub numElem 1 < length theTable then
        if character < fst (theTable ! 0) \<or> fst (theTable ! u32_sub numElem 1) < character then Some 0
        else mapped_search theTable character 0 (int (u32_sub numElem 1))
      else None)"

definition RECURSIVE_DECOMPOSITION :: nat where "RECURSIVE_DECOMPOSITION = 2 ^ 15"

definition EXTRACT_COUNT :: "nat \<Rightarrow> nat" where "EXTRACT_COUNT value = value div 2 ^ 12 mod 8"

text \<open>
  The characters written to \<^verbatim>\<open>convertedChars\<close> are returned as a list, whose length is the result
  of the C function. The argument \<^verbatim>\<open>room\<close> is the size of the array at \<^verbatim>\<open>convertedChars\<close>.
\<close>

partial_function (option) unicode_recursive_decompose :: "nat \<Rightarrow> nat \<Rightarrow> nat list option" where
  "unicode_recursive_decompose character room =
     do {
       value \<leftarrow> getmappedvalue16 (unicode_mappings CFUniCharDecompositionTable)
                 (length CFUniCharDecompositionTable div 2) character;
       let length' = EXTRACT_COUNT value;
       let firstChar = value mod 0x1000;
       let bmpMappings = (if length' = 1 then [firstChar]
                          else drop firstChar CFUniCharMultipleDecompositionTable);
       if RECURSIVE_DECOMPOSITION AND value \<noteq> 0 then do {
         c \<leftarrow> cell bmpMappings 0;
         used \<leftarrow> unicode_recursive_decompose c room;
         let length' = u32_sub length' 1;
         if used = [] then Some []
         else if length' \<le> length (drop 1 bmpMappings) \<and> length used + length' \<le> room
              then Some (used @ take length' (drop 1 bmpMappings))
              else None }
       else if length' \<le> length bmpMappings \<and> length' \<le> room
            then Some (take length' bmpMappings)
            else None }"

definition HANGUL_SBASE :: nat where "HANGUL_SBASE = 0xAC00"
definition HANGUL_LBASE :: nat where "HANGUL_LBASE = 0x1100"
definition HANGUL_VBASE :: nat where "HANGUL_VBASE = 0x1161"
definition HANGUL_TBASE :: nat where "HANGUL_TBASE = 0x11A7"
definition HANGUL_SCOUNT :: nat where "HANGUL_SCOUNT = 11172"
definition HANGUL_LCOUNT :: nat where "HANGUL_LCOUNT = 19"
definition HANGUL_VCOUNT :: nat where "HANGUL_VCOUNT = 21"
definition HANGUL_TCOUNT :: nat where "HANGUL_TCOUNT = 28"
definition HANGUL_NCOUNT :: nat where "HANGUL_NCOUNT = HANGUL_VCOUNT * HANGUL_TCOUNT"

lemmas hangul_defs = HANGUL_SBASE_def HANGUL_LBASE_def HANGUL_VBASE_def HANGUL_TBASE_def
  HANGUL_SCOUNT_def HANGUL_LCOUNT_def HANGUL_VCOUNT_def HANGUL_TCOUNT_def HANGUL_NCOUNT_def

definition unicode_decompose :: "nat \<Rightarrow> nat \<Rightarrow> nat list option" where
  "unicode_decompose character room =
     (if HANGUL_SBASE \<le> character \<and> character \<le> HANGUL_SBASE + HANGUL_SCOUNT then
        let character = character - HANGUL_SBASE;
            length' = (if character mod HANGUL_TCOUNT \<noteq> 0 then 3 else 2);
            chars = [character div HANGUL_NCOUNT + HANGUL_LBASE,
                     character mod HANGUL_NCOUNT div HANGUL_TCOUNT + HANGUL_VBASE] @
                    (if 2 < length' then [character mod HANGUL_TCOUNT + HANGUL_TBASE] else [])
        in if length' \<le> room then Some chars else None
      else unicode_recursive_decompose character room)"

definition unicode_combine :: "nat \<Rightarrow> nat \<Rightarrow> nat option" where
  "unicode_combine base combining =
     (let by_table = do {
        value \<leftarrow> getmappedvalue32 (unicode_mappings CFUniCharPrecompSourceTable)
                  (length CFUniCharPrecompSourceTable div 2) combining;
        if value \<noteq> 0 then
          getmappedvalue16
            (unicode_mappings (drop (2 * (value mod 2 ^ 16)) CFUniCharBMPPrecompDestinationTable))
            (value div 2 ^ 16) base
        else Some 0 }
      in if HANGUL_VBASE \<le> combining \<and> combining < HANGUL_TBASE + HANGUL_TCOUNT then
           if combining < HANGUL_VBASE + HANGUL_VCOUNT \<and>
              HANGUL_LBASE \<le> base \<and> base < HANGUL_LBASE + HANGUL_LCOUNT
           then Some (HANGUL_SBASE + (base - HANGUL_LBASE) * (HANGUL_VCOUNT * HANGUL_TCOUNT) +
                      (combining - HANGUL_VBASE) * HANGUL_TCOUNT)
           else if HANGUL_TBASE < combining \<and>
                   HANGUL_SBASE \<le> base \<and> base < HANGUL_SBASE + HANGUL_SCOUNT
           then if (base - HANGUL_SBASE) mod HANGUL_TCOUNT \<noteq> 0 then Some 0
                else Some (base + (combining - HANGUL_TBASE))
           else by_table
         else by_table)"

section \<open>The search finds what the table maps\<close>

definition mapped :: "(nat \<times> nat) list \<Rightarrow> nat \<Rightarrow> nat" where
  "mapped t c = (case map_of t c of None \<Rightarrow> 0 | Some v \<Rightarrow> v)"

declare mapped_search.simps [simp del]

lemma mapped_absent:
  "(\<And>i. i < length t \<Longrightarrow> fst (t ! i) \<noteq> c) \<Longrightarrow> mapped t c = 0"
  by (auto simp: mapped_def in_set_conv_nth split: option.splits dest!: map_of_SomeD)
     (metis fst_conv)

lemma mapped_nth:
  "sorted_wrt (<) (map fst t) \<Longrightarrow> i < length t \<Longrightarrow> mapped t (fst (t ! i)) = snd (t ! i)"
  by (auto simp: mapped_def strict_sorted_iff map_of_is_SomeI [of t _ "snd (t ! i)"])

lemma mapped_search_correct:
  assumes "sorted_wrt (<) (map fst t)" "0 \<le> p" "q < int (length t)"
    and "\<forall>i < length t. int i < p \<longrightarrow> fst (t ! i) < c"
    and "\<forall>i < length t. q < int i \<longrightarrow> c < fst (t ! i)"
  shows "mapped_search t c p q = Some (mapped t c)"
  using assms(2-)
proof (induction "nat (q - p + 1)" arbitrary: p q rule: less_induct)
  case less
  note sorted = assms(1) and bounds = less(2,3) and below = less(4) and above = less(5)
  show ?case
  proof (cases "p \<le> q")
    case False
    have "fst (t ! i) \<noteq> c" if "i < length t" for i
      using below above that False by (metis linorder_not_less nat_neq_iff order.strict_trans1)
    with False show ?thesis by (simp add: mapped_search.simps [of t c p q] mapped_absent)
  next
    case True
    define d where "d = p + (q - p) div 2"
    have d: "p \<le> d" "d \<le> q" using True by (auto simp: d_def)
    define n where "n = nat d"
    have n: "n < length t" "d = int n" using d bounds by (auto simp: n_def)
    obtain k v where kv: "t ! n = (k, v)" by (metis surj_pair)
    have step: "mapped_search t c p q =
        (if c < k then mapped_search t c p (d - 1)
         else if k < c then mapped_search t c (d + 1) q else Some v)"
      using True n kv by (simp add: mapped_search.simps [of t c p q] d_def [symmetric] Let_def)
    have less_key: "fst (t ! i) < fst (t ! j)" if "i < j" "j < length t" for i j
      using sorted_wrt_nth_less [OF sorted, of i j] that by simp
    consider "c < k" | "k < c" | "c = k" by linarith
    then show ?thesis
    proof cases
      case 1
      have "c < fst (t ! i)" if "i < length t" "d - 1 < int i" for i
        using less_key [of n i] that n kv 1 by (cases "i = n") auto
      then have "mapped_search t c p (d - 1) = Some (mapped t c)"
        using less(1) [of "d - 1" p] d bounds below by auto
      with 1 step show ?thesis by simp
    next
      case 2
      have "fst (t ! i) < c" if "i < length t" "int i < d + 1" for i
        using less_key [of i n] that n kv 2 by (cases "i = n") auto
      then have "mapped_search t c (d + 1) q = Some (mapped t c)"
        using less(1) [of q "d + 1"] d bounds above by auto
      with 2 step show ?thesis by simp
    next
      case 3
      then show ?thesis using step mapped_nth [OF sorted n(1)] kv by simp
    qed
  qed
qed

lemma mapped_search_take:
  assumes "q < int n" "n \<le> length t" "0 \<le> p"
  shows "mapped_search (take n t) c p q = mapped_search t c p q"
  using assms(1,3)
proof (induction "nat (q - p + 1)" arbitrary: p q rule: less_induct)
  case less
  define d where "d = p + (q - p) div 2"
  show ?case
  proof (cases "p \<le> q")
    case True
    then have d: "p \<le> d" "d \<le> q" by (auto simp: d_def)
    then have "nat d < n" "nat d < length t" "0 \<le> d" "d < int n" "d < int (length t)"
      using less assms(2) by auto
    moreover have "mapped_search (take n t) c p (d - 1) = mapped_search t c p (d - 1)"
      using less(1) [of "d - 1" p] less d by auto
    moreover have "mapped_search (take n t) c (d + 1) q = mapped_search t c (d + 1) q"
      using less(1) [of q "d + 1"] less d by auto
    ultimately show ?thesis using True assms(2)
      by (simp add: mapped_search.simps [of _ c p q] d_def [symmetric] Let_def split: prod.splits)
  qed (simp add: mapped_search.simps [of _ c p q])
qed

text \<open>
  Both routines return the value that a sorted table of \<^verbatim>\<open>numElem\<close> entries has for the
  character, or 0.
\<close>

lemma getmappedvalue16_correct:
  assumes "sorted_wrt (<) (map fst (take n t))" "0 < n" "n \<le> length t" "n < 2 ^ 32"
  shows "getmappedvalue16 t n c = Some (mapped (take n t) c)"
proof -
  define u where "u = take n t"
  have u: "length u = n" using assms by (auto simp: u_def)
  have su: "sorted_wrt (<) (map fst u)" using assms(1) by (simp add: u_def)
  have nth: "t ! i = u ! i" if "i < n" for i using that by (simp add: u_def)
  have ends: "t ! 0 = u ! 0" "t ! (n - 1) = u ! (n - 1)" using nth assms(2) by auto
  have less_key: "fst (u ! i) < fst (u ! j)" if "i < j" "j < n" for i j
    using sorted_wrt_nth_less [OF su, of i j] that u by simp
  have first: "fst (u ! 0) \<le> fst (u ! i)" and last: "fst (u ! i) \<le> fst (u ! (n - 1))" if "i < n" for i
    using less_key [of 0 i] less_key [of i "n - 1"] that by (cases "i = 0"; cases "i = n - 1"; force)+
  have idx: "u32_sub n 1 = n - 1" "t \<noteq> []" "n - 1 < length t" using assms by auto
  have "mapped u c = 0" if "c < fst (u ! 0) \<or> fst (u ! (n - 1)) < c"
    using that first last u by (intro mapped_absent) fastforce
  moreover have "mapped_search t c 0 (int (n - 1)) = Some (mapped u c)"
    using mapped_search_correct [OF su, of 0 "int (n - 1)" c]
      mapped_search_take [of "int (n - 1)" n t 0 c] assms u by (simp add: u_def)
  ultimately show ?thesis
    unfolding getmappedvalue16_def idx u_def [symmetric] ends using idx by simp
qed

lemma getmappedvalue32_16: "getmappedvalue32 = getmappedvalue16"
  by (intro ext) (simp only: getmappedvalue32_def getmappedvalue16_def)

section \<open>Reading the tables\<close>

text \<open>
  Facts that turn a part of a table into one rewrite rule for each of its entries, so that the
  simplifier looks entries up instead of walking through the lists.
\<close>

fun cells_from :: "nat list \<Rightarrow> nat \<Rightarrow> nat list \<Rightarrow> bool" where
  "cells_from a n (x # xs) \<longleftrightarrow> cell a n = Some x \<and> cells_from a (n + 1) xs"
| "cells_from a n [] \<longleftrightarrow> True"

lemma cells_from_append:
  "cells_from a n (xs @ ys) \<longleftrightarrow> cells_from a n xs \<and> cells_from a (n + length xs) ys"
  by (induction xs arbitrary: n) auto

lemma cells_from_self: "cells_from (zs @ xs) (length zs) xs"
proof (induction xs arbitrary: zs)
  case (Cons x xs)
  from Cons [of "zs @ [x]"] show ?case by (simp add: cell_def nth_append)
qed simp

lemmas cells_from_all = cells_from_self [of "[]", simplified]

fun maps_all :: "(nat \<times> nat) list \<Rightarrow> nat list \<Rightarrow> bool" where
  "maps_all t (k # v # r) \<longleftrightarrow> mapped t k = v \<and> maps_all t r"
| "maps_all t _ \<longleftrightarrow> True"

fun keys_above :: "nat \<Rightarrow> nat list \<Rightarrow> nat option" where
  "keys_above a (k # v # r) = (if a < k then keys_above k r else None)"
| "keys_above a _ = Some a"

lemma keys_above_less: "a < k \<Longrightarrow> keys_above a (k # v # r) = keys_above k r"
  by simp

lemma unicode_mappings_append:
  "even (length xs) \<Longrightarrow> unicode_mappings (xs @ ys) = unicode_mappings xs @ unicode_mappings ys"
  by (induction xs rule: unicode_mappings.induct) auto

lemma length_unicode_mappings: "length (unicode_mappings xs) = length xs div 2"
  by (induction xs rule: unicode_mappings.induct) auto

lemma keys_above_append:
  "even (length xs) \<Longrightarrow> keys_above a (xs @ ys) = keys_above a xs \<bind> (\<lambda>b. keys_above b ys)"
  by (induction a xs rule: keys_above.induct) auto

lemma keys_above_sorted:
  "keys_above a xs = Some b \<Longrightarrow> sorted_wrt (<) (a # map fst (unicode_mappings xs))"
proof (induction a xs rule: keys_above.induct)
  case (1 a k v r)
  then have "a < k" and s: "sorted_wrt (<) (k # map fst (unicode_mappings r))"
    by (auto split: if_splits)
  from \<open>a < k\<close> s show ?case by (auto intro: less_trans)
qed auto

lemma maps_allI:
  "(\<And>k v. (k, v) \<in> set (unicode_mappings xs) \<Longrightarrow> mapped t k = v) \<Longrightarrow> maps_all t xs"
  by (induction xs rule: unicode_mappings.induct) auto

lemma mapped_in_set:
  "sorted_wrt (<) (map fst t) \<Longrightarrow> (k, v) \<in> set t \<Longrightarrow> mapped t k = v"
  by (metis in_set_conv_nth mapped_nth fst_conv snd_conv)

section \<open>The decomposition table\<close>

lemma decomposition_table_lengths [simp]:
  "length CFUniCharDecompositionTable_1 = 384"
  "length CFUniCharDecompositionTable_2 = 392"
  "length CFUniCharDecompositionTable_3 = 384"
  "length CFUniCharDecompositionTable_4 = 392"
  "length CFUniCharDecompositionTable_5 = 388"
  by (simp_all add: CFUniCharDecompositionTable_1_def CFUniCharDecompositionTable_2_def CFUniCharDecompositionTable_3_def CFUniCharDecompositionTable_4_def CFUniCharDecompositionTable_5_def)

lemma decomposition_table_ascends:
  "keys_above 0 CFUniCharDecompositionTable_1 = Some 490"
  "keys_above 490 CFUniCharDecompositionTable_2 = Some 3917"
  "keys_above 3917 CFUniCharDecompositionTable_3 = Some 7860"
  "keys_above 7860 CFUniCharDecompositionTable_4 = Some 8076"
  "keys_above 8076 CFUniCharDecompositionTable_5 = Some 64334"
  by (simp_all add: keys_above_less del: keys_above.simps(1) add: CFUniCharDecompositionTable_1_def CFUniCharDecompositionTable_2_def
      CFUniCharDecompositionTable_3_def CFUniCharDecompositionTable_4_def CFUniCharDecompositionTable_5_def)

abbreviation "decomposition_map \<equiv> unicode_mappings CFUniCharDecompositionTable"

lemma decomposition_map_sorted: "sorted_wrt (<) (map fst decomposition_map)"
  using keys_above_sorted [of 0 CFUniCharDecompositionTable]
  by (simp add: CFUniCharDecompositionTable_def keys_above_append decomposition_table_ascends)

lemma decomposition_map_length: "length CFUniCharDecompositionTable = 1940"
  by (simp add: CFUniCharDecompositionTable_def)

lemma getmappedvalue16_decomposition [simp]:
  "getmappedvalue16 decomposition_map (length CFUniCharDecompositionTable div 2) c =
     Some (mapped decomposition_map c)"
  using decomposition_map_sorted
  by (subst getmappedvalue16_correct) (simp_all add: length_unicode_mappings decomposition_map_length)

lemma decomposition_maps_all:
  "maps_all decomposition_map CFUniCharDecompositionTable_1"
  "maps_all decomposition_map CFUniCharDecompositionTable_2"
  "maps_all decomposition_map CFUniCharDecompositionTable_3"
  "maps_all decomposition_map CFUniCharDecompositionTable_4"
  "maps_all decomposition_map CFUniCharDecompositionTable_5"
  by (rule maps_allI, rule mapped_in_set [OF decomposition_map_sorted],
      simp add: CFUniCharDecompositionTable_def unicode_mappings_append)+

lemmas decomposition_rules_1 [simp] =
  decomposition_maps_all(1) [unfolded CFUniCharDecompositionTable_1_def maps_all.simps]
lemmas decomposition_rules_2 [simp] =
  decomposition_maps_all(2) [unfolded CFUniCharDecompositionTable_2_def maps_all.simps]
lemmas decomposition_rules_3 [simp] =
  decomposition_maps_all(3) [unfolded CFUniCharDecompositionTable_3_def maps_all.simps]
lemmas decomposition_rules_4 [simp] =
  decomposition_maps_all(4) [unfolded CFUniCharDecompositionTable_4_def maps_all.simps]
lemmas decomposition_rules_5 [simp] =
  decomposition_maps_all(5) [unfolded CFUniCharDecompositionTable_5_def maps_all.simps]

lemma multiple_table_lengths [simp]:
  "length CFUniCharMultipleDecompositionTable_1 = 472"
  "length CFUniCharMultipleDecompositionTable_2 = 472"
  "length CFUniCharMultipleDecompositionTable_3 = 472"
  "length CFUniCharMultipleDecompositionTable_4 = 472"
  by (simp_all add: CFUniCharMultipleDecompositionTable_1_def CFUniCharMultipleDecompositionTable_2_def CFUniCharMultipleDecompositionTable_3_def CFUniCharMultipleDecompositionTable_4_def)

lemma multiple_table_length: "length CFUniCharMultipleDecompositionTable = 1888"
  by (simp add: CFUniCharMultipleDecompositionTable_def)

lemma multiple_table_cells:
  "cells_from CFUniCharMultipleDecompositionTable 0 CFUniCharMultipleDecompositionTable_1"
  "cells_from CFUniCharMultipleDecompositionTable 472 CFUniCharMultipleDecompositionTable_2"
  "cells_from CFUniCharMultipleDecompositionTable 944 CFUniCharMultipleDecompositionTable_3"
  "cells_from CFUniCharMultipleDecompositionTable 1416 CFUniCharMultipleDecompositionTable_4"
  using cells_from_all [of CFUniCharMultipleDecompositionTable]
  by (simp_all add: cells_from_append CFUniCharMultipleDecompositionTable_def)

lemmas count_up = cells_from.simps add_0 one_add_one numeral_plus_one add_num_simps

lemmas multiple_rules_1 [simp] =
  multiple_table_cells(1) [unfolded CFUniCharMultipleDecompositionTable_1_def count_up]
lemmas multiple_rules_2 [simp] =
  multiple_table_cells(2) [unfolded CFUniCharMultipleDecompositionTable_2_def count_up]
lemmas multiple_rules_3 [simp] =
  multiple_table_cells(3) [unfolded CFUniCharMultipleDecompositionTable_3_def count_up]
lemmas multiple_rules_4 [simp] =
  multiple_table_cells(4) [unfolded CFUniCharMultipleDecompositionTable_4_def count_up]

lemma bitmap_lengths [simp]:
  "length CFUniCharDecomposableBitmap_1 = 408"
  "length CFUniCharDecomposableBitmap_2 = 424"
  by (simp_all add: CFUniCharDecomposableBitmap_1_def CFUniCharDecomposableBitmap_2_def)

lemma bitmap_cells:
  "cells_from CFUniCharDecomposableBitmap 0 CFUniCharDecomposableBitmap_1"
  "cells_from CFUniCharDecomposableBitmap 408 CFUniCharDecomposableBitmap_2"
  using cells_from_all [of CFUniCharDecomposableBitmap]
  by (simp_all add: cells_from_append CFUniCharDecomposableBitmap_def)

lemmas bitmap_rules_1 [simp] =
  bitmap_cells(1) [unfolded CFUniCharDecomposableBitmap_1_def count_up]
lemmas bitmap_rules_2 [simp] =
  bitmap_cells(2) [unfolded CFUniCharDecomposableBitmap_2_def count_up]

end
