(* ===== verification/UtfChars.thy ===== *)
theory UtfChars
  imports UtfDecomp
begin

text \<open>
  What the tables of \<^verbatim>\<open>src/vfs/vfs_utfconvdata.h\<close> say: the characters the bitmap calls
  decomposable are the Hangul syllables and the keys of the decomposition table, and each of them
  decomposes into one to four characters that are not decomposable any further. These are
  computed from the tables entry by entry.
\<close>

section \<open>Decomposition by cases\<close>

abbreviation "multiple_table \<equiv> CFUniCharMultipleDecompositionTable"

definition decompose_value :: "nat \<Rightarrow> nat list option" where
  "decompose_value v =
     (let length' = EXTRACT_COUNT v;
          m = (if length' = 1 then [v mod 0x1000] else drop (v mod 0x1000) multiple_table)
      in if RECURSIVE_DECOMPOSITION AND v \<noteq> 0 then do {
           c \<leftarrow> cell m 0;
           used \<leftarrow> unicode_recursive_decompose c 8;
           if used = [] then Some []
           else if u32_sub length' 1 \<le> length (drop 1 m) \<and> length used + u32_sub length' 1 \<le> 8
                then Some (used @ take (u32_sub length' 1) (drop 1 m))
                else None }
         else if length' \<le> length m \<and> length' \<le> 8 then Some (take length' m) else None)"

lemma unicode_recursive_decompose_eq:
  "unicode_recursive_decompose c 8 = decompose_value (mapped decomposition_map c)"
  by (subst unicode_recursive_decompose.simps) (simp add: decompose_value_def Let_def cong: if_cong)

lemmas unicode_recursive_decompose_numeral =
  unicode_recursive_decompose_eq [of "numeral n" for n]

lemma recursive_flag:
  assumes "v < 2 ^ 16"
  shows "RECURSIVE_DECOMPOSITION AND v = 0 \<longleftrightarrow> v < 2 ^ 15"
proof -
  have "v div 2 ^ 15 < 2" using assms by (simp add: less_mult_imp_div_less)
  then have "odd (v div 2 ^ 15) \<longleftrightarrow> v div 2 ^ 15 \<noteq> 0" by (cases "v div 2 ^ 15") auto
  then have "odd (v div 2 ^ 15) \<longleftrightarrow> 2 ^ 15 \<le> v"
    using assms by (simp only: div_eq_0_iff) (simp add: not_less)
  then show ?thesis
    by (simp add: RECURSIVE_DECOMPOSITION_def and.commute [of "2 ^ 15"] and_exp_eq_0_iff_not_bit bit_iff_odd
        not_le del: power_numeral)
qed

lemma decompose_value_length: "decompose_value v = Some ds \<Longrightarrow> length ds \<le> 8"
  by (auto simp: decompose_value_def Let_def split: if_splits bind_splits)

lemma take_two:
  "cell m i = Some a \<Longrightarrow> cell m (i + 1) = Some b \<Longrightarrow> take 2 (drop i m) = [a, b] \<and> i + 2 \<le> length m"
  by (auto simp: cell_def take_Suc_conv_app_nth numeral_2_eq_2 split: if_splits)

lemma decompose_value_1:
  assumes "v < 2 ^ 15" "EXTRACT_COUNT v = 1"
  shows "decompose_value v = Some [v mod 0x1000]"
proof -
  have "RECURSIVE_DECOMPOSITION AND v = 0" using recursive_flag [of v] assms(1) by simp
  then show ?thesis using assms(2) by (simp add: decompose_value_def)
qed

lemma decompose_value_2:
  assumes "v < 2 ^ 15" "EXTRACT_COUNT v = 2"
    "v mod 0x1000 + 2 \<le> length multiple_table"
  shows "decompose_value v =
     do { a \<leftarrow> cell multiple_table (v mod 0x1000);
          b \<leftarrow> cell multiple_table (v mod 0x1000 + 1); Some [a, b] }"
proof -
  define i where "i = v mod 0x1000"
  have r: "RECURSIVE_DECOMPOSITION AND v = 0" using recursive_flag [of v] assms(1) by simp
  have i: "i + 2 \<le> length multiple_table" using assms(3) by (simp add: i_def)
  then obtain a b where ab: "cell multiple_table i = Some a" "cell multiple_table (i + 1) = Some b"
    by (simp add: cell_def)
  have "2 \<le> length multiple_table - i" using i by simp
  with take_two [OF ab] ab r assms(2) show ?thesis
    unfolding decompose_value_def i_def [symmetric] Let_def by simp
qed

lemma decompose_value_1_rec:
  assumes "2 ^ 15 \<le> v" "v < 2 ^ 16" "EXTRACT_COUNT v = 1"
  shows "decompose_value v = unicode_recursive_decompose (v mod 0x1000) 8"
proof -
  have r: "RECURSIVE_DECOMPOSITION AND v \<noteq> 0" using recursive_flag [of v] assms by simp
  show ?thesis
  proof (cases "unicode_recursive_decompose (v mod 0x1000) 8")
    case (Some used)
    moreover have "length used \<le> 8"
      using Some unicode_recursive_decompose_eq decompose_value_length by metis
    ultimately show ?thesis using r assms(3) by (simp add: decompose_value_def cell_def Let_def)
  qed (use r assms(3) in \<open>simp add: decompose_value_def cell_def\<close>)
qed

lemma decompose_value_2_rec:
  assumes "2 ^ 15 \<le> v" "v < 2 ^ 16" "EXTRACT_COUNT v = 2"
    "v mod 0x1000 + 2 \<le> length multiple_table"
  shows "decompose_value v =
     do { a \<leftarrow> cell multiple_table (v mod 0x1000);
          used \<leftarrow> unicode_recursive_decompose a 8;
          b \<leftarrow> cell multiple_table (v mod 0x1000 + 1);
          if used = [] then Some [] else if length used < 8 then Some (used @ [b]) else None }"
proof -
  define i where "i = v mod 0x1000"
  have r: "RECURSIVE_DECOMPOSITION AND v \<noteq> 0" using recursive_flag [of v] assms(1,2) by simp
  have i: "i + 2 \<le> length multiple_table" using assms(4) by (simp add: i_def)
  then obtain a b where ab: "cell multiple_table i = Some a" "cell multiple_table (i + 1) = Some b"
    by (simp add: cell_def)
  have c0: "cell (drop i multiple_table) 0 = Some a" using ab i by (simp add: cell_def)
  have t: "take (Suc 0) (drop 1 (drop i multiple_table)) = [b]"
    using ab i by (simp add: cell_def take_Suc_conv_app_nth split: if_splits)
  show ?thesis using r i ab c0 t assms(3)
    unfolding decompose_value_def i_def [symmetric] Let_def
    by (cases "unicode_recursive_decompose a 8") auto
qed

lemmas decompose_value_numeral =
  decompose_value_1 [of "numeral v" for v] decompose_value_2 [of "numeral v" for v]
  decompose_value_1_rec [of "numeral v" for v] decompose_value_2_rec [of "numeral v" for v]

lemma multiple_table_Suc_0: "cell multiple_table (Suc 0) = Some 0x300"
  by (simp add: cell_def multiple_table_length)
     (simp add: CFUniCharMultipleDecompositionTable_def CFUniCharMultipleDecompositionTable_1_def)

lemma bitmap_length: "length CFUniCharDecomposableBitmap = 832"
  by (simp add: CFUniCharDecomposableBitmap_def)

lemma bitmap_Suc_0: "cell CFUniCharDecomposableBitmap (Suc 0) = Some 2"
  by (simp add: cell_def bitmap_length)
     (simp add: CFUniCharDecomposableBitmap_def CFUniCharDecomposableBitmap_1_def)

definition base_char :: "nat \<Rightarrow> bool" where
  "base_char d \<longleftrightarrow> d < 2 ^ 16 \<and> d \<noteq> 0 \<and> d \<noteq> 0x2F \<and> d \<noteq> 0x2400 \<and>
     \<not> (0xD800 \<le> d \<and> d < 0xE000) \<and> unicode_decomposeable d = Some False"

definition decomposes_fully :: "nat \<Rightarrow> bool" where
  "decomposes_fully c \<longleftrightarrow>
     (case unicode_recursive_decompose c 8 of None \<Rightarrow> False
      | Some ds \<Rightarrow> ds \<noteq> [] \<and> length ds \<le> 4 \<and> list_all base_char ds)"

lemmas evaluate_decomposition = decomposes_fully_def unicode_recursive_decompose_numeral
  decompose_value_numeral EXTRACT_COUNT_def multiple_table_length multiple_table_Suc_0 bitmap_Suc_0
  base_char_def unicode_decomposeable_def

fun all_keys :: "(nat \<Rightarrow> bool) \<Rightarrow> nat list \<Rightarrow> bool" where
  "all_keys P (k # v # r) \<longleftrightarrow> P k \<and> all_keys P r"
| "all_keys P _ \<longleftrightarrow> True"

lemma table_1_decomposes: "all_keys decomposes_fully CFUniCharDecompositionTable_1"
  unfolding CFUniCharDecompositionTable_1_def all_keys.simps by (simp add: evaluate_decomposition)

lemma table_2_decomposes: "all_keys decomposes_fully CFUniCharDecompositionTable_2"
  unfolding CFUniCharDecompositionTable_2_def all_keys.simps by (simp add: evaluate_decomposition)

lemma table_3_decomposes: "all_keys decomposes_fully CFUniCharDecompositionTable_3"
  unfolding CFUniCharDecompositionTable_3_def all_keys.simps by (simp add: evaluate_decomposition)

lemma table_4_decomposes: "all_keys decomposes_fully CFUniCharDecompositionTable_4"
  unfolding CFUniCharDecompositionTable_4_def all_keys.simps by (simp add: evaluate_decomposition)

lemma table_5_decomposes: "all_keys decomposes_fully CFUniCharDecompositionTable_5"
  unfolding CFUniCharDecompositionTable_5_def all_keys.simps by (simp add: evaluate_decomposition)

section \<open>The bitmap of decomposable characters\<close>

definition covered :: "nat \<Rightarrow> bool" where
  "covered c \<longleftrightarrow> (0xAC00 \<le> c \<and> c < 0xD7A4) \<or> mapped decomposition_map c \<noteq> 0"

definition bits_covered :: "nat \<Rightarrow> nat \<Rightarrow> bool" where
  "bits_covered c b \<longleftrightarrow> (\<forall>k. bit b k \<longrightarrow> covered (c + k))"

lemma bits_covered_numeral:
  "bits_covered c 0"
  "bits_covered c 1 \<longleftrightarrow> covered c"
  "bits_covered c (Suc 0) \<longleftrightarrow> covered c"
  "bits_covered c (numeral (num.Bit0 n)) \<longleftrightarrow> bits_covered (c + 1) (numeral n)"
  "bits_covered c (numeral (num.Bit1 n)) \<longleftrightarrow> covered c \<and> bits_covered (c + 1) (numeral n)"
proof -
  have "(\<forall>k. P k) \<longleftrightarrow> P 0 \<and> (\<forall>k. P (Suc k))" for P :: "nat \<Rightarrow> bool"
    by (metis not0_implies_Suc)
  note split = this
  show "bits_covered c 0" by (simp add: bits_covered_def)
  show "bits_covered c 1 \<longleftrightarrow> covered c" "bits_covered c (Suc 0) \<longleftrightarrow> covered c"
    by (subst bits_covered_def, subst split, simp add: bit_Suc bit_0)+
  show "bits_covered c (numeral (num.Bit0 n)) \<longleftrightarrow> bits_covered (c + 1) (numeral n)"
    by (subst (1 2) bits_covered_def, subst split, simp add: bit_0 bit_Suc)
  show "bits_covered c (numeral (num.Bit1 n)) \<longleftrightarrow> covered c \<and> bits_covered (c + 1) (numeral n)"
    by (subst (1 2) bits_covered_def, subst split, simp add: bit_0 bit_Suc)
qed

definition byte_covered :: "nat \<Rightarrow> nat \<Rightarrow> nat \<Rightarrow> bool" where
  "byte_covered p v j \<longleftrightarrow>
     (case cell CFUniCharDecomposableBitmap ((v - 1) * 32 + 256 + j) of None \<Rightarrow> False
      | Some b \<Rightarrow> b < 256 \<and> bits_covered (256 * p + 8 * j) b)"

definition page_covered :: "nat \<Rightarrow> nat \<Rightarrow> bool" where
  "page_covered p v \<longleftrightarrow> v = 0 \<or> (if v = 0xFF then 0xAC \<le> p \<and> p < 0xD7 else
     list_all (byte_covered p v) [0, 1, 2, 3, 4, 5, 6, 7, 8, 9, 10, 11, 12, 13, 14, 15, 16, 17,
       18, 19, 20, 21, 22, 23, 24, 25, 26, 27, 28, 29, 30, 31])"

fun pages_covered :: "nat \<Rightarrow> nat list \<Rightarrow> bool" where
  "pages_covered p (v # vs) \<longleftrightarrow> page_covered p v \<and> pages_covered (p + 1) vs"
| "pages_covered p [] \<longleftrightarrow> True"

lemmas count_pages = pages_covered.simps add_0 one_add_one numeral_plus_one add_num_simps

lemma bitmap_pages_covered: "pages_covered 0 (take 256 CFUniCharDecomposableBitmap_1)"
  apply (simp add: CFUniCharDecomposableBitmap_1_def del: pages_covered.simps)
  apply (simp only: count_pages)
  apply (simp add: page_covered_def byte_covered_def bits_covered_numeral covered_def bitmap_Suc_0)
  done

lemma pages_covered_nth: "pages_covered p vs \<Longrightarrow> i < length vs \<Longrightarrow> page_covered (p + i) (vs ! i)"
proof (induction p vs arbitrary: i rule: pages_covered.induct)
  case (1 p v vs)
  then show ?case by (cases i) auto
qed simp

lemma page_covered_bitmap:
  assumes "p < 256"
  shows "\<exists>v. cell CFUniCharDecomposableBitmap p = Some v \<and> page_covered p v"
proof -
  have "CFUniCharDecomposableBitmap ! p = take 256 CFUniCharDecomposableBitmap_1 ! p"
    using assms by (simp add: CFUniCharDecomposableBitmap_def nth_append)
  with pages_covered_nth [OF bitmap_pages_covered, of p] assms show ?thesis
    by (simp add: cell_def bitmap_length)
qed

lemma page_covered_byte:
  assumes "page_covered p v" "v \<noteq> 0" "v \<noteq> 0xFF" "j < 32"
  shows "byte_covered p v j"
proof -
  have "j \<in> set [0, 1, 2, 3, 4, 5, 6, 7, 8, 9, 10, 11, 12, 13, 14, 15, 16, 17,
       18, 19, 20, 21, 22, 23, 24, 25, 26, 27, 28, 29, 30, 31]"
    using assms(4) by (simp del: One_nat_def) presburger
  with assms(1-3) show ?thesis unfolding page_covered_def list_all_iff by auto
qed

lemma decomposeable_covered:
  assumes "c < 2 ^ 16"
  shows "\<exists>b. unicode_decomposeable c = Some b \<and> (b \<longrightarrow> covered c)"
proof (cases "c < 0xC0")
  case False
  define p where "p = c div 256"
  have p: "c div 2 ^ 8 mod 256 = p" "p < 256" using assms by (auto simp: p_def)
  obtain v where v: "cell CFUniCharDecomposableBitmap p = Some v" "page_covered p v"
    using page_covered_bitmap [OF p(2)] by blast
  have "c mod 256 = 8 * (c mod 256 div 8) + c mod 8"
    using mult_div_mod_eq [of 8 "c mod 256"] mod_mod_cancel [of 8 256 c] by simp
  then have c: "c = 256 * p + 8 * (c mod 256 div 8) + c mod 8"
    unfolding p_def by (metis add.assoc mult_div_mod_eq)
  consider "v = 0" | "v = 0xFF" | "v \<noteq> 0" "v \<noteq> 0xFF" by blast
  then show ?thesis
  proof cases
    case 1
    with v False p show ?thesis by (auto simp: unicode_decomposeable_def)
  next
    case 2
    with v(2) have "0xAC \<le> p" "p < 0xD7" by (auto simp: page_covered_def)
    then have "covered c" by (auto simp: covered_def p_def)
    with 2 v False p show ?thesis by (auto simp: unicode_decomposeable_def)
  next
    case 3
    then have "byte_covered p v (c mod 256 div 8)" using page_covered_byte [OF v(2)] by simp
    then obtain b where b: "cell CFUniCharDecomposableBitmap ((v - 1) * 32 + 256 + c mod 256 div 8) = Some b"
      "bits_covered (256 * p + 8 * (c mod 256 div 8)) b"
      by (auto simp: byte_covered_def split: option.splits)
    have "b AND 2 ^ (c mod 8) \<noteq> 0 \<longrightarrow> covered c"
      using b(2) c by (auto simp: bits_covered_def and_exp_eq_0_iff_not_bit)
    with 3 b(1) v False p show ?thesis by (auto simp: unicode_decomposeable_def)
  qed
qed (auto simp: unicode_decomposeable_def)

section \<open>Every decomposable character decomposes\<close>

lemma all_keys_mappings: "all_keys P xs \<longleftrightarrow> (\<forall>k\<in>fst ` set (unicode_mappings xs). P k)"
  by (induction P xs rule: all_keys.induct) auto

lemma keys_decompose: "k \<in> fst ` set decomposition_map \<Longrightarrow> decomposes_fully k"
  using table_1_decomposes table_2_decomposes table_3_decomposes table_4_decomposes table_5_decomposes
  by (auto simp: all_keys_mappings CFUniCharDecompositionTable_def unicode_mappings_append)

lemma mapped_key: "mapped t c \<noteq> 0 \<Longrightarrow> c \<in> fst ` set t"
  by (auto simp: mapped_def split: option.splits dest: map_of_SomeD intro: rev_image_eqI)

lemma jamo_base_char: "0x1100 \<le> d \<Longrightarrow> d < 0x1200 \<Longrightarrow> base_char d"
proof -
  assume d: "0x1100 \<le> d" "d < 0x1200"
  then have "d div 256 = 0x11" by simp
  with d show ?thesis by (simp add: base_char_def unicode_decomposeable_def)
qed

definition decomposed_into :: "nat \<Rightarrow> nat list \<Rightarrow> bool" where
  "decomposed_into c ds \<longleftrightarrow>
     unicode_decompose c 8 = Some ds \<and> ds \<noteq> [] \<and> length ds \<le> 4 \<and> list_all base_char ds"

lemma hangul_decomposes:
  assumes "HANGUL_SBASE \<le> c" "c < HANGUL_SBASE + HANGUL_SCOUNT"
  shows "\<exists>ds. decomposed_into c ds"
proof -
  define s where "s = c - HANGUL_SBASE"
  have s: "s < 11172" using assms by (simp add: s_def hangul_defs)
  then have l: "s div 588 < 19" by (simp add: less_mult_imp_div_less)
  have v: "s mod 588 div 28 < 21" by (simp add: less_mult_imp_div_less)
  have t: "s mod 28 < 28" by simp
  have "base_char (s div 588 + 0x1100)" "base_char (s mod 588 div 28 + 0x1161)"
    "base_char (s mod 28 + 0x11A7)"
    using l v t by (auto intro!: jamo_base_char)
  with assms show ?thesis
    unfolding decomposed_into_def unicode_decompose_def s_def [symmetric] Let_def
    by (simp add: HANGUL_NCOUNT_def) (simp add: hangul_defs)
qed

lemma decomposable_decomposes:
  assumes "c < 2 ^ 16" "unicode_decomposeable c = Some True"
  shows "\<exists>ds. decomposed_into c ds"
proof (cases "HANGUL_SBASE \<le> c \<and> c < HANGUL_SBASE + HANGUL_SCOUNT")
  case False
  have "covered c" using decomposeable_covered [OF assms(1)] assms(2) by auto
  with False have m: "mapped decomposition_map c \<noteq> 0" by (auto simp: covered_def hangul_defs)
  then have "decomposes_fully c" by (intro keys_decompose mapped_key)
  moreover have "c \<noteq> 0xD7A4" using assms(2) by (auto simp: unicode_decomposeable_def)
  ultimately show ?thesis using False
    by (auto simp: decomposes_fully_def decomposed_into_def unicode_decompose_def hangul_defs
        split: option.splits)
qed (use hangul_decomposes in blast)

section \<open>Hangul syllables\<close>

text \<open>
  C39: \<^verbatim>\<open>unicode_combine\<close> undoes \<^verbatim>\<open>unicode_decompose\<close> on the Hangul syllables: a syllable has two or
  three parts, the first two combine to a syllable, which is the one decomposed or, where there is
  a third part, combines with it to that one.
\<close>

theorem hangul_round_trip:
  assumes "HANGUL_SBASE \<le> c" "c < HANGUL_SBASE + HANGUL_SCOUNT"
  shows "\<exists>l v ts s. unicode_decompose c 8 = Some (l # v # ts) \<and> length ts \<le> 1 \<and> unicode_combine l v = Some s \<and>
           (if ts = [] then s = c else unicode_combine s (hd ts) = Some c)"
proof -
  define n where "n = c - HANGUL_SBASE"
  have c: "c = 0xAC00 + n" and n: "n < 11172" using assms by (auto simp: n_def hangul_defs)
  then have l: "n div 588 < 19" by (simp add: less_mult_imp_div_less)
  have v: "n mod 588 div 28 < 21" by (simp add: less_mult_imp_div_less)
  define s where "s = 0xAC00 + n div 588 * 588 + n mod 588 div 28 * 28"
  have "n mod 588 mod 28 = n mod 28" by (simp add: mod_mod_cancel)
  then have parts: "n = n div 588 * 588 + n mod 588 div 28 * 28 + n mod 28"
    by (metis div_mult_mod_eq add.assoc)
  then have s: "c = s + n mod 28" by (simp add: c s_def)
  have "588 * k mod 28 = 0" for k :: nat by (simp add: mod_eq_0_iff_dvd dvd_mult2)
  then have s28: "(s - 0xAC00) mod 28 = 0" unfolding s_def by (simp add: mod_eq_0_iff_dvd)
  have srange: "0xAC00 \<le> s" "s < 0xAC00 + 11172" using s c n by (auto simp: s_def)
  have first: "unicode_combine (n div 588 + 0x1100) (n mod 588 div 28 + 0x1161) = Some s"
    using l v by (simp add: unicode_combine_def hangul_defs s_def)
  have third: "unicode_combine s (n mod 28 + 0x11A7) = Some c" if "n mod 28 \<noteq> 0"
  proof -
    have "n mod 28 < 28" by simp
    with that srange s28 s show ?thesis by (simp add: unicode_combine_def hangul_defs)
  qed
  have "unicode_decompose c 8 = Some ((n div 588 + 0x1100) # (n mod 588 div 28 + 0x1161) #
      (if n mod 28 \<noteq> 0 then [n mod 28 + 0x11A7] else []))"
    using assms by (simp add: unicode_decompose_def hangul_defs c)
  with first third s show ?thesis by (cases "n mod 28 = 0") auto
qed

theorem hangul_round_trip_witness:
  "unicode_decompose 0xAC01 8 = Some [0x1100, 0x1161, 0x11A8] \<and>
   (\<exists>l v ts s. unicode_decompose 0xAC01 8 = Some (l # v # ts) \<and> length ts \<le> 1 \<and> unicode_combine l v = Some s \<and>
      (if ts = [] then s = 0xAC01 else unicode_combine s (hd ts) = Some 0xAC01))"
proof
  show "unicode_decompose 0xAC01 8 = Some [0x1100, 0x1161, 0x11A8]"
    by (simp add: unicode_decompose_def hangul_defs)
  have "HANGUL_SBASE \<le> 0xAC01" "0xAC01 < HANGUL_SBASE + HANGUL_SCOUNT" by (simp_all add: hangul_defs)
  then show "\<exists>l v ts s. unicode_decompose 0xAC01 8 = Some (l # v # ts) \<and> length ts \<le> 1 \<and> unicode_combine l v = Some s \<and>
      (if ts = [] then s = 0xAC01 else unicode_combine s (hd ts) = Some 0xAC01)"
    by (rule hangul_round_trip)
qed

end
