(* ===== verification/Utf8.thy ===== *)
theory Utf8
  imports UtfChars
begin

text \<open>
  Conversion of file names between UTF-8 and 16-bit Unicode: \<^verbatim>\<open>utf8_encodelen\<close>,
  \<^verbatim>\<open>utf8_encodestr\<close> and \<^verbatim>\<open>utf8_decodestr\<close> of \<^verbatim>\<open>src/vfs/vfs_utfconv.c\<close>. Bytes and 16-bit units are
  natural numbers, a buffer is the list of what has been written to it, and a write behind its
  end is \<^const>\<open>None\<close>, as is a read behind the end of the input.
\<close>

section \<open>Encoding\<close>

definition ENAMETOOLONG :: int where "ENAMETOOLONG = 63"
definition EINVAL :: int where "EINVAL = 22"

definition UTF_REVERSE_ENDIAN :: nat where "UTF_REVERSE_ENDIAN = 0x01"
definition UTF_NO_NULL_TERM :: nat where "UTF_NO_NULL_TERM = 0x02"
definition UTF_DECOMPOSED :: nat where "UTF_DECOMPOSED = 0x04"
definition UTF_PRECOMPOSED :: nat where "UTF_PRECOMPOSED = 0x08"

definition UCS_ALT_NULL :: nat where "UCS_ALT_NULL = 0x2400"
definition SP_HALF_SHIFT :: nat where "SP_HALF_SHIFT = 10"
definition SP_HALF_BASE :: nat where "SP_HALF_BASE = 0x10000"
definition SP_HALF_MASK :: nat where "SP_HALF_MASK = 0x3FF"
definition SP_HIGH_FIRST :: nat where "SP_HIGH_FIRST = 0xD800"
definition SP_HIGH_LAST :: nat where "SP_HIGH_LAST = 0xDBFF"
definition SP_LOW_FIRST :: nat where "SP_LOW_FIRST = 0xDC00"
definition SP_LOW_LAST :: nat where "SP_LOW_LAST = 0xDFFF"

lemmas utf_defs = UCS_ALT_NULL_def SP_HALF_SHIFT_def SP_HALF_BASE_def SP_HALF_MASK_def
  SP_HIGH_FIRST_def SP_HIGH_LAST_def SP_LOW_FIRST_def SP_LOW_LAST_def

definition NXSwapShort :: "nat \<Rightarrow> nat" where
  "NXSwapShort s = s mod 256 * 256 + s div 256"

definition UNICODE_TO_UTF8_LEN :: "nat \<Rightarrow> nat" where
  "UNICODE_TO_UTF8_LEN c =
     (if c < 0x0080 then 1
      else if c < 0x0800 then 2 else if c AND 0xf800 = 0xd800 then 2 else 3)"

fun encodelen_loop :: "bool \<Rightarrow> nat \<Rightarrow> nat list \<Rightarrow> nat \<Rightarrow> nat \<Rightarrow> nat option" where
  "encodelen_loop swapbytes altslash ucsp 0 len = Some len"
| "encodelen_loop swapbytes altslash [] (Suc charcnt) len = None"
| "encodelen_loop swapbytes altslash (ucs_ch # ucsp) (Suc charcnt) len =
     (let ucs_ch = (if swapbytes then NXSwapShort ucs_ch else ucs_ch);
          ucs_ch = (if ucs_ch = 0x2F then if altslash \<noteq> 0 then altslash else 0x5F
                    else if ucs_ch = 0 then UCS_ALT_NULL else ucs_ch)
      in encodelen_loop swapbytes altslash ucsp charcnt (len + UNICODE_TO_UTF8_LEN ucs_ch))"

definition utf8_encodelen :: "nat list \<Rightarrow> nat \<Rightarrow> nat \<Rightarrow> nat \<Rightarrow> nat option" where
  "utf8_encodelen ucsp ucslen altslash flags =
     encodelen_loop (flags AND UTF_REVERSE_ENDIAN \<noteq> 0) altslash ucsp (ucslen div 2) 0"

text \<open>
  One round of the loop of \<^verbatim>\<open>utf8_encodestr\<close> in three parts. The first takes the next unit, from
  the pending rest of a decomposed character (\<^verbatim>\<open>extra\<close> units at \<^verbatim>\<open>chp\<close>) or from the input; it
  returns the unit and the new \<^verbatim>\<open>charcnt\<close>, \<^verbatim>\<open>extra\<close>, \<^verbatim>\<open>chp\<close> and \<^verbatim>\<open>ucsp\<close>.
\<close>

definition encode_next ::
    "bool \<Rightarrow> bool \<Rightarrow> int \<Rightarrow> int \<Rightarrow> nat list \<Rightarrow> nat list \<Rightarrow>
     (nat \<times> int \<times> int \<times> nat list \<times> nat list) option" where
  "encode_next swapbytes decompose charcnt extra chp ucsp =
     (if 0 < extra then
        case chp of [] \<Rightarrow> None | c # chp \<Rightarrow> Some (c, charcnt, extra - 1, chp, ucsp)
      else
        case ucsp of [] \<Rightarrow> None
        | u # ucsp \<Rightarrow>
          let ucs_ch = (if swapbytes then NXSwapShort u else u) in
          do {
            d \<leftarrow> (if decompose then unicode_decomposeable ucs_ch else Some False);
            if d then do {
              sequence \<leftarrow> unicode_decompose ucs_ch 8;
              let extra = int (length sequence) - 1;
              (case sequence of [] \<Rightarrow> None
               | c # chp \<Rightarrow> Some (c, charcnt + extra, extra, chp, ucsp)) }
            else Some (ucs_ch, charcnt, extra, chp, ucsp) })"

text \<open>The second replaces the characters that are not permitted.\<close>

definition encode_permitted :: "nat \<Rightarrow> nat \<Rightarrow> int \<Rightarrow> nat \<times> int" where
  "encode_permitted altslash ucs_ch result =
     (if ucs_ch = 0x2F then if altslash \<noteq> 0 then (altslash, result) else (0x5F, EINVAL)
      else if ucs_ch = 0 then (UCS_ALT_NULL, result) else (ucs_ch, result))"

text \<open>
  The third writes the bytes. It returns \<^const>\<open>None\<close> for the bytes when they do not fit, and
  otherwise the bytes and whether a second surrogate was consumed.
\<close>

definition fits :: "nat \<Rightarrow> bool \<Rightarrow> nat list \<Rightarrow> nat \<Rightarrow> bool" where
  "fits buflen nullterm out k \<longleftrightarrow> int (length out) + int k < int buflen - (if nullterm then 1 else 0)"

definition put_bytes :: "nat \<Rightarrow> nat list \<Rightarrow> nat list \<Rightarrow> nat list option" where
  "put_bytes buflen out bs =
     (if length out + length bs \<le> buflen then Some (out @ map (\<lambda>b. b mod 256) bs) else None)"

definition encode_pair :: "bool \<Rightarrow> nat \<Rightarrow> int \<Rightarrow> nat list \<Rightarrow> nat option option" where
  "encode_pair swapbytes ucs_ch charcnt ucsp =
     (if SP_HIGH_FIRST \<le> ucs_ch \<and> ucs_ch \<le> SP_HIGH_LAST \<and> 0 < charcnt then
        case ucsp of [] \<Rightarrow> None
        | u # _ \<Rightarrow>
          let ch2 = (if swapbytes then NXSwapShort u else u) in
          if SP_LOW_FIRST \<le> ch2 \<and> ch2 \<le> SP_LOW_LAST
          then Some (Some ((ucs_ch - SP_HIGH_FIRST) * 2 ^ SP_HALF_SHIFT + (ch2 - SP_LOW_FIRST) + SP_HALF_BASE))
          else Some None
      else Some None)"

definition encode_put ::
    "bool \<Rightarrow> nat \<Rightarrow> bool \<Rightarrow> nat \<Rightarrow> int \<Rightarrow> nat list \<Rightarrow> nat list \<Rightarrow> (nat list \<times> bool) option option" where
  "encode_put swapbytes buflen nullterm ucs_ch charcnt ucsp out =
     (if ucs_ch < 0x0080 then
        if \<not> fits buflen nullterm out 0 then Some None
        else do { out \<leftarrow> put_bytes buflen out [ucs_ch]; Some (Some (out, False)) }
      else if ucs_ch < 0x800 then
        if \<not> fits buflen nullterm out 1 then Some None
        else do {
          out \<leftarrow> put_bytes buflen out [0xc0 OR ucs_ch div 2 ^ 6, 0x80 OR (0x3f AND ucs_ch)];
          Some (Some (out, False)) }
      else do {
        pr \<leftarrow> encode_pair swapbytes ucs_ch charcnt ucsp;
        (case pr of
          Some pair \<Rightarrow>
            if \<not> fits buflen nullterm out 3 then Some None
            else do {
              out \<leftarrow> put_bytes buflen out
                [0xf0 OR pair div 2 ^ 18, 0x80 OR (0x3f AND pair div 2 ^ 12),
                 0x80 OR (0x3f AND pair div 2 ^ 6), 0x80 OR (0x3f AND pair)];
              Some (Some (out, True)) }
        | None \<Rightarrow>
            if \<not> fits buflen nullterm out 2 then Some None
            else do {
              out \<leftarrow> put_bytes buflen out
                [0xe0 OR ucs_ch div 2 ^ 12, 0x80 OR (0x3f AND ucs_ch div 2 ^ 6), 0x80 OR (0x3f AND ucs_ch)];
              Some (Some (out, False)) }) })"

partial_function (option) encode_loop ::
    "bool \<Rightarrow> bool \<Rightarrow> bool \<Rightarrow> nat \<Rightarrow> nat \<Rightarrow> int \<Rightarrow> int \<Rightarrow> nat list \<Rightarrow> nat list \<Rightarrow> nat list \<Rightarrow> int \<Rightarrow>
     (nat list \<times> int) option" where
  "encode_loop swapbytes nullterm decompose buflen altslash charcnt extra chp ucsp out result =
     (if 0 < charcnt then do {
        (ucs_ch, charcnt, extra, chp, ucsp) \<leftarrow>
          encode_next swapbytes decompose (charcnt - 1) extra chp ucsp;
        let (ucs_ch, result) = encode_permitted altslash ucs_ch result;
        put \<leftarrow> encode_put swapbytes buflen nullterm ucs_ch charcnt ucsp out;
        (case put of
          None \<Rightarrow> Some (out, ENAMETOOLONG)
        | Some (out, pair) \<Rightarrow>
            if pair
            then encode_loop swapbytes nullterm decompose buflen altslash (charcnt - 1) extra chp (tl ucsp) out result
            else encode_loop swapbytes nullterm decompose buflen altslash charcnt extra chp ucsp out result) }
      else Some (out, result))"

text \<open>
  The result is the contents of the buffer, the length stored in \<^verbatim>\<open>utf8len\<close> and the result code.
\<close>

definition utf8_encodestr ::
    "nat list \<Rightarrow> nat \<Rightarrow> nat \<Rightarrow> nat \<Rightarrow> nat \<Rightarrow> (nat list \<times> nat \<times> int) option" where
  "utf8_encodestr ucsp ucslen buflen altslash flags =
     (let swapbytes = flags AND UTF_REVERSE_ENDIAN \<noteq> 0;
          nullterm = (flags AND UTF_NO_NULL_TERM = 0);
          decompose = flags AND UTF_DECOMPOSED \<noteq> 0
      in do {
        (out, result) \<leftarrow>
          encode_loop swapbytes nullterm decompose buflen altslash (int (ucslen div 2)) 0 [] ucsp [] 0;
        buf \<leftarrow> (if nullterm then put_bytes buflen out [0] else Some out);
        Some (buf, length out, result) })"

section \<open>Decoding\<close>

definition utf_extrabytes :: "int list" where
  "utf_extrabytes =
    [ 0,  0,  0,  0,  0,  0,  0,  0,  0,  0,  0,  0,  0,  0,  0,  0,
     -1, -1, -1, -1, -1, -1, -1, -1,  1,  1,  1,  1,  2,  2,  3, -1]"

definition put_unit :: "bool \<Rightarrow> nat \<Rightarrow> nat list \<Rightarrow> nat \<Rightarrow> nat list option" where
  "put_unit swapbytes buflen out ucs_ch =
     (if 2 * length out + 2 \<le> buflen
      then Some (out @ [if swapbytes then NXSwapShort ucs_ch else ucs_ch]) else None)"

definition full :: "nat \<Rightarrow> nat list \<Rightarrow> bool" where
  "full buflen out \<longleftrightarrow> buflen \<le> 2 * length out"

text \<open>The writes of a sequence; the flag says that the buffer was full after one of them.\<close>

primrec put_sequence :: "bool \<Rightarrow> nat \<Rightarrow> nat list \<Rightarrow> nat list \<Rightarrow> (nat list \<times> bool) option" where
  "put_sequence swapbytes buflen [] out = Some (out, False)"
| "put_sequence swapbytes buflen (c # sequence) out = do {
     out \<leftarrow> put_unit swapbytes buflen out c;
     if full buflen out then Some (out, True) else put_sequence swapbytes buflen sequence out }"

text \<open>
  The value of a lead byte and the bytes that follow it, with the 32-bit arithmetic of the source.
\<close>

definition decode_value :: "nat \<Rightarrow> nat list \<Rightarrow> nat option" where
  "decode_value byte utf8p =
     (case utf8p of
        [b2] \<Rightarrow> Some (u32_sub (byte * 2 ^ 6 + b2) 0x00003080)
      | [b2, b3] \<Rightarrow> Some (u32_sub ((byte * 2 ^ 6 + b2) * 2 ^ 6 + b3) 0x000E2080)
      | [b2, b3, b4] \<Rightarrow>
          Some (u32_sub (((byte * 2 ^ 6 + b2) * 2 ^ 6 + b3) * 2 ^ 6 + b4) (0x03C82080 + SP_HALF_BASE))
      | _ \<Rightarrow> None)"

text \<open>
  The end of a round for a unit from several bytes: decomposition, composition with the unit
  before it, and the replacement characters. The flag says that the buffer became full.
\<close>

definition decode_unit ::
    "bool \<Rightarrow> bool \<Rightarrow> bool \<Rightarrow> nat \<Rightarrow> nat \<Rightarrow> nat \<Rightarrow> nat list \<Rightarrow> (nat list \<times> bool) option" where
  "decode_unit swapbytes decompose precompose buflen altslash ucs_ch out = do {
     d \<leftarrow> (if decompose then unicode_decomposeable ucs_ch else Some False);
     if d then do {
       sequence \<leftarrow> unicode_decompose ucs_ch 8;
       put_sequence swapbytes buflen sequence out }
     else do {
       (ucs_ch, out) \<leftarrow>
         (if \<not> decompose \<and> precompose \<and> out \<noteq> [] then do {
            combinable \<leftarrow> unicode_combinable ucs_ch;
            if combinable then do {
              let base = (if swapbytes then NXSwapShort (last out) else last out);
              composite \<leftarrow> unicode_combine base ucs_ch;
              if composite \<noteq> 0 then Some (composite, butlast out) else Some (ucs_ch, out) }
            else Some (ucs_ch, out) }
          else Some (ucs_ch, out));
       let ucs_ch = (if ucs_ch = UCS_ALT_NULL then 0 else ucs_ch);
       let ucs_ch = (if ucs_ch = altslash then 0x2F else ucs_ch);
       out \<leftarrow> put_unit swapbytes buflen out ucs_ch;
       Some (out, False) } }"

function decode_loop ::
    "bool \<Rightarrow> bool \<Rightarrow> bool \<Rightarrow> nat \<Rightarrow> nat \<Rightarrow> nat list \<Rightarrow> nat \<Rightarrow> nat list \<Rightarrow> (nat list \<times> int) option" where
  "decode_loop swapbytes decompose precompose buflen altslash utf8p utf8len out =
     (if utf8len = 0 then Some (out, 0)
      else if utf8p = [] then None
      else
        let byte = hd utf8p; utf8p = tl utf8p; utf8len' = utf8len - 1 in
        if byte = 0 then Some (out, 0)
        else if full buflen out then Some (out, ENAMETOOLONG)
        else if byte < 0x80 then do {
          out \<leftarrow> put_unit swapbytes buflen out (if byte = altslash then 0x2F else byte);
          decode_loop swapbytes decompose precompose buflen altslash utf8p utf8len' out }
        else
          let extrabytes = utf_extrabytes ! (byte div 2 ^ 3) in
          if int utf8len' < extrabytes mod 2 ^ 64 then Some (out, EINVAL)
          else if extrabytes \<notin> {1, 2, 3} then Some (out, EINVAL)
          else if length utf8p < nat extrabytes then None
          else do {
            ch \<leftarrow> decode_value byte (take (nat extrabytes) utf8p);
            let utf8len' = utf8len' - nat extrabytes;
            let utf8p = drop (nat extrabytes) utf8p;
            if extrabytes = 3 then do {
              out \<leftarrow> put_unit swapbytes buflen out ((ch div 2 ^ SP_HALF_SHIFT + SP_HIGH_FIRST) mod 2 ^ 16);
              if full buflen out then Some (out, ENAMETOOLONG)
              else do {
                out \<leftarrow> put_unit swapbytes buflen out ((ch AND SP_HALF_MASK) + SP_LOW_FIRST);
                decode_loop swapbytes decompose precompose buflen altslash utf8p utf8len' out } }
            else if ch < (if extrabytes = 1 then 0x0080 else 0x0800) then Some (out, EINVAL)
            else do {
              (out, toolong) \<leftarrow>
                decode_unit swapbytes decompose precompose buflen altslash (ch mod 2 ^ 16) out;
              if toolong then Some (out, ENAMETOOLONG)
              else decode_loop swapbytes decompose precompose buflen altslash utf8p utf8len' out } })"
  by auto
termination
  by (relation "measure (\<lambda>(s, d, p, b, a, i, n, out). n)") (auto simp: Let_def)

definition utf8_decodestr ::
    "nat list \<Rightarrow> nat \<Rightarrow> nat \<Rightarrow> nat \<Rightarrow> nat \<Rightarrow> (nat list \<times> nat \<times> int) option" where
  "utf8_decodestr utf8p utf8len buflen altslash flags = do {
     (out, result) \<leftarrow>
       decode_loop (flags AND UTF_REVERSE_ENDIAN \<noteq> 0) (flags AND UTF_DECOMPOSED \<noteq> 0)
         (flags AND UTF_PRECOMPOSED \<noteq> 0) buflen altslash utf8p utf8len [];
     Some (out, 2 * length out, result) }"

section \<open>The encoding\<close>

declare encode_loop.simps [code] decode_loop.simps [simp del]

lemma or_disjoint:
  fixes x :: nat
  assumes "x < 2 ^ n"
  shows "k * 2 ^ n OR x = k * 2 ^ n + x"
proof -
  have "\<not> bit (k * 2 ^ n) m \<or> \<not> bit x m" for m
  proof (cases "m < n")
    case True
    then show ?thesis by (simp add: push_bit_eq_mult [symmetric] bit_simps)
  next
    case False
    then have "x < 2 ^ m" using assms by (meson less_le_trans linorder_not_less one_le_numeral power_increasing)
    then show ?thesis by (simp add: bit_iff_odd)
  qed
  then show ?thesis by (simp add: disjunctive_add)
qed

lemma or_lead [simp]:
  "x < 64 \<Longrightarrow> 0x80 OR x = 0x80 + (x::nat)" "x < 32 \<Longrightarrow> 0xc0 OR x = 0xc0 + (x::nat)"
  "x < 16 \<Longrightarrow> 0xe0 OR x = 0xe0 + (x::nat)" "x < 8 \<Longrightarrow> 0xf0 OR x = 0xf0 + (x::nat)"
  using or_disjoint [of x 6 2] or_disjoint [of x 5 6] or_disjoint [of x 4 14] or_disjoint [of x 3 30]
  by simp_all

lemma and_mask_mod [simp]: "0x3f AND x = x mod (64::nat)" "x AND 0x3FF = x mod (1024::nat)"
  using take_bit_eq_mask [of 6 x] take_bit_eq_mask [of 10 x]
  by (simp_all add: take_bit_eq_mod mask_eq_exp_minus_1 and.commute)

text \<open>The bytes of one unit and of a pair of surrogates.\<close>

definition unit_utf8 :: "nat \<Rightarrow> nat list" where
  "unit_utf8 c =
     (if c < 0x80 then [c]
      else if c < 0x800 then [0xc0 + c div 64, 0x80 + c mod 64]
      else [0xe0 + c div 4096, 0x80 + c div 64 mod 64, 0x80 + c mod 64])"

definition pair_utf8 :: "nat \<Rightarrow> nat list" where
  "pair_utf8 v = [0xf0 + v div 262144, 0x80 + v div 4096 mod 64, 0x80 + v div 64 mod 64, 0x80 + v mod 64]"

definition high_surrogate :: "nat \<Rightarrow> bool" where
  "high_surrogate c \<longleftrightarrow> 0xD800 \<le> c \<and> c \<le> 0xDBFF"

definition low_surrogate :: "nat \<Rightarrow> bool" where
  "low_surrogate c \<longleftrightarrow> 0xDC00 \<le> c \<and> c \<le> 0xDFFF"

definition pair_value :: "nat \<Rightarrow> nat \<Rightarrow> nat" where
  "pair_value h l = (h - 0xD800) * 1024 + (l - 0xDC00) + 0x10000"

definition permitted :: "nat \<Rightarrow> nat \<Rightarrow> nat" where
  "permitted altslash c =
     (if c = 0x2F then if altslash \<noteq> 0 then altslash else 0x5F
      else if c = 0 then UCS_ALT_NULL else c)"

fun units_utf8 :: "nat \<Rightarrow> nat list \<Rightarrow> nat list" where
  "units_utf8 altslash (h # l # us) =
     (if high_surrogate h \<and> low_surrogate l
      then pair_utf8 (pair_value h l) @ units_utf8 altslash us
      else unit_utf8 (permitted altslash h) @ units_utf8 altslash (l # us))"
| "units_utf8 altslash [h] = unit_utf8 (permitted altslash h)"
| "units_utf8 altslash [] = []"

definition swapped :: "bool \<Rightarrow> nat list \<Rightarrow> nat list" where
  "swapped swapbytes us = (if swapbytes then map NXSwapShort us else us)"

definition units :: "nat list \<Rightarrow> bool" where
  "units us \<longleftrightarrow> (\<forall>u\<in>set us. u < 2 ^ 16)"

lemma NXSwapShort_twice [simp]: "u < 2 ^ 16 \<Longrightarrow> NXSwapShort (NXSwapShort u) = u"
  by (simp add: NXSwapShort_def less_mult_imp_div_less)

lemma unit_utf8_bytes: "c < 2 ^ 16 \<Longrightarrow> b \<in> set (unit_utf8 c) \<Longrightarrow> b < 256"
  by (auto simp: unit_utf8_def less_mult_imp_div_less split: if_splits)

lemma pair_value_less:
  "high_surrogate h \<Longrightarrow> low_surrogate l \<Longrightarrow> pair_value h l < 0x110000 \<and> 0x10000 \<le> pair_value h l"
  by (auto simp: high_surrogate_def low_surrogate_def pair_value_def)

lemma put_bytes_fit:
  "length out + length bs \<le> buflen \<Longrightarrow> \<forall>b\<in>set bs. b < 256 \<Longrightarrow> put_bytes buflen out bs = Some (out @ bs)"
  by (simp add: put_bytes_def map_idI)

lemma encode_put_unit:
  assumes "c < 2 ^ 16" "0x800 \<le> c \<Longrightarrow> encode_pair sw c cc ucsp = Some None"
  shows "encode_put sw buflen nt c cc ucsp out =
     Some (if fits buflen nt out (length (unit_utf8 c) - 1) then Some (out @ unit_utf8 c, False) else None)"
proof -
  have f: "put_bytes buflen out (unit_utf8 c) = Some (out @ unit_utf8 c)"
    if "fits buflen nt out (length (unit_utf8 c) - 1)"
    using that unit_utf8_bytes [OF assms(1)]
    by (intro put_bytes_fit) (auto simp: fits_def unit_utf8_def split: if_splits)
  have d: "c div 4096 < 16" "c < 0x800 \<Longrightarrow> c div 64 < 32"
    using assms(1) by (simp_all add: less_mult_imp_div_less)
  consider "c < 0x80" | "0x80 \<le> c" "c < 0x800" | "0x800 \<le> c" by linarith
  then show ?thesis
  proof cases
    case 1
    then show ?thesis using f by (auto simp: encode_put_def unit_utf8_def)
  next
    case 2
    then show ?thesis using f d by (auto simp: encode_put_def unit_utf8_def)
  next
    case 3
    then show ?thesis using f d assms(2) by (auto simp: encode_put_def unit_utf8_def simp flip: numeral_2_eq_2)
  qed
qed

lemma encode_put_pair:
  assumes "0x800 \<le> c" "encode_pair sw c cc ucsp = Some (Some v)" "v < 0x110000"
  shows "encode_put sw buflen nt c cc ucsp out =
     Some (if fits buflen nt out 3 then Some (out @ pair_utf8 v, True) else None)"
proof -
  have d: "v div 262144 < 8" using assms(3) by (simp add: less_mult_imp_div_less)
  have "put_bytes buflen out (pair_utf8 v) = Some (out @ pair_utf8 v)" if "fits buflen nt out 3"
    using that d by (intro put_bytes_fit) (auto simp: fits_def pair_utf8_def split: if_splits)
  then show ?thesis using assms d by (auto simp: encode_put_def pair_utf8_def)
qed

definition pairs :: "nat \<Rightarrow> nat list \<Rightarrow> bool" where
  "pairs c us \<longleftrightarrow> high_surrogate c \<and> us \<noteq> [] \<and> low_surrogate (hd us)"

lemma swapped_Cons [simp]:
  "swapped sw (u # us) = (if sw then NXSwapShort u else u) # swapped sw us"
  by (simp add: swapped_def)

lemma swapped_Nil [simp]: "swapped sw [] = []"
  by (simp add: swapped_def)

lemma encode_pair_swapped:
  assumes "units us" "0 < cc \<longleftrightarrow> us \<noteq> []"
  shows "encode_pair sw c cc (swapped sw us @ rest) =
    Some (if pairs c us then Some (pair_value c (hd us)) else None)"
  using assms
  by (cases us) (auto simp: encode_pair_def pairs_def units_def utf_defs high_surrogate_def
      low_surrogate_def pair_value_def Let_def)

lemma encode_pair_other: "\<not> high_surrogate c \<Longrightarrow> encode_pair sw c cc ucsp = Some None"
  by (auto simp: encode_pair_def high_surrogate_def utf_defs)

lemma encode_permitted_eq:
  "encode_permitted altslash c r = (permitted altslash c, if c = 0x2F \<and> altslash = 0 then EINVAL else r)"
  by (simp add: encode_permitted_def permitted_def)

lemma permitted_less: "c < 2 ^ 16 \<Longrightarrow> altslash < 2 ^ 16 \<Longrightarrow> permitted altslash c < 2 ^ 16"
  by (simp add: permitted_def UCS_ALT_NULL_def)

lemma encode_loop_unit:
  assumes "units (u # us)" "altslash < 2 ^ 16" "\<not> pairs (permitted altslash u) us"
  shows "encode_loop sw nt False buflen altslash (int (length (u # us))) 0 chp (swapped sw (u # us) @ rest) out r =
    (if fits buflen nt out (length (unit_utf8 (permitted altslash u)) - 1)
     then encode_loop sw nt False buflen altslash (int (length us)) 0 chp (swapped sw us @ rest)
            (out @ unit_utf8 (permitted altslash u)) (if u = 0x2F \<and> altslash = 0 then EINVAL else r)
     else Some (out, ENAMETOOLONG))"
proof -
  have u: "u < 2 ^ 16" "units us" using assms(1) by (auto simp: units_def)
  have "encode_pair sw (permitted altslash u) (int (length us)) (swapped sw us @ rest) = Some None"
    using encode_pair_swapped [OF u(2), of "int (length us)"] assms(3) by simp
  note put = encode_put_unit [OF permitted_less [OF u(1) assms(2)] this]
  have nxt: "encode_next sw False (int (length (u # us)) - 1) 0 chp (swapped sw (u # us) @ rest) =
      Some (u, int (length us), 0, chp, swapped sw us @ rest)"
    using u(1) by (simp add: encode_next_def)
  show ?thesis
    by (subst encode_loop.simps) (simp add: nxt [simplified] encode_permitted_eq put)
qed

lemma encode_loop_pair:
  assumes "units (h # l # us)" "high_surrogate h" "low_surrogate l"
  shows "encode_loop sw nt False buflen altslash (int (length (h # l # us))) 0 chp (swapped sw (h # l # us) @ rest) out r =
    (if fits buflen nt out 3
     then encode_loop sw nt False buflen altslash (int (length us)) 0 chp (swapped sw us @ rest)
            (out @ pair_utf8 (pair_value h l)) r
     else Some (out, ENAMETOOLONG))"
proof -
  have u: "h < 2 ^ 16" "units (l # us)" "units us" using assms(1) by (auto simp: units_def)
  have h: "0x800 \<le> h" "permitted altslash h = h" "h \<noteq> 0x2F"
    using assms(2) by (auto simp: high_surrogate_def permitted_def)
  have "encode_pair sw h (int (length (l # us))) (swapped sw (l # us) @ rest) = Some (Some (pair_value h l))"
    using encode_pair_swapped [OF u(2), of "int (length (l # us))" sw h rest] assms(2,3) by (simp add: pairs_def)
  note put = encode_put_pair [OF h(1) this]
  have nxt: "encode_next sw False (int (length (h # l # us)) - 1) 0 chp (swapped sw (h # l # us) @ rest) =
      Some (h, int (length (l # us)), 0, chp, swapped sw (l # us) @ rest)"
    using u(1) by (simp add: encode_next_def)
  show ?thesis
    using pair_value_less [OF assms(2,3)]
    by (subst encode_loop.simps) (simp add: nxt [simplified] encode_permitted_eq h put [simplified])
qed

lemma encode_loop_end: "encode_loop sw nt dc buflen altslash 0 extra chp ucsp out r = Some (out, r)"
  by (subst encode_loop.simps) simp

lemma fits_mono: "fits buflen nt out (n + m - 1) \<Longrightarrow> 0 < n \<Longrightarrow> fits buflen nt out (n - 1)"
  by (auto simp: fits_def split: if_splits)

definition room :: "nat \<Rightarrow> bool \<Rightarrow> nat list \<Rightarrow> nat \<Rightarrow> bool" where
  "room buflen nt out n \<longleftrightarrow> length out + n + (if nt then 1 else 0) \<le> buflen"

lemma fits_room: "0 < n \<Longrightarrow> fits buflen nt out (n - 1) \<longleftrightarrow> room buflen nt out n"
  by (auto simp: fits_def room_def split: if_splits)

lemma unit_utf8_pos: "0 < length (unit_utf8 c)"
  by (simp add: unit_utf8_def)

lemma length_pair_utf8 [simp]: "length (pair_utf8 v) = 4"
  by (simp add: pair_utf8_def)

lemma room_append: "room buflen nt (out @ xs) n \<longleftrightarrow> room buflen nt out (length xs + n)"
  by (simp add: room_def add.assoc)

lemma room_le: "room buflen nt out n \<Longrightarrow> m \<le> n \<Longrightarrow> room buflen nt out m"
  by (simp add: room_def)

lemma permitted_pairs:
  "\<not> high_surrogate altslash \<Longrightarrow> pairs (permitted altslash u) us \<longleftrightarrow> pairs u us"
  by (auto simp: pairs_def permitted_def high_surrogate_def UCS_ALT_NULL_def)

lemma encode_loop_units:
  assumes "units us" "altslash < 2 ^ 16" "\<not> high_surrogate altslash"
    "room buflen nt out (length (units_utf8 altslash us))"
  shows "encode_loop sw nt False buflen altslash (int (length us)) 0 chp (swapped sw us @ rest) out r =
     Some (out @ units_utf8 altslash us, if 0x2F \<in> set us \<and> altslash = 0 then EINVAL else r)"
  using assms
proof (induction altslash us arbitrary: out r rule: units_utf8.induct)
  case (1 altslash h l us)
  show ?case
  proof (cases "high_surrogate h \<and> low_surrogate l")
    case True
    then have "h \<noteq> 0x2F" "l \<noteq> 0x2F" by (auto simp: high_surrogate_def low_surrogate_def)
    moreover have "fits buflen nt out 3" "room buflen nt (out @ pair_utf8 (pair_value h l)) (length (units_utf8 altslash us))"
      using 1(6) True fits_room [of 4 buflen nt out] by (auto simp: room_append intro: room_le)
    moreover have "units us" using 1(3) by (simp add: units_def)
    ultimately show ?thesis
      using True 1(1,3-5) encode_loop_pair [of h l us] by simp
  next
    case False
    define c where "c = permitted altslash h"
    have u: "units_utf8 altslash (h # l # us) = unit_utf8 c @ units_utf8 altslash (l # us)"
      using False by (auto simp: c_def)
    have np: "\<not> pairs c (l # us)"
      using False permitted_pairs [OF 1(5)] by (simp add: c_def) (simp add: pairs_def)
    have r: "room buflen nt out (length (unit_utf8 c))"
      "room buflen nt (out @ unit_utf8 c) (length (units_utf8 altslash (l # us)))"
      using 1(6) u by (auto simp: room_append intro: room_le)
    then have fit: "fits buflen nt out (length (unit_utf8 c) - 1)"
      using fits_room [OF unit_utf8_pos] by blast
    have us: "units (l # us)" using 1(3) by (simp add: units_def)
    show ?thesis
      using encode_loop_unit [OF 1(3,4) np [unfolded c_def], folded c_def] fit
        1(2) [OF False us 1(4,5) r(2)] by (simp add: u del: units_utf8.simps)
  qed
next
  case (2 altslash h)
  moreover have "\<not> pairs (permitted altslash h) []" by (simp add: pairs_def)
  moreover have "fits buflen nt out (length (unit_utf8 (permitted altslash h)) - 1)"
    using 2 fits_room [OF unit_utf8_pos] by simp
  ultimately show ?case
    using encode_loop_unit [of h "[]" altslash] by (simp add: encode_loop_end)
qed (simp add: encode_loop_end)

section \<open>Decoding what was encoded\<close>


definition restored :: "nat \<Rightarrow> nat \<Rightarrow> nat" where
  "restored altslash c =
     (if (if c = UCS_ALT_NULL then 0 else c) = altslash then 0x2F
      else if c = UCS_ALT_NULL then 0 else c)"














definition undecomposable :: "nat \<Rightarrow> bool" where
  "undecomposable u \<longleftrightarrow> unicode_decomposeable u = Some False"



lemma decode_loop_end: "decode_loop sw dc pc buflen altslash utf8p 0 out = Some (out, 0)"
  by (subst decode_loop.simps) simp



lemma utf8_encodestr_units:
  assumes "units us" "altslash < 2 ^ 16" "\<not> high_surrogate altslash"
    "flags AND UTF_DECOMPOSED = 0" "length (units_utf8 altslash us) < buflen"
    "sw \<longleftrightarrow> flags AND UTF_REVERSE_ENDIAN \<noteq> 0"
  shows "utf8_encodestr (swapped sw us @ rest) (2 * length us) buflen altslash flags =
     Some (units_utf8 altslash us @ (if flags AND UTF_NO_NULL_TERM = 0 then [0] else []),
           length (units_utf8 altslash us), if 0x2F \<in> set us \<and> altslash = 0 then EINVAL else 0)"
proof -
  have "room buflen (flags AND UTF_NO_NULL_TERM = 0) [] (length (units_utf8 altslash us))"
    using assms(5) by (simp add: room_def)
  from encode_loop_units [OF assms(1-3) this, of sw "[]" rest 0] assms(4-6)
  show ?thesis by (simp add: utf8_encodestr_def put_bytes_def)
qed

section \<open>The computed length\<close>

definition surrogate :: "nat \<Rightarrow> bool" where
  "surrogate c \<longleftrightarrow> high_surrogate c \<or> low_surrogate c"

fun unpaired :: "nat list \<Rightarrow> nat" where
  "unpaired (h # l # us) =
     (if high_surrogate h \<and> low_surrogate l then unpaired us
      else (if surrogate h then 1 else 0) + unpaired (l # us))"
| "unpaired [h] = (if surrogate h then 1 else 0)"
| "unpaired [] = 0"

lemma and_push_bit: "c AND push_bit n m = push_bit n (drop_bit n c AND m)" for c :: nat
  by (rule bit_eqI) (auto simp: bit_simps)

lemma and_surrogate_mask:
  assumes "c < 2 ^ 16"
  shows "c AND 0xf800 = 0xd800 \<longleftrightarrow> surrogate c"
proof -
  have "drop_bit 11 c AND 31 = drop_bit 11 c"
  proof -
    have "drop_bit 11 c < 2 ^ 5" using assms by (simp add: drop_bit_eq_div less_mult_imp_div_less)
    then show ?thesis using take_bit_eq_mask [of 5 "drop_bit 11 c"]
      by (simp add: take_bit_nat_eq_self mask_eq_exp_minus_1)
  qed
  then have "c AND 0xf800 = c div 2048 * 2048"
    using and_push_bit [of c 11 31] by (simp add: push_bit_eq_mult drop_bit_eq_div)
  moreover have "c div 2048 * 2048 = 0xd800 \<longleftrightarrow> surrogate c"
    by (auto simp: surrogate_def high_surrogate_def low_surrogate_def)
  ultimately show ?thesis by simp
qed

lemma UNICODE_TO_UTF8_LEN_eq:
  "c < 2 ^ 16 \<Longrightarrow> UNICODE_TO_UTF8_LEN c + (if surrogate c then 1 else 0) = length (unit_utf8 c)"
  by (auto simp: UNICODE_TO_UTF8_LEN_def and_surrogate_mask unit_utf8_def surrogate_def
      high_surrogate_def low_surrogate_def)

definition name_length :: "nat \<Rightarrow> nat list \<Rightarrow> nat" where
  "name_length altslash us = sum_list (map (\<lambda>u. UNICODE_TO_UTF8_LEN (permitted altslash u)) us)"

lemma encodelen_loop_units:
  assumes "units us"
  shows "encodelen_loop sw altslash (swapped sw us @ rest) (length us) len = Some (len + name_length altslash us)"
  using assms
proof (induction us arbitrary: len)
  case (Cons u us)
  then have "u < 2 ^ 16" "units us" by (auto simp: units_def)
  with Cons.IH [OF \<open>units us\<close>] show ?case
    by (auto simp: Let_def name_length_def permitted_def)
qed (simp add: name_length_def)

lemma surrogate_permitted: "\<not> surrogate altslash \<Longrightarrow> surrogate (permitted altslash u) \<longleftrightarrow> surrogate u"
  by (auto simp: permitted_def surrogate_def high_surrogate_def low_surrogate_def UCS_ALT_NULL_def)

lemma name_length_eq:
  assumes "units us" "altslash < 2 ^ 16" "\<not> surrogate altslash"
  shows "name_length altslash us + unpaired us = length (units_utf8 altslash us)"
  using assms
proof (induction altslash us rule: units_utf8.induct)
  case (1 altslash h l us)
  then have u: "h < 2 ^ 16" "l < 2 ^ 16" "units us" "units (l # us)" by (auto simp: units_def)
  show ?case
  proof (cases "high_surrogate h \<and> low_surrogate l")
    case True
    then have "permitted altslash h = h" "permitted altslash l = l" "UNICODE_TO_UTF8_LEN h = 2" "UNICODE_TO_UTF8_LEN l = 2"
      using u by (auto simp: permitted_def high_surrogate_def low_surrogate_def UNICODE_TO_UTF8_LEN_def
          and_surrogate_mask surrogate_def)
    with True 1(1) [OF True u(3) 1(4,5)] show ?thesis by (simp add: name_length_def)
  next
    case False
    then show ?thesis
      using 1(2) [OF False u(4) 1(4,5)] UNICODE_TO_UTF8_LEN_eq [OF permitted_less [OF u(1) 1(4)]]
        surrogate_permitted [OF 1(5)]
      by (auto simp: name_length_def)
  qed
next
  case (2 altslash h)
  then have "h < 2 ^ 16" by (auto simp: units_def)
  with 2 UNICODE_TO_UTF8_LEN_eq [OF permitted_less, of h altslash] surrogate_permitted [of altslash h]
  show ?case by (auto simp: name_length_def)
qed (simp add: name_length_def)

lemma encode_loop_toolong:
  assumes "units us" "altslash < 2 ^ 16" "\<not> high_surrogate altslash" "room buflen nt out 0"
    "\<not> room buflen nt out (length (units_utf8 altslash us))"
  shows "\<exists>out'. encode_loop sw nt False buflen altslash (int (length us)) 0 chp (swapped sw us @ rest) out r =
     Some (out', ENAMETOOLONG) \<and> room buflen nt out' 0"
  using assms
proof (induction altslash us arbitrary: out r rule: units_utf8.induct)
  case (1 altslash h l us)
  then have us: "units us" "units (l # us)" by (auto simp: units_def)
  show ?case
  proof (cases "high_surrogate h \<and> low_surrogate l")
    case True
    show ?thesis
    proof (cases "fits buflen nt out 3")
      case fit: True
      then have "room buflen nt out 4" using fits_room [of 4 buflen nt out] by simp
      then have "room buflen nt (out @ pair_utf8 (pair_value h l)) 0" by (simp add: room_append)
      moreover have "\<not> room buflen nt (out @ pair_utf8 (pair_value h l)) (length (units_utf8 altslash us))"
        using 1(7) True by (simp add: room_append)
      ultimately show ?thesis
        using 1(1) [OF True us(1) 1(4,5)] encode_loop_pair [OF 1(3)] True fit by simp
    next
      case False
      with encode_loop_pair [OF 1(3)] True 1(6) show ?thesis by simp
    qed
  next
    case False
    define c where "c = permitted altslash h"
    have u: "units_utf8 altslash (h # l # us) = unit_utf8 c @ units_utf8 altslash (l # us)"
      using False by (auto simp: c_def)
    have "\<not> pairs c (l # us)"
      using False permitted_pairs [OF 1(5)] by (simp add: c_def) (simp add: pairs_def)
    note step = encode_loop_unit [OF 1(3,4) this [unfolded c_def], folded c_def]
    show ?thesis
    proof (cases "fits buflen nt out (length (unit_utf8 c) - 1)")
      case fit: True
      then have "room buflen nt (out @ unit_utf8 c) 0"
        using fits_room [OF unit_utf8_pos] by (simp add: room_append)
      moreover have "\<not> room buflen nt (out @ unit_utf8 c) (length (units_utf8 altslash (l # us)))"
        using 1(7) u by (simp add: room_append)
      ultimately show ?thesis
        using 1(2) [OF False us(2) 1(4,5)] step fit by simp
    next
      case False
      with step 1(6) show ?thesis by simp
    qed
  qed
next
  case (2 altslash h)
  moreover have "\<not> pairs (permitted altslash h) []" by (simp add: pairs_def)
  moreover have "\<not> fits buflen nt out (length (unit_utf8 (permitted altslash h)) - 1)"
    using 2 fits_room [OF unit_utf8_pos] by simp
  ultimately show ?case
    using encode_loop_unit [of h "[]" altslash] by simp
qed simp

section \<open>Decoding into decomposed characters\<close>

lemma undecomposable_range:
  assumes "0xD7C0 \<le> c" "c < 0xE000"
  shows "undecomposable c"
proof (cases "c < 0xD800")
  case True
  define j where "j = c mod 256 div 8"
  have page: "c div 256 = 0xD7" using True assms by simp
  then have "c mod 256 = c - 0xD700" using div_mult_mod_eq [of c 256] by simp
  then have "0xC0 \<le> c mod 256" using assms by simp
  then have "24 \<le> j" "j < 32" by (auto simp: j_def less_mult_imp_div_less)
  then have "j = 24 \<or> j = 25 \<or> j = 26 \<or> j = 27 \<or> j = 28 \<or> j = 29 \<or> j = 30 \<or> j = 31"
    by linarith
  with page show ?thesis
    using True assms unfolding undecomposable_def unicode_decomposeable_def j_def [symmetric] by auto
next
  case False
  define p where "p = c div 256"
  have "0xD8 \<le> p" "p < 0xE0" using False assms by (auto simp: p_def)
  then have "p = 0xD8 \<or> p = 0xD9 \<or> p = 0xDA \<or> p = 0xDB \<or> p = 0xDC \<or> p = 0xDD \<or> p = 0xDE \<or> p = 0xDF"
    by linarith
  moreover have "c div 2 ^ 8 mod 256 = p" using assms by (simp add: p_def)
  ultimately show ?thesis
    using False unfolding undecomposable_def unicode_decomposeable_def by auto
qed

definition continuation :: "nat \<Rightarrow> bool" where
  "continuation b \<longleftrightarrow> 0x80 \<le> b \<and> b < 0xC0"

text \<open>Every lead byte is followed by as many continuation bytes as it announces.\<close>

function well_continued :: "nat list \<Rightarrow> bool" where
  "well_continued [] \<longleftrightarrow> True"
| "well_continued (b # bs) \<longleftrightarrow>
     (let extrabytes = nat (utf_extrabytes ! (b div 8))
      in list_all continuation (take extrabytes bs) \<and> well_continued (drop extrabytes bs))"
  by pat_completeness auto
termination
  by (relation "measure length") auto

lemma decode_value_pair_range:
  assumes "0xf0 \<le> b" "b < 0xf8" "continuation b2" "continuation b3" "continuation b4"
    "decode_value b [b2, b3, b4] = Some ch"
  shows "0xD7C0 \<le> (ch div 1024 + 0xD800) mod 2 ^ 16" "(ch div 1024 + 0xD800) mod 2 ^ 16 < 0xE000"
proof -
  obtain a x y z where ax: "b = 0xf0 + a" "b2 = 0x80 + x" "b3 = 0x80 + y" "b4 = 0x80 + z"
    "a < 8" "x < 64" "y < 64" "z < 64"
    using assms by (auto simp: continuation_def le_iff_add)
  define v where "v = ((a * 64 + x) * 64 + y) * 64 + z"
  have v: "v < 0x200000" using ax by (simp add: v_def)
  have "((b * 64 + b2) * 64 + b3) * 64 + b4 = v + 0x03C82080" by (simp add: ax v_def)
  with assms(6) have ch: "ch = u32_sub (v + 0x03C82080) 0x03C92080"
    by (simp add: decode_value_def SP_HALF_BASE_def)
  show "0xD7C0 \<le> (ch div 1024 + 0xD800) mod 2 ^ 16" "(ch div 1024 + 0xD800) mod 2 ^ 16 < 0xE000"
  proof (atomize (full), cases "0x10000 \<le> v")
    case True
    then have "ch = v - 0x10000" using v by (simp add: ch)
    moreover have "(v - 0x10000) div 1024 < 0x7C0" using v by (simp add: less_mult_imp_div_less)
    ultimately show "0xD7C0 \<le> (ch div 1024 + 0xD800) mod 2 ^ 16 \<and> (ch div 1024 + 0xD800) mod 2 ^ 16 < 0xE000"
      by simp
  next
    case False
    then have "ch = v + 0xFFFF0000" by (simp add: ch u32_sub_wrap)
    then have "ch div 1024 = v div 1024 + 0x3FFFC0" by simp
    moreover have "v div 1024 < 64" using False by (simp add: less_mult_imp_div_less)
    ultimately show "0xD7C0 \<le> (ch div 1024 + 0xD800) mod 2 ^ 16 \<and> (ch div 1024 + 0xD800) mod 2 ^ 16 < 0xE000"
      by (simp add: mod_if)
  qed
qed

lemma not_full_fits: "even buflen \<Longrightarrow> \<not> full buflen out \<Longrightarrow> 2 * length out + 2 \<le> buflen"
  by (auto simp: full_def elim!: evenE)

lemma swapped_append: "swapped sw (us @ ws) = swapped sw us @ swapped sw ws"
  by (simp add: swapped_def)

lemma length_swapped [simp]: "length (swapped sw us) = length us"
  by (simp add: swapped_def)

lemma full_swapped [simp]: "full buflen (swapped sw us) \<longleftrightarrow> full buflen us"
  by (simp add: full_def)

lemma put_unit_swapped:
  "even buflen \<Longrightarrow> \<not> full buflen us \<Longrightarrow>
   put_unit sw buflen (swapped sw us) c = Some (swapped sw (us @ [c]))"
  using not_full_fits [of buflen us] by (simp add: put_unit_def swapped_append)

lemma put_sequence_swapped:
  assumes "even buflen" "\<not> full buflen us"
  shows "\<exists>ws tl. put_sequence sw buflen cs (swapped sw us) = Some (swapped sw (us @ ws), tl) \<and>
     set ws \<subseteq> set cs \<and> 2 * length (us @ ws) \<le> buflen"
  using assms
proof (induction cs arbitrary: us)
  case Nil
  then show ?case using not_full_fits [of buflen us] by (auto intro!: exI [of _ "[]"])
next
  case (Cons c cs)
  show ?case
  proof (cases "full buflen (us @ [c])")
    case True
    with Cons.prems not_full_fits [of buflen us] show ?thesis
      by (auto simp: put_unit_swapped intro!: exI [of _ "[c]"])
  next
    case False
    from Cons.IH [OF Cons.prems(1) False] obtain ws tl where
      ws: "put_sequence sw buflen cs (swapped sw (us @ [c])) = Some (swapped sw ((us @ [c]) @ ws), tl)"
      "set ws \<subseteq> set cs" "2 * length ((us @ [c]) @ ws) \<le> buflen" by blast
    with Cons.prems False show ?thesis
      by (auto simp: put_unit_swapped intro!: exI [of _ "c # ws"])
  qed
qed

lemma base_char_undecomposable: "base_char c \<Longrightarrow> undecomposable c"
  by (simp add: base_char_def undecomposable_def)

lemma undecomposable_low [simp]: "c < 0xC0 \<Longrightarrow> undecomposable c"
  by (simp add: undecomposable_def unicode_decomposeable_def)

definition decoded_to ::
    "bool \<Rightarrow> nat \<Rightarrow> nat list \<Rightarrow> bool \<Rightarrow> (nat list \<times> 'r) option \<Rightarrow> bool" where
  "decoded_to sw buflen us valid res \<longleftrightarrow>
     (\<exists>ws r. res = Some (swapped sw (us @ ws), r) \<and> 2 * length (us @ ws) \<le> buflen \<and>
        (valid \<longrightarrow> list_all undecomposable ws))"

lemma decode_unit_decomposes:
  assumes "c < 2 ^ 16" "even buflen" "\<not> full buflen us"
  shows "decoded_to sw buflen us True (decode_unit sw True pc buflen altslash c (swapped sw us))"
proof -
  obtain d where d: "unicode_decomposeable c = Some d" using decomposeable_covered [OF assms(1)] by blast
  show ?thesis
  proof (cases d)
    case True
    with d decomposable_decomposes [OF assms(1)] obtain ds
      where ds: "unicode_decompose c 8 = Some ds" "list_all base_char ds" by (auto simp: decomposed_into_def)
    obtain ws tl where ws: "put_sequence sw buflen ds (swapped sw us) = Some (swapped sw (us @ ws), tl)"
      "set ws \<subseteq> set ds" "2 * length (us @ ws) \<le> buflen"
      using put_sequence_swapped [OF assms(2,3)] by blast
    then have "list_all undecomposable ws"
      using ds(2) base_char_undecomposable by (auto simp: list_all_iff)
    with ws d True ds show ?thesis by (auto simp: decoded_to_def decode_unit_def)
  next
    case False
    then have "undecomposable c" using d by (simp add: undecomposable_def)
    then have "undecomposable (restored altslash c)" by (simp add: restored_def)
    moreover have "decode_unit sw True pc buflen altslash c (swapped sw us) =
        Some (swapped sw (us @ [restored altslash c]), False)"
      using d False put_unit_swapped [OF assms(2,3)] by (simp add: decode_unit_def restored_def)
    ultimately show ?thesis
      using not_full_fits [OF assms(2,3)] by (auto simp: decoded_to_def intro!: exI [of _ "[restored altslash c]"])
  qed
qed

lemma decoded_to_bind:
  assumes "decoded_to sw buflen us valid res"
    "\<And>ws r. 2 * length (us @ ws) \<le> buflen \<Longrightarrow> decoded_to sw buflen (us @ ws) valid (f (swapped sw (us @ ws), r))"
  shows "decoded_to sw buflen us valid (res \<bind> f)"
proof -
  obtain ws r where ws: "res = Some (swapped sw (us @ ws), r)" "2 * length (us @ ws) \<le> buflen"
    "valid \<longrightarrow> list_all undecomposable ws"
    using assms(1) by (auto simp: decoded_to_def)
  obtain vs t where "f (swapped sw (us @ ws), r) = Some (swapped sw ((us @ ws) @ vs), t)"
    "2 * length ((us @ ws) @ vs) \<le> buflen" "valid \<longrightarrow> list_all undecomposable vs"
    using assms(2) [OF ws(2), of r] unfolding decoded_to_def by blast
  with ws show ?thesis by (auto simp: decoded_to_def intro!: exI [of _ "ws @ vs"])
qed

lemma decoded_to_stop: "2 * length us \<le> buflen \<Longrightarrow> decoded_to sw buflen us valid (Some (swapped sw us, r))"
  by (auto simp: decoded_to_def intro!: exI [of _ "[]"])

lemma decoded_to_weaken: "decoded_to sw buflen us True res \<Longrightarrow> decoded_to sw buflen us valid res"
  by (auto simp: decoded_to_def)

lemma put_unit_decoded:
  assumes "even buflen" "\<not> full buflen us" "valid \<Longrightarrow> undecomposable c"
    "2 * length (us @ [c]) \<le> buflen \<Longrightarrow> decoded_to sw buflen (us @ [c]) valid (f (swapped sw (us @ [c])))"
  shows "decoded_to sw buflen us valid (put_unit sw buflen (swapped sw us) c \<bind> f)"
proof -
  have "2 * length (us @ [c]) \<le> buflen" using not_full_fits [OF assms(1,2)] by simp
  from assms(4) [OF this] obtain vs t where "f (swapped sw (us @ [c])) = Some (swapped sw ((us @ [c]) @ vs), t)"
    "2 * length ((us @ [c]) @ vs) \<le> buflen" "valid \<longrightarrow> list_all undecomposable vs"
    unfolding decoded_to_def by blast
  with assms(3) put_unit_swapped [OF assms(1,2)] show ?thesis
    by (auto simp: decoded_to_def intro!: exI [of _ "c # vs"])
qed

lemma utf_extrabytes_range:
  assumes "b < 256"
  shows "utf_extrabytes ! (b div 8) = 3 \<Longrightarrow> 0xf0 \<le> b \<and> b < 0xf8"
    "b < 0x80 \<Longrightarrow> utf_extrabytes ! (b div 8) = 0"
proof -
  have i: "b div 8 \<in> set [0..<32]" using assms by (simp add: less_mult_imp_div_less)
  have "\<forall>i\<in>set [0..<32]. (utf_extrabytes ! i = 3 \<longrightarrow> i = 30) \<and> (i < 16 \<longrightarrow> utf_extrabytes ! i = 0)"
    by (simp add: utf_extrabytes_def upt_conv_Cons)
  from bspec [OF this i] show "utf_extrabytes ! (b div 8) = 3 \<Longrightarrow> 0xf0 \<le> b \<and> b < 0xf8"
    "b < 0x80 \<Longrightarrow> utf_extrabytes ! (b div 8) = 0"
    by (auto simp: less_mult_imp_div_less)
qed

lemma well_continued_step:
  assumes "k = nat (utf_extrabytes ! (b div 8))" "k < n"
  shows "well_continued (take n (b # bs)) \<longleftrightarrow>
     list_all continuation (take k bs) \<and> well_continued (take (n - 1 - k) (drop k bs))"
  using assms by (cases n) (simp_all add: Let_def drop_take min_def)

lemma decode_value_exists: "length bs \<in> {1, 2, 3} \<Longrightarrow> \<exists>ch. decode_value b bs = Some ch"
  by (auto simp: decode_value_def length_Suc_conv numeral_2_eq_2 numeral_3_eq_3)

lemma decode_loop_stops:
  "b = 0 \<Longrightarrow> decode_loop sw dc pc buflen altslash (b # bs) (Suc m) out = Some (out, 0)"
  "b \<noteq> 0 \<Longrightarrow> full buflen out \<Longrightarrow> decode_loop sw dc pc buflen altslash (b # bs) (Suc m) out = Some (out, ENAMETOOLONG)"
  "0x80 \<le> b \<Longrightarrow> \<not> full buflen out \<Longrightarrow> int m < (utf_extrabytes ! (b div 8)) mod 2 ^ 64 \<Longrightarrow>
   decode_loop sw dc pc buflen altslash (b # bs) (Suc m) out = Some (out, EINVAL)"
  "0x80 \<le> b \<Longrightarrow> \<not> full buflen out \<Longrightarrow> utf_extrabytes ! (b div 8) \<notin> {1, 2, 3} \<Longrightarrow>
   decode_loop sw dc pc buflen altslash (b # bs) (Suc m) out = Some (out, EINVAL)"
  by (subst decode_loop.simps, simp add: Let_def)+

lemma decode_loop_ascii:
  assumes "b \<noteq> 0" "b < 0x80" "\<not> full buflen out"
  shows "decode_loop sw dc pc buflen altslash (b # bs) (Suc m) out =
    put_unit sw buflen out (if b = altslash then 0x2F else b) \<bind> decode_loop sw dc pc buflen altslash bs m"
  using assms by (subst decode_loop.simps) (simp add: Let_def)

lemma decode_loop_multi:
  assumes "0x80 \<le> b" "\<not> full buflen out" "utf_extrabytes ! (b div 8) = int k" "k = 1 \<or> k = 2"
    "k \<le> m" "k \<le> length bs" "decode_value b (take k bs) = Some ch"
  shows "decode_loop sw dc pc buflen altslash (b # bs) (Suc m) out =
    (if ch < (if k = 1 then 0x80 else 0x800) then Some (out, EINVAL)
     else decode_unit sw dc pc buflen altslash (ch mod 2 ^ 16) out \<bind>
       (\<lambda>(out, toolong). if toolong then Some (out, ENAMETOOLONG)
          else decode_loop sw dc pc buflen altslash (drop k bs) (m - k) out))"
  using assms by (subst decode_loop.simps) (auto simp: Let_def)

lemma decode_loop_four:
  assumes "0x80 \<le> b" "\<not> full buflen out" "utf_extrabytes ! (b div 8) = 3"
    "3 \<le> m" "3 \<le> length bs" "decode_value b (take 3 bs) = Some ch"
  shows "decode_loop sw dc pc buflen altslash (b # bs) (Suc m) out =
    put_unit sw buflen out ((ch div 1024 + 0xD800) mod 2 ^ 16) \<bind>
      (\<lambda>out. if full buflen out then Some (out, ENAMETOOLONG)
         else put_unit sw buflen out (ch mod 1024 + 0xDC00) \<bind>
           decode_loop sw dc pc buflen altslash (drop 3 bs) (m - 3))"
  using assms by (subst decode_loop.simps) (simp add: Let_def utf_defs cong: if_cong)

lemma decode_loop_decomposes:
  assumes "\<forall>b\<in>set utf8p. b < 256" "n \<le> length utf8p" "even buflen" "2 * length us \<le> buflen"
  shows "decoded_to sw buflen us (well_continued (take n utf8p))
     (decode_loop sw True pc buflen altslash utf8p n (swapped sw us))"
  using assms
proof (induction n arbitrary: utf8p us rule: less_induct)
  case (less n)
  let ?loop = "decode_loop sw True pc buflen altslash"
  note stop = decoded_to_stop [OF less.prems(4)]
  show ?case
  proof (cases n)
    case (Suc m)
    then obtain b bs where u: "utf8p = b # bs" using less.prems(2) by (cases utf8p) auto
    have b: "b < 256" "\<forall>b\<in>set bs. b < 256" using less.prems(1) u by auto
    define e where "e = utf_extrabytes ! (b div 8)"
    define k where "k = nat e"
    define valid where "valid = well_continued (take n utf8p)"
    have v: "k \<le> m \<Longrightarrow> valid \<longleftrightarrow>
        list_all continuation (take k bs) \<and> well_continued (take (m - k) (drop k bs))"
      using well_continued_step [of k b n bs] by (simp add: valid_def u k_def e_def Suc)
    have rest: "decoded_to sw buflen ws valid (?loop (drop k bs) (m - k) (swapped sw ws))"
      if "2 * length ws \<le> buflen" "k \<le> m" for ws
    proof -
      have "decoded_to sw buflen ws (well_continued (take (m - k) (drop k bs)))
          (?loop (drop k bs) (m - k) (swapped sw ws))"
        using less.prems(2,3) that b(2) u Suc
        by (intro less.IH) (auto dest: in_set_dropD)
      with v [OF that(2)] show ?thesis unfolding decoded_to_def by blast
    qed
    consider "b = 0" | "b \<noteq> 0" "full buflen us" | "b \<noteq> 0" "\<not> full buflen us" "b < 0x80"
      | "0x80 \<le> b" "\<not> full buflen us" "int m < e mod 2 ^ 64"
      | "0x80 \<le> b" "\<not> full buflen us" "e \<notin> {1, 2, 3}"
      | "0x80 \<le> b" "\<not> full buflen us" "\<not> int m < e mod 2 ^ 64" "e = 1 \<or> e = 2"
      | "0x80 \<le> b" "\<not> full buflen us" "\<not> int m < e mod 2 ^ 64" "e = 3"
      by fastforce
    then have "decoded_to sw buflen us valid (?loop (b # bs) (Suc m) (swapped sw us))"
    proof cases
      case 3
      then have "e = 0" using utf_extrabytes_range(2) [OF b(1)] by (simp add: e_def)
      with 3 rest less.prems(3) show ?thesis
        unfolding decode_loop_ascii [OF 3(1,3), of buflen "swapped sw us", simplified, OF 3(2)]
        by (intro put_unit_decoded) (auto simp: k_def)
    next
      case 6
      then have k: "e = int k" "k = 1 \<or> k = 2" "k \<le> m" "k \<le> length bs"
        using less.prems(2) u Suc by (auto simp: k_def)
      then obtain ch where ch: "decode_value b (take k bs) = Some ch"
        using decode_value_exists [of "take k bs" b] by auto
      note step = decode_loop_multi [OF 6(1) _ k(1) [unfolded e_def] k(2-4) ch, of buflen "swapped sw us"]
      have "decoded_to sw buflen us valid (decode_unit sw True pc buflen altslash (ch mod 2 ^ 16) (swapped sw us))"
        by (rule decoded_to_weaken, rule decode_unit_decomposes [OF _ less.prems(3) 6(2)]) simp
      then have "decoded_to sw buflen us valid
          (decode_unit sw True pc buflen altslash (ch mod 2 ^ 16) (swapped sw us) \<bind>
            (\<lambda>(out, toolong). if toolong then Some (out, ENAMETOOLONG) else ?loop (drop k bs) (m - k) out))"
        by (rule decoded_to_bind) (use rest k(3) in \<open>auto intro: decoded_to_stop\<close>)
      with 6(2) show ?thesis by (simp add: step stop)
    next
      case 7
      then have k: "k = 3" "3 \<le> m" "3 \<le> length bs" using less.prems(2) u Suc by (auto simp: k_def)
      then obtain ch where ch: "decode_value b (take 3 bs) = Some ch"
        using decode_value_exists [of "take 3 bs" b] by auto
      obtain b2 b3 b4 cs where bs: "bs = b2 # b3 # b4 # cs"
        using k(3) by (auto simp: Suc_le_length_iff numeral_3_eq_3)
      have b3: "0xf0 \<le> b" "b < 0xf8" using utf_extrabytes_range(1) [OF b(1)] 7 by (auto simp: e_def)
      have d1: "undecomposable ((ch div 1024 + 0xD800) mod 2 ^ 16)" if valid
      proof -
        have "continuation b2" "continuation b3" "continuation b4"
          using v that k bs by simp_all
        from decode_value_pair_range [OF b3 this] ch bs show ?thesis
          by (intro undecomposable_range) simp_all
      qed
      have d2: "undecomposable (ch mod 1024 + 0xDC00)"
        by (intro undecomposable_range) (simp_all add: less_diff_conv [symmetric])
      have low: "decoded_to sw buflen ws valid (put_unit sw buflen (swapped sw ws) (ch mod 1024 + 0xDC00) \<bind>
          ?loop (drop 3 bs) (m - 3))" if "\<not> full buflen ws" for ws
        by (rule put_unit_decoded [OF less.prems(3) that d2]) (use rest k in simp)
      have nf: "\<not> full buflen (swapped sw us)" using 7(2) by simp
      show ?thesis
        unfolding decode_loop_four [OF 7(1) nf 7(4) [unfolded e_def] k(2,3) ch]
        by (rule put_unit_decoded [OF less.prems(3) 7(2) d1])
           (assumption, simp only: full_swapped decoded_to_stop simp_thms split: if_split, use low in blast)
    qed (simp_all add: stop decode_loop_stops e_def)
    then show ?thesis by (simp add: valid_def u Suc)
  qed (use stop in \<open>simp add: decode_loop_end\<close>)
qed

section \<open>Properties\<close>



text \<open>
  C38: \<^verbatim>\<open>utf8_encodelen\<close> computes the number of bytes \<^verbatim>\<open>utf8_encodestr\<close> writes, up to one byte for
  each surrogate that is not part of a pair, which it counts as two bytes and \<^verbatim>\<open>utf8_encodestr\<close>
  writes as three: encoding succeeds, and writes that many bytes before the NUL, exactly when the
  buffer is longer than that. So a buffer of one byte more than the computed length, such
  as \<^verbatim>\<open>builddesc\<close> falls back to, is enough exactly when the surrogates of the name are paired. The
  replacement for the slash is a character other than NUL and not a surrogate, and the encoder
  neither decomposes nor leaves out the terminating NUL.
\<close>

theorem utf8_encodelen_exact:
  assumes "units us" "altslash < 2 ^ 16" "\<not> surrogate altslash" "altslash \<noteq> 0"
    and "flags AND UTF_DECOMPOSED = 0" "sw \<longleftrightarrow> flags AND UTF_REVERSE_ENDIAN \<noteq> 0"
    and "flags AND UTF_NO_NULL_TERM = 0"
  shows "\<exists>len. utf8_encodelen (swapped sw us) (2 * length us) altslash flags = Some len \<and>
     (\<forall>buflen > 0. \<exists>buf n r.
        utf8_encodestr (swapped sw us) (2 * length us) buflen altslash flags = Some (buf, n, r) \<and>
        (if len + unpaired us < buflen then r = 0 \<and> n = len + unpaired us else r = ENAMETOOLONG))"
proof -
  define len where "len = name_length altslash us"
  have len: "len + unpaired us = length (units_utf8 altslash us)"
    using name_length_eq [OF assms(1-3)] by (simp add: len_def)
  have "\<not> high_surrogate altslash" using assms(3) by (simp add: surrogate_def)
  note facts = assms(1,2) this
  have "utf8_encodelen (swapped sw us) (2 * length us) altslash flags = Some len"
    using encodelen_loop_units [OF assms(1), of sw altslash "[]" 0] assms(6)
    by (simp add: utf8_encodelen_def len_def)
  moreover have "\<exists>buf n r. utf8_encodestr (swapped sw us) (2 * length us) buflen altslash flags = Some (buf, n, r) \<and>
        (if len + unpaired us < buflen then r = 0 \<and> n = len + unpaired us else r = ENAMETOOLONG)"
    if "buflen > 0" for buflen
  proof (cases "len + unpaired us < buflen")
    case True
    then show ?thesis
      using utf8_encodestr_units [OF facts assms(5) _ assms(6), of buflen "[]"] assms(4,7) len by simp
  next
    case False
    then have "\<not> room buflen True [] (length (units_utf8 altslash us))" "room buflen True [] 0"
      using that len by (simp_all add: room_def)
    from encode_loop_toolong [OF facts this(2,1), of sw "[]" "[]" 0] obtain out' where
      "encode_loop sw True False buflen altslash (int (length us)) 0 [] (swapped sw us) [] 0 = Some (out', ENAMETOOLONG)"
      "room buflen True out' 0" by auto
    with False assms(5-7) show ?thesis by (simp add: utf8_encodestr_def put_bytes_def room_def)
  qed
  ultimately show ?thesis by blast
qed

theorem utf8_encodelen_exact_witness:
  "unpaired [0xD800, 0x41] = 1 \<and>
   (\<exists>len. utf8_encodelen [0xD800, 0x41] 4 0x3A 0 = Some len \<and>
     (\<forall>buflen > 0. \<exists>buf n r. utf8_encodestr [0xD800, 0x41] 4 buflen 0x3A 0 = Some (buf, n, r) \<and>
        (if len + unpaired [0xD800, 0x41] < buflen then r = 0 \<and> n = len + unpaired [0xD800, 0x41] else r = ENAMETOOLONG)))"
proof
  show "unpaired [0xD800, 0x41] = 1" by (simp add: surrogate_def high_surrogate_def low_surrogate_def)
next
  have "units [0xD800, 0x41]" "\<not> surrogate 0x3A" "swapped False [0xD800, 0x41] = [0xD800, 0x41]"
    by (simp_all add: units_def surrogate_def high_surrogate_def low_surrogate_def swapped_def)
  then show "\<exists>len. utf8_encodelen [0xD800, 0x41] 4 0x3A 0 = Some len \<and>
     (\<forall>buflen > 0. \<exists>buf n r. utf8_encodestr [0xD800, 0x41] 4 buflen 0x3A 0 = Some (buf, n, r) \<and>
        (if len + unpaired [0xD800, 0x41] < buflen then r = 0 \<and> n = len + unpaired [0xD800, 0x41] else r = ENAMETOOLONG))"
    using utf8_encodelen_exact [of "[0xD800, 0x41]" "0x3A" 0 False] by (simp del: unpaired.simps)
qed

text \<open>
  C37: \<^verbatim>\<open>utf8_decodestr\<close> called with \<^verbatim>\<open>UTF_DECOMPOSED\<close> always returns, for any input bytes and a
  buffer of any even size, and never writes behind the end of its buffer; and if
  every lead byte of the input is followed by the continuation bytes it announces, then no unit of
  the result is a character that could be decomposed any further. This rests on the contents of
  the tables: every character of the bitmap has a decomposition, of at most four characters.
\<close>

theorem utf8_decodestr_decomposed:
  assumes "\<forall>b\<in>set utf8p. b < 256" "utf8len \<le> length utf8p" "even buflen"
    and "flags AND UTF_DECOMPOSED \<noteq> 0" "sw \<longleftrightarrow> flags AND UTF_REVERSE_ENDIAN \<noteq> 0"
  shows "\<exists>us r. utf8_decodestr utf8p utf8len buflen altslash flags = Some (swapped sw us, 2 * length us, r) \<and>
     2 * length us \<le> buflen \<and>
     (well_continued (take utf8len utf8p) \<longrightarrow> (\<forall>u\<in>set us. unicode_decomposeable u = Some False))"
proof -
  have "decoded_to sw buflen [] (well_continued (take utf8len utf8p))
      (decode_loop sw True (flags AND UTF_PRECOMPOSED \<noteq> 0) buflen altslash utf8p utf8len (swapped sw []))"
    using decode_loop_decomposes [OF assms(1-3), of "[]"] by simp
  then obtain us r where
    "decode_loop sw True (flags AND UTF_PRECOMPOSED \<noteq> 0) buflen altslash utf8p utf8len [] = Some (swapped sw us, r)"
    "2 * length us \<le> buflen" "well_continued (take utf8len utf8p) \<longrightarrow> list_all undecomposable us"
    unfolding decoded_to_def by auto
  with assms(4,5) show ?thesis
    by (auto simp: utf8_decodestr_def list_all_iff undecomposable_def)
qed

theorem utf8_decodestr_decomposed_witness:
  "well_continued [0x65, 0xCC, 0x81, 0xC3, 0xA9] \<and>
   (\<exists>us r. utf8_decodestr [0x65, 0xCC, 0x81, 0xC3, 0xA9] 5 16 0x3A UTF_DECOMPOSED = Some (us, 2 * length us, r) \<and>
     2 * length us \<le> 16 \<and> (\<forall>u\<in>set us. unicode_decomposeable u = Some False))"
proof -
  have "well_continued [0x65, 0xCC, 0x81, 0xC3, 0xA9]"
    by (simp add: utf_extrabytes_def continuation_def)
  then show ?thesis
    using utf8_decodestr_decomposed [of "[0x65, 0xCC, 0x81, 0xC3, 0xA9]" 5 16 UTF_DECOMPOSED False "0x3A"]
    by (simp add: UTF_DECOMPOSED_def UTF_REVERSE_ENDIAN_def swapped_def)
qed

text \<open>
  C40: \<^verbatim>\<open>utf8_decodestr\<close> does not look whether the byte after the lead byte of a two-byte sequence
  is a continuation byte. For every lead byte from C4 to DF (hexadecimal) and every second byte the
  sequence is taken for a character, where the comment of the routine announces \<^verbatim>\<open>EINVAL\<close> for
  illegal sequences. (This is without decomposition and byte swapping, for a buffer of at least one
  unit, and for a character that does not stand for a slash.)
\<close>

theorem utf8_decodestr_malformed:
  assumes "0xC4 \<le> lead" "lead \<le> 0xDF" "b < 256" "2 \<le> buflen"
    and "flags AND UTF_DECOMPOSED = 0" "flags AND UTF_REVERSE_ENDIAN = 0"
    and "altslash \<noteq> lead * 64 + b - 0x3080"
  shows "utf8_decodestr [lead, b] 2 buflen altslash flags = Some ([lead * 64 + b - 0x3080], 2, 0)"
proof -
  have x: "utf_extrabytes ! (lead div 8) = 1"
  proof -
    have "lead div 8 \<in> {24, 25, 26, 27}" using assms(1,2) by auto
    then show ?thesis by (auto simp: utf_extrabytes_def)
  qed
  have "u32_sub (lead * 64 + b) 0x3080 = lead * 64 + b - 0x3080"
    using assms(1-3) by (intro u32_sub_exact) auto
  moreover have "lead * 64 + b - 0x3080 < 0x900" "0x80 \<le> lead * 64 + b - 0x3080"
    using assms(1-3) by auto
  ultimately show ?thesis using assms x
    by (simp add: utf8_decodestr_def decode_loop.simps [of _ _ _ _ _ "[lead, b]"] decode_loop.simps [of _ _ _ _ _ "[]"]
      decode_value_def decode_unit_def put_unit_def full_def Let_def utf_defs)
qed

theorem utf8_decodestr_malformed_witness:
  "utf8_decodestr [0xC5, 0x28] 2 16 0x3A 0 = Some ([0xE8], 2, 0)"
  using utf8_decodestr_malformed [of "0xC5" "0x28" 16 0 "0x3A"] by simp

end
