(* ===== verification/Spec2Isabelle.thy ===== *)
theory Spec2Isabelle
  imports Prelude RangeList VolAlloc BTreeCheck NodeSearch BTreeRotate BTreeIterate BTreeHeader ExtentMap Utf8
begin

text \<open>
  A verification development for the HFS+ file system module of FreeBSD, whose sources are under
  \<^verbatim>\<open>src/hfsplus\<close> (the kernel module) and \<^verbatim>\<open>src/vfs\<close> (the Unicode conversion it links).

  \<^bold>\<open>The program.\<close> A volume is a range of allocation blocks. A bitmap on disk says which are in
  use (\<^verbatim>\<open>VolumeAllocation.c\<close>). A fork of a file is a list of extents (runs of blocks): the first
  ones lie in the catalog record, the others are records of a B-tree, the extents overflow file
  (\<^verbatim>\<open>FileExtentMapping.c\<close>). A B-tree is a file of nodes of equal size, described by a header
  record in node 0 (\<^verbatim>\<open>BTree.c\<close>, \<^verbatim>\<open>BTreeMiscOps.c\<close>); a node is a buffer with a descriptor in
  front, records behind it and a table of their offsets growing down from its end
  (\<^verbatim>\<open>BTreeNodeOps.c\<close>); several nodes are searched, split and merged by \<^verbatim>\<open>BTreeTreeOps.c\<close>.
  For a file that is being written the module remembers which byte ranges have no data on disk
  yet (\<^verbatim>\<open>rangelist.c\<close>). Names come from the kernel in UTF-8 and lie on disk as decomposed 16-bit
  Unicode (\<^verbatim>\<open>vfs_utfconv.c\<close>).

  \<^bold>\<open>Conventions.\<close> An operation of the code is a function with the name of the C function. It takes
  the state it reads and returns the state it changes; reference parameters become components of
  the result. Error codes of the code are results (\<^verbatim>\<open>OSErr\<close> values of theory Prelude). A kernel
  panic and a loop that does not end are \<^const>\<open>None\<close>. In the B-tree theories and those of the
  Unicode conversion so is an access outside a node, a table or a buffer, and a statement that an
  operation returns \<^const>\<open>Some\<close> says there that every access is in bounds. The theories of
  the volume bitmap index the words of a bitmap buffer and the entries of the free extent cache
  without such a test; their statements are about well-formed bitmaps and caches, on which the
  indices that are used lie inside. Integers are natural numbers or integers. The 16- and 32-bit
  arithmetic that can wrap around has the reduction written out (\<^verbatim>\<open>u16_add\<close>, \<^verbatim>\<open>u32_sub\<close> and so
  on), as have the casts to a narrower or to a signed type. Not reduced are the sums of file
  offsets (\<^verbatim>\<open>off_t\<close>) in RangeList, where only the successor of \<^verbatim>\<open>RL_INFINITY\<close> would overflow, and
  byte counts in 64 bits, which the sizes of a volume keep small.
  Loops are structural recursion where a list is traversed, \<^theory_text>\<open>function\<close> with a measure where a
  counter runs to a bound, and \<^theory_text>\<open>partial_function (option)\<close> where the sources give no bound (a
  chain of nodes read from disk, a decomposition that refers to another one, the encoder, whose
  count grows with each decomposition); the theorems show that these loops return, for the encoder
  when it is not asked to decompose. The one routine
  modelled with fuel is \<^verbatim>\<open>BlockFindContiguous\<close>: each round of its loop passes at least one block
  or returns, so the number of blocks up to the end of the search plus one is enough, which is
  part of its theorem.

  \<^bold>\<open>Theories.\<close>

  \<^item> Prelude: integer types, result codes, wrap-around arithmetic, list and word lemmas.

  \<^item> RangeList (\<^verbatim>\<open>rangelist.c\<close>): the list of byte ranges as a list of pairs in the order of the
    tail queue, one function for each routine. Shown: the scan finds the first overlap and names
    its type, removal is set difference and keeps the list ordered and coalesced, addition at the
    tail is union; addition below an entry loses ranges (a defect).

  \<^item> VolBitmap, AllocAny, FindContig, FreeExtCache, VolAlloc (\<^verbatim>\<open>VolumeAllocation.c\<close>, with
    \<^verbatim>\<open>hfs_freeblks\<close> of \<^verbatim>\<open>hfs_vfsutils.c\<close>): the bitmap is a list of 32-bit words, read by blocks;
    the volume control block is a record. Shown: marking sets or clears exactly the bits of a run;
    the two searches return the first suitable run; the cache of free extents stays ordered,
    disjoint and free; the volume invariant (free count equals free bits, cached extents are free)
    is kept by \<^verbatim>\<open>BlockAllocate\<close> and \<^verbatim>\<open>BlockDeallocate\<close>, the second of which undoes the first.
    A contiguous request needs an empty cache of free extents, any other one the bitmap block of
    the first block behind the volume to be readable; both are hypotheses of the theorems. Blocks on
    loan are given away once there are more of them than free blocks (a defect).

  \<^item> NodeBytes, BTreeNode, BTreeCheck, NodeSearch (\<^verbatim>\<open>BTreeNodeOps.c\<close>): a node is a list of bytes.
    Shown: inserting and deleting records on the bytes refine insertion and removal in the list
    of records; \<^verbatim>\<open>CheckNode\<close> accepts exactly the sane nodes; \<^verbatim>\<open>SearchNode\<close> is a binary search
    for every comparison that implements a linear order (locale \<^verbatim>\<open>key_order\<close>, interpreted for
    the two comparisons of extent keys).

  \<^item> BTreeStore, BTreeSearch, BTreeRotate (\<^verbatim>\<open>hfs_btreeio.c\<close>, \<^verbatim>\<open>BTreeTreeOps.c\<close>): the nodes of a
    file are a store from node numbers to buffers; the buffer cache of the kernel is a record of
    functions. A ghost tree relates the nodes reached from the root to a search tree. Shown:
    \<^verbatim>\<open>SearchTree\<close> finds exactly the leaf records of that tree and the path to them;
    \<^verbatim>\<open>RotateLeft\<close> keeps the records of the two nodes in order, and with an empty left node, the way
    \<^verbatim>\<open>SplitLeft\<close> calls it, finds room for the new record if no record is too long.

  \<^item> BTreeAccess, BTreeIterate (\<^verbatim>\<open>BTree.c\<close>, \<^verbatim>\<open>BTreeMiscOps.c\<close>): \<^verbatim>\<open>BTSearchRecord\<close> and
    \<^verbatim>\<open>BTIterateRecord\<close> with the hints of their iterators. Shown: whatever the hint, the record
    found is the one with the key, and iteration follows key order.

  \<^item> BTreeHeader (\<^verbatim>\<open>BTree.c\<close>, \<^verbatim>\<open>BTreeMiscOps.c\<close>): opening, closing, flushing and reloading a
    B-tree file. Shown: opening gives a well-formed control block or leaves the file closed, a
    flushed header reads back, and the depth check is off by one (a defect).

  \<^item> ExtentMap (\<^verbatim>\<open>FileExtentMapping.c\<close>): finding the extent of a file position, in the fork
    and in the extents B-tree (through \<^verbatim>\<open>BTSearchRecord\<close> and \<^verbatim>\<open>BTIterateRecord\<close>), the sector of
    a position, releasing extents (through \<^verbatim>\<open>BlockDeallocate\<close>). Shown: the mapping is the one
    the extents describe as long as sector numbers fit 32 bits, and too low by a multiple of
    2 to the power of 32 behind that (a defect); releasing frees exactly their blocks.

  \<^item> UtfTables, UtfDecomp, UtfChars, Utf8 (\<^verbatim>\<open>vfs_utfconv.c\<close>, \<^verbatim>\<open>vfs_utfconvdata.h\<close>): the tables number
    by number, the binary search in them, decomposition and combination of characters, the two
    directions of the conversion. Shown: every character the bitmap calls decomposable has a
    decomposition of at most four characters that cannot be decomposed further, Hangul syllables
    are put together again, a name survives encoding and decoding, decoded names are fully
    decomposed and stay inside the buffer, and the computed length of an encoding is the length
    written but for unpaired surrogates (a defect).

  \<^bold>\<open>Not modelled.\<close> Of the B-tree, the operations that change several nodes: \<^verbatim>\<open>InsertTree\<close>,
  \<^verbatim>\<open>DeleteTree\<close>, \<^verbatim>\<open>SplitLeft\<close> and \<^verbatim>\<open>AddNewRootNode\<close>, the allocation of nodes, the insertion,
  replacement and deletion of records by \<^verbatim>\<open>BTInsertRecord\<close> and its like, the scanner, and the
  byte swapping of nodes that come from disk (the buffers of the model are in the byte order of
  the machine). Of the extents, the creation and deletion of overflow records and the growth and
  truncation of files. The vnode operations, mounting, the in-core node table and quotas are calls into
  the host kernel (locks, name cache, user I/O) with little computation of their own. The catalog
  is a client of the B-tree with keys of Unicode names. The text encodings are tables loaded at
  run time. The journal is not compiled in. The Darwin sources and the command line tools kept
  under \<^verbatim>\<open>src/xnu\<close> and \<^verbatim>\<open>src/disk_bin\<close> are not part of the module.
\<close>

end
